(* ===== verification/Prelude.thy ===== *)
theory Prelude
  imports Main
begin

text \<open>
  Shared vocabulary of the development: the result type of fallible Rust code
  (\<open>anyhow::Result\<close>, the error being its message), the checked and saturating
  operations of Rust's unsigned integers over \<open>nat\<close>, loops that stop at the first
  error, ASCII character classes, and decimal printing and parsing as
  \<open>to_string\<close> and \<open>str::parse\<close> do it.
\<close>

section \<open>Results\<close>

type_synonym 'a res = "string + 'a"

named_theorems ok_simps \<open>what a successful step of fallible code says of its parts\<close>

text \<open>\<open>ensure!(cond, msg)\<close> followed by the rest of the function.\<close>

definition ensure :: "bool \<Rightarrow> string \<Rightarrow> 'a res \<Rightarrow> 'a res" where
  "ensure c msg k = (if c then k else Inl msg)"

text \<open>\<open>option.context(msg)?\<close> followed by the rest of the function.\<close>

definition need :: "'a option \<Rightarrow> string \<Rightarrow> ('a \<Rightarrow> 'b res) \<Rightarrow> 'b res" where
  "need v msg k = (case v of None \<Rightarrow> Inl msg | Some x \<Rightarrow> k x)"

text \<open>\<open>result?\<close> followed by the rest of the function.\<close>

definition attempt :: "'a res \<Rightarrow> ('a \<Rightarrow> 'b res) \<Rightarrow> 'b res" where
  "attempt r k = (case r of Inl e \<Rightarrow> Inl e | Inr x \<Rightarrow> k x)"

lemmas [ok_simps] = Let_def

lemma ensure_ok [ok_simps]: "ensure c msg k = Inr v \<longleftrightarrow> c \<and> k = Inr v"
  by (simp add: ensure_def)

lemma need_ok [ok_simps]: "need v msg k = Inr r \<longleftrightarrow> (\<exists>x. v = Some x \<and> k x = Inr r)"
  by (simp add: need_def split: option.splits)

lemma attempt_ok [ok_simps]: "attempt r k = Inr v \<longleftrightarrow> (\<exists>x. r = Inr x \<and> k x = Inr v)"
  by (simp add: attempt_def split: sum.splits)

lemma ensure_simps [simp]:
  "ensure True msg k = k"
  "ensure False msg k = Inl msg"
  by (simp_all add: ensure_def)

lemma need_simps [simp]:
  "need None msg k' = Inl msg"
  "need (Some x) msg k' = k' x"
  by (simp_all add: need_def)

lemma attempt_simps [simp]:
  "attempt (Inl e) k' = Inl e"
  "attempt (Inr x) k' = k' x"
  by (simp_all add: attempt_def)

lemma ensure_cong [cong]: "c = c' \<Longrightarrow> (c' \<Longrightarrow> k = k') \<Longrightarrow> ensure c msg k = ensure c' msg k'"
  by (simp add: ensure_def)

lemma attempt_cong [fundef_cong]:
  "r = r' \<Longrightarrow> (\<And>x. r' = Inr x \<Longrightarrow> k x = k' x) \<Longrightarrow> attempt r k = attempt r' k'"
  by (simp add: attempt_def split: sum.splits)

lemma need_cong [fundef_cong]:
  "v = v' \<Longrightarrow> (\<And>x. v' = Some x \<Longrightarrow> k x = k' x) \<Longrightarrow> need v msg k = need v' msg k'"
  by (simp add: need_def split: option.splits)

definition is_ok :: "'a res \<Rightarrow> bool" where
  "is_ok r = (case r of Inl _ \<Rightarrow> False | Inr _ \<Rightarrow> True)"

lemma is_ok_simps [simp]: "is_ok (Inr v)" "\<not> is_ok (Inl e)"
  by (simp_all add: is_ok_def)

lemma is_ok_iff: "is_ok r \<longleftrightarrow> (\<exists>v. r = Inr v)"
  by (cases r) simp_all

text \<open>\<open>res.ok()\<close> and \<open>opt.ok_or\<close>.\<close>

definition ok :: "'a res \<Rightarrow> 'a option" where
  "ok r = (case r of Inl _ \<Rightarrow> None | Inr v \<Rightarrow> Some v)"

lemma ok_Some [ok_simps]: "ok r = Some v \<longleftrightarrow> r = Inr v"
  by (simp add: ok_def split: sum.splits)

section \<open>Loops that stop at the first error\<close>

fun foldE :: "('a \<Rightarrow> 's \<Rightarrow> 's res) \<Rightarrow> 'a list \<Rightarrow> 's \<Rightarrow> 's res" where
  "foldE f [] s = Inr s"
| "foldE f (x # xs) s = attempt (f x s) (foldE f xs)"

lemma foldE_append:
  "foldE f (xs @ ys) s = attempt (foldE f xs s) (foldE f ys)"
proof (induction xs arbitrary: s)
  case (Cons x xs)
  then show ?case by (cases "f x s") simp_all
qed simp

text \<open>The loop rule: an invariant over the processed prefix, kept by every round.\<close>

lemma foldE_invariant_aux:
  assumes run: "foldE f xs s = Inr t"
    and base: "I pre s"
    and step: "\<And>ys x s u. I ys s \<Longrightarrow> f x s = Inr u \<Longrightarrow> I (ys @ [x]) u"
  shows "I (pre @ xs) t"
  using run base
proof (induction xs arbitrary: s pre)
  case (Cons x xs)
  from Cons.prems(1) obtain u where u: "f x s = Inr u" and rest: "foldE f xs u = Inr t"
    by (auto simp: ok_simps)
  from step[OF Cons.prems(2) u] have "I (pre @ [x]) u" .
  from Cons.IH[OF rest this] show ?case by simp
qed simp

lemma foldE_invariant:
  assumes "foldE f xs s = Inr t" and "I [] s"
    and "\<And>ys x s u. I ys s \<Longrightarrow> f x s = Inr u \<Longrightarrow> I (ys @ [x]) u"
  shows "I xs t"
  using foldE_invariant_aux[of f xs s t I "[]", OF assms(1,2)] assms(3) by simp

lemma foldE_keeps:
  assumes "foldE f xs s = Inr t" and "P s"
    and "\<And>x s u. x \<in> set xs \<Longrightarrow> P s \<Longrightarrow> f x s = Inr u \<Longrightarrow> P u"
  shows "P t"
  using assms
proof (induction xs arbitrary: s)
  case (Cons x xs)
  from Cons.prems(1) obtain u where u: "f x s = Inr u" and rest: "foldE f xs u = Inr t"
    by (auto simp: ok_simps)
  from Cons.prems(3)[of x, OF _ Cons.prems(2) u] have "P u" by simp
  with Cons.IH[OF rest] Cons.prems(3) show ?case by auto
qed simp

text \<open>\<open>iter().map(f).collect::<Result<Vec<_>>>()\<close>.\<close>

fun mapE :: "('a \<Rightarrow> 'b res) \<Rightarrow> 'a list \<Rightarrow> 'b list res" where
  "mapE f [] = Inr []"
| "mapE f (x # xs) = attempt (f x) (\<lambda>y. attempt (mapE f xs) (\<lambda>ys. Inr (y # ys)))"

lemma mapE_ok: "mapE f xs = Inr ys \<longleftrightarrow> list_all2 (\<lambda>x y. f x = Inr y) xs ys"
proof (induction xs arbitrary: ys)
  case (Cons x xs)
  then show ?case by (cases ys) (auto simp: ok_simps)
qed (auto simp: eq_commute)

text \<open>A \<open>for\<close> loop whose body only checks.\<close>

fun forE :: "('a \<Rightarrow> unit res) \<Rightarrow> 'a list \<Rightarrow> unit res" where
  "forE f [] = Inr ()"
| "forE f (x # xs) = attempt (f x) (\<lambda>_. forE f xs)"

lemma forE_ok [ok_simps]: "forE f xs = Inr u \<longleftrightarrow> (\<forall>x \<in> set xs. f x = Inr ())"
  by (induction xs) (auto simp: ok_simps)

text \<open>A property of every element together with the elements before it.\<close>

definition each_after :: "('a list \<Rightarrow> 'a \<Rightarrow> bool) \<Rightarrow> 'a list \<Rightarrow> bool" where
  "each_after P xs \<longleftrightarrow> (\<forall>k < length xs. P (take k xs) (xs ! k))"

lemma each_after_Nil [simp]: "each_after P []"
  by (simp add: each_after_def)

lemma each_after_snoc [simp]: "each_after P (xs @ [x]) \<longleftrightarrow> each_after P xs \<and> P xs x"
  by (auto simp: each_after_def less_Suc_eq nth_append)

text \<open>A loop whose rounds succeed exactly when \<open>P\<close> holds of the elements before.\<close>

lemma foldE_snoc_iff:
  assumes base: "I [] = s"
    and step: "\<And>ys x t. f x (I ys) = Inr t \<longleftrightarrow> P ys x \<and> t = I (ys @ [x])"
  shows "foldE f xs s = Inr t \<longleftrightarrow> each_after P xs \<and> t = I xs"
proof (induction xs arbitrary: t rule: rev_induct)
  case Nil
  then show ?case by (auto simp: base)
next
  case (snoc x xs)
  show ?case by (auto simp: foldE_append ok_simps snoc step)
qed

section \<open>Fallible code over a store\<close>

text \<open>
  A step that reads and writes a store. What was written before an error stays written:
  the store is returned with the error.
\<close>

type_synonym ('s, 'a) io = "'s \<Rightarrow> 'a res \<times> 's"

definition io_return :: "'a \<Rightarrow> ('s, 'a) io" where
  "io_return x s = (Inr x, s)"

definition io_fail :: "string \<Rightarrow> ('s, 'a) io" where
  "io_fail e s = (Inl e, s)"

definition io_then :: "('s, 'a) io \<Rightarrow> ('a \<Rightarrow> ('s, 'b) io) \<Rightarrow> ('s, 'b) io" where
  "io_then m k s = (case m s of (r, t) \<Rightarrow> (case r of Inl e \<Rightarrow> (Inl e, t) | Inr x \<Rightarrow> k x t))"

definition io_get :: "('s \<Rightarrow> 'a) \<Rightarrow> ('a \<Rightarrow> ('s, 'b) io) \<Rightarrow> ('s, 'b) io" where
  "io_get f k s = k (f s) s"

definition io_attempt :: "'a res \<Rightarrow> ('a \<Rightarrow> ('s, 'b) io) \<Rightarrow> ('s, 'b) io" where
  "io_attempt r k s = (case r of Inl e \<Rightarrow> (Inl e, s) | Inr x \<Rightarrow> k x s)"

definition io_catch :: "('s, 'a) io \<Rightarrow> (string \<Rightarrow> ('s, 'a) io) \<Rightarrow> ('s, 'a) io" where
  "io_catch m h s = (case m s of (Inl e, t) \<Rightarrow> h e t | (Inr x, t) \<Rightarrow> (Inr x, t))"

definition io_ensure :: "bool \<Rightarrow> string \<Rightarrow> ('s, 'a) io \<Rightarrow> ('s, 'a) io" where
  "io_ensure c msg k s = (if c then k s else (Inl msg, s))"

definition io_need :: "'a option \<Rightarrow> string \<Rightarrow> ('a \<Rightarrow> ('s, 'b) io) \<Rightarrow> ('s, 'b) io" where
  "io_need v msg k s = (case v of None \<Rightarrow> (Inl msg, s) | Some x \<Rightarrow> k x s)"

fun io_for :: "('a \<Rightarrow> ('s, unit) io) \<Rightarrow> 'a list \<Rightarrow> ('s, unit) io" where
  "io_for f [] = io_return ()"
| "io_for f (x # xs) = io_then (f x) (\<lambda>_. io_for f xs)"

named_theorems io_simps \<open>what a successful step over a store says of its parts\<close>

lemma io_return_ok [io_simps]: "io_return x s = (r, t) \<longleftrightarrow> r = Inr x \<and> t = s"
  by (auto simp: io_return_def)

lemma io_fail_ok [io_simps]: "io_fail e s = (r, t) \<longleftrightarrow> r = Inl e \<and> t = s"
  by (auto simp: io_fail_def)

lemma io_then_ok [io_simps]:
  "io_then m k s = (Inr v, t) \<longleftrightarrow> (\<exists>x u. m s = (Inr x, u) \<and> k x u = (Inr v, t))"
  by (auto simp: io_then_def split: prod.splits sum.splits)

lemma io_get_ok [io_simps]: "io_get f k s = (r, t) \<longleftrightarrow> k (f s) s = (r, t)"
  by (simp add: io_get_def)

lemma io_attempt_ok [io_simps]:
  "io_attempt r k s = (Inr v, t) \<longleftrightarrow> (\<exists>x. r = Inr x \<and> k x s = (Inr v, t))"
  by (simp add: io_attempt_def split: sum.splits)

lemma io_ensure_ok [io_simps]: "io_ensure c msg k s = (Inr v, t) \<longleftrightarrow> c \<and> k s = (Inr v, t)"
  by (simp add: io_ensure_def)

lemma io_need_ok [io_simps]:
  "io_need w msg k s = (Inr v, t) \<longleftrightarrow> (\<exists>x. w = Some x \<and> k x s = (Inr v, t))"
  by (simp add: io_need_def split: option.splits)

text \<open>Whatever the outcome, the store a step leaves is related to the one it started from.\<close>

definition leads :: "('s \<Rightarrow> 's \<Rightarrow> bool) \<Rightarrow> ('s, 'a) io \<Rightarrow> bool" where
  "leads R m \<longleftrightarrow> (\<forall>s. R s (snd (m s)))"

definition fails_in :: "('s \<Rightarrow> 's \<Rightarrow> bool) \<Rightarrow> ('s, 'a) io \<Rightarrow> bool" where
  "fails_in R m \<longleftrightarrow> (\<forall>s e t. m s = (Inl e, t) \<longrightarrow> R s t)"

text \<open>For a reflexive and transitive relation both claims are compositional.\<close>

locale effect_order =
  fixes R :: "'s \<Rightarrow> 's \<Rightarrow> bool"
  assumes R_refl: "R s s"
    and R_trans: "R s t \<Longrightarrow> R t u \<Longrightarrow> R s u"
begin

lemma leads_return: "leads R (io_return x)"
  by (simp add: leads_def io_return_def R_refl)

lemma leads_fail: "leads R (io_fail e)"
  by (simp add: leads_def io_fail_def R_refl)

lemma leads_then:
  assumes "leads R m" "\<And>x. leads R (k x)"
  shows "leads R (io_then m k)"
  unfolding leads_def
proof
  fix s
  obtain r t where m: "m s = (r, t)" by (metis surj_pair)
  with assms(1) have "R s t" by (metis leads_def snd_conv)
  moreover have "R t (snd (k x t))" for x using assms(2) by (simp add: leads_def)
  ultimately show "R s (snd (io_then m k s))"
    by (auto simp: io_then_def m split: sum.splits intro: R_trans)
qed

lemma leads_get: "(\<And>x. leads R (k x)) \<Longrightarrow> leads R (io_get f k)"
  by (simp add: leads_def io_get_def)

lemma leads_attempt: "(\<And>x. r = Inr x \<Longrightarrow> leads R (k x)) \<Longrightarrow> leads R (io_attempt r k)"
  by (auto simp: leads_def io_attempt_def R_refl split: sum.splits)

lemma leads_ensure: "(c \<Longrightarrow> leads R k) \<Longrightarrow> leads R (io_ensure c msg k)"
  by (auto simp: leads_def io_ensure_def R_refl)

lemma leads_need: "(\<And>x. v = Some x \<Longrightarrow> leads R (k x)) \<Longrightarrow> leads R (io_need v msg k)"
  by (auto simp: leads_def io_need_def R_refl split: option.splits)

lemma leads_if: "(c \<Longrightarrow> leads R m) \<Longrightarrow> (\<not> c \<Longrightarrow> leads R k) \<Longrightarrow> leads R (if c then m else k)"
  by simp

lemma leads_for: "(\<And>x. x \<in> set xs \<Longrightarrow> leads R (f x)) \<Longrightarrow> leads R (io_for f xs)"
proof (induction xs)
  case Nil
  show ?case by (simp add: leads_return)
next
  case (Cons x xs)
  then show ?case by (auto intro!: leads_then)
qed

lemma fails_lead: "leads R m \<Longrightarrow> fails_in R m"
  by (auto simp: leads_def fails_in_def) (metis snd_conv)

lemma fails_return: "fails_in R (io_return x)"
  by (simp add: fails_in_def io_return_def)

lemma fails_then:
  assumes "leads R m" "\<And>x. fails_in R (k x)"
  shows "fails_in R (io_then m k)"
  unfolding fails_in_def
proof (intro allI impI)
  fix s e t
  assume run: "io_then m k s = (Inl e, t)"
  obtain r u where m: "m s = (r, u)" by (metis surj_pair)
  with assms(1) have "R s u" by (metis leads_def snd_conv)
  then show "R s t"
    using run m assms(2) R_trans by (cases r) (auto simp: io_then_def fails_in_def)
qed

lemma fails_last:
  assumes "fails_in R m" "\<And>x s e t. k x s \<noteq> (Inl e, t)"
  shows "fails_in R (io_then m k)"
  using assms by (auto simp: fails_in_def io_then_def split: prod.splits sum.splits)

lemma fails_get: "(\<And>x. fails_in R (k x)) \<Longrightarrow> fails_in R (io_get f k)"
  by (simp add: fails_in_def io_get_def)

lemma fails_attempt: "(\<And>x. r = Inr x \<Longrightarrow> fails_in R (k x)) \<Longrightarrow> fails_in R (io_attempt r k)"
  by (auto simp: fails_in_def io_attempt_def R_refl split: sum.splits)

lemma fails_ensure: "(c \<Longrightarrow> fails_in R k) \<Longrightarrow> fails_in R (io_ensure c msg k)"
  by (auto simp: fails_in_def io_ensure_def R_refl)

lemma fails_need: "(\<And>x. v = Some x \<Longrightarrow> fails_in R (k x)) \<Longrightarrow> fails_in R (io_need v msg k)"
  by (auto simp: fails_in_def io_need_def R_refl split: option.splits)

lemmas fails_steps = fails_return fails_then fails_get fails_attempt fails_ensure fails_need

lemmas leads_steps = leads_return leads_fail leads_then leads_get leads_attempt leads_ensure
  leads_need leads_for

end

section \<open>Unsigned machine integers\<close>

text \<open>
  A \<open>u64\<close>, \<open>u32\<close> or \<open>usize\<close> is a \<open>nat\<close> below its width; the operations below write
  out what Rust does at the boundary.
\<close>

definition u64_lim :: nat where "u64_lim = 2 ^ 64"
definition u32_lim :: nat where "u32_lim = 2 ^ 32"

lemma u64_lim_val: "u64_lim = 18446744073709551616" by (simp add: u64_lim_def)
lemma u32_lim_val: "u32_lim = 4294967296" by (simp add: u32_lim_def)

definition checked_add64 :: "nat \<Rightarrow> nat \<Rightarrow> nat option" where
  "checked_add64 a b = (if a + b < u64_lim then Some (a + b) else None)"

definition checked_add32 :: "nat \<Rightarrow> nat \<Rightarrow> nat option" where
  "checked_add32 a b = (if a + b < u32_lim then Some (a + b) else None)"

definition checked_sub :: "nat \<Rightarrow> nat \<Rightarrow> nat option" where
  "checked_sub a b = (if b \<le> a then Some (a - b) else None)"

definition checked_mul64 :: "nat \<Rightarrow> nat \<Rightarrow> nat option" where
  "checked_mul64 a b = (if a * b < u64_lim then Some (a * b) else None)"

definition saturating_sub :: "nat \<Rightarrow> nat \<Rightarrow> nat" where
  "saturating_sub a b = (if b \<le> a then a - b else 0)"

definition saturating_add64 :: "nat \<Rightarrow> nat \<Rightarrow> nat" where
  "saturating_add64 a b = min (a + b) (u64_lim - 1)"

definition saturating_mul64 :: "nat \<Rightarrow> nat \<Rightarrow> nat" where
  "saturating_mul64 a b = min (a * b) (u64_lim - 1)"

text \<open>\<open>a + b\<close> on \<open>u64\<close> in a release build wraps.\<close>

definition wrapping_add64 :: "nat \<Rightarrow> nat \<Rightarrow> nat" where
  "wrapping_add64 a b = (a + b) mod u64_lim"

definition wrapping_add32 :: "nat \<Rightarrow> nat \<Rightarrow> nat" where
  "wrapping_add32 a b = (a + b) mod u32_lim"

lemma checked_add64_Some [ok_simps]:
  "checked_add64 a b = Some c \<longleftrightarrow> c = a + b \<and> a + b < u64_lim"
  by (auto simp: checked_add64_def)

lemma checked_add32_Some [ok_simps]:
  "checked_add32 a b = Some c \<longleftrightarrow> c = a + b \<and> a + b < u32_lim"
  by (auto simp: checked_add32_def)

lemma checked_sub_Some [ok_simps]: "checked_sub a b = Some c \<longleftrightarrow> b \<le> a \<and> c = a - b"
  by (auto simp: checked_sub_def)

lemma checked_sub_Some_add: "checked_sub a b = Some c \<longleftrightarrow> a = b + c"
  by (auto simp: checked_sub_def)

lemma checked_mul64_Some [ok_simps]:
  "checked_mul64 a b = Some c \<longleftrightarrow> c = a * b \<and> a * b < u64_lim"
  by (auto simp: checked_mul64_def)

lemma saturating_sub_nat [simp]: "saturating_sub a b = a - b"
  by (simp add: saturating_sub_def)

lemma wrapping_add64_exact: "a + b < u64_lim \<Longrightarrow> wrapping_add64 a b = a + b"
  by (simp add: wrapping_add64_def)

section \<open>Bytes and decimal text\<close>

definition is_digit :: "char \<Rightarrow> bool" where
  "is_digit c \<longleftrightarrow> 48 \<le> (of_char c :: nat) \<and> (of_char c :: nat) \<le> 57"

definition is_lower :: "char \<Rightarrow> bool" where
  "is_lower c \<longleftrightarrow> 97 \<le> (of_char c :: nat) \<and> (of_char c :: nat) \<le> 122"

definition is_upper :: "char \<Rightarrow> bool" where
  "is_upper c \<longleftrightarrow> 65 \<le> (of_char c :: nat) \<and> (of_char c :: nat) \<le> 90"

definition is_hexdigit :: "char \<Rightarrow> bool" where
  "is_hexdigit c \<longleftrightarrow> is_digit c \<or>
     (97 \<le> (of_char c :: nat) \<and> (of_char c :: nat) \<le> 102) \<or>
     (65 \<le> (of_char c :: nat) \<and> (of_char c :: nat) \<le> 70)"

definition lower_char :: "char \<Rightarrow> char" where
  "lower_char c = (if is_upper c then char_of ((of_char c :: nat) + 32) else c)"

definition ascii_lower :: "string \<Rightarrow> string" where
  "ascii_lower s = map lower_char s"

definition digit_val :: "char \<Rightarrow> nat" where
  "digit_val c = (of_char c :: nat) - 48"

definition digit_char :: "nat \<Rightarrow> char" where
  "digit_char d = char_of (48 + d)"

lemma digit_char_digit [simp]: "d < 10 \<Longrightarrow> is_digit (digit_char d)"
  by (simp add: is_digit_def digit_char_def of_char_mod_256)

lemma digit_val_char [simp]: "d < 10 \<Longrightarrow> digit_val (digit_char d) = d"
  by (simp add: digit_val_def digit_char_def)

lemma digit_val_less: "is_digit c \<Longrightarrow> digit_val c < 10"
  unfolding is_digit_def digit_val_def by linarith

lemma digit_char_val: "is_digit c \<Longrightarrow> digit_char (digit_val c) = c"
  by (simp add: is_digit_def digit_val_def digit_char_def)

lemma lower_char_idem [simp]: "lower_char (lower_char c) = lower_char c"
  by (auto simp: lower_char_def is_upper_def)

lemma ascii_lower_idem [simp]: "ascii_lower (ascii_lower s) = ascii_lower s"
  by (simp add: ascii_lower_def comp_def)

lemma length_ascii_lower [simp]: "length (ascii_lower s) = length s"
  by (simp add: ascii_lower_def)

lemma ascii_lower_append [simp]: "ascii_lower (s @ t) = ascii_lower s @ ascii_lower t"
  by (simp add: ascii_lower_def)

lemma is_hexdigit_lower [simp]: "is_hexdigit (lower_char c) = is_hexdigit c"
  by (auto simp: lower_char_def is_upper_def is_hexdigit_def is_digit_def)

definition nat_of_digits :: "string \<Rightarrow> nat" where
  "nat_of_digits s = foldl (\<lambda>n c. 10 * n + digit_val c) 0 s"

fun show_nat :: "nat \<Rightarrow> string" where
  "show_nat n = (if n < 10 then [digit_char n] else show_nat (n div 10) @ [digit_char (n mod 10)])"

declare show_nat.simps [simp del]

lemma nat_of_digits_snoc [simp]: "nat_of_digits (s @ [c]) = 10 * nat_of_digits s + digit_val c"
  by (simp add: nat_of_digits_def)

lemma nat_of_digits_Nil [simp]: "nat_of_digits [] = 0"
  by (simp add: nat_of_digits_def)

lemma show_nat_digits: "\<forall>c \<in> set (show_nat n). is_digit c"
proof (induction n rule: show_nat.induct)
  case (1 n)
  then show ?case by (subst show_nat.simps) auto
qed

lemma show_nat_not_Nil [simp]: "show_nat n \<noteq> []"
  by (subst show_nat.simps) simp

lemma nat_of_digits_show [simp]: "nat_of_digits (show_nat n) = n"
proof (induction n rule: show_nat.induct)
  case (1 n)
  show ?case
  proof (cases "n < 10")
    case True
    then show ?thesis by (subst show_nat.simps) (simp add: nat_of_digits_def)
  next
    case False
    with 1 have "nat_of_digits (show_nat (n div 10)) = n div 10" by simp
    with False show ?thesis by (subst show_nat.simps) simp
  qed
qed

lemma show_nat_inject [simp]: "show_nat m = show_nat n \<longleftrightarrow> m = n"
  using nat_of_digits_show by metis

text \<open>\<open>str::parse::<uN>\<close>: an optional plus sign, at least one digit, no overflow.\<close>

definition parse_below :: "nat \<Rightarrow> string \<Rightarrow> nat option" where
  "parse_below lim s =
     (let t = (case s of c # r \<Rightarrow> if c = CHR ''+'' then r else s | [] \<Rightarrow> s)
      in if t \<noteq> [] \<and> list_all is_digit t \<and> nat_of_digits t < lim
         then Some (nat_of_digits t) else None)"

abbreviation parse_u64 :: "string \<Rightarrow> nat option" where "parse_u64 \<equiv> parse_below u64_lim"
abbreviation parse_u32 :: "string \<Rightarrow> nat option" where "parse_u32 \<equiv> parse_below u32_lim"

lemma parse_below_less: "parse_below lim s = Some n \<Longrightarrow> n < lim"
  by (auto simp: parse_below_def Let_def split: if_splits)

lemma parse_below_show [simp]: "n < lim \<Longrightarrow> parse_below lim (show_nat n) = Some n"
proof -
  assume n: "n < lim"
  have d: "list_all is_digit (show_nat n)"
    using show_nat_digits by (simp add: list_all_iff)
  have "hd (show_nat n) \<noteq> CHR ''+''"
    using d by (cases "show_nat n") (auto simp: is_digit_def)
  then have "(case show_nat n of c # r \<Rightarrow> if c = CHR ''+'' then r else show_nat n
                                 | [] \<Rightarrow> show_nat n) = show_nat n"
    by (auto split: list.splits)
  with n d show ?thesis by (simp add: parse_below_def)
qed

section \<open>Options and lists\<close>

lemma option_all_iff: "(case v of None \<Rightarrow> True | Some x \<Rightarrow> P x) \<longleftrightarrow> (\<forall>x. v = Some x \<longrightarrow> P x)"
  by (cases v) simp_all

text \<open>\<open>argMax(row, version)\<close>: the row of greatest revision, the later one on a tie.\<close>

definition latest :: "('a \<Rightarrow> nat) \<Rightarrow> 'a list \<Rightarrow> 'a option" where
  "latest ver xs = foldl (\<lambda>m x. case m of None \<Rightarrow> Some x
     | Some y \<Rightarrow> if ver y \<le> ver x then Some x else m) None xs"

lemma latest_Nil [simp]: "latest ver [] = None"
  by (simp add: latest_def)

lemma latest_snoc:
  "latest ver (xs @ [x]) = (case latest ver xs of None \<Rightarrow> Some x
     | Some y \<Rightarrow> if ver y \<le> ver x then Some x else Some y)"
  by (auto simp: latest_def split: option.splits)

lemma latest_None [simp]: "latest ver xs = None \<longleftrightarrow> xs = []"
  by (induction xs rule: rev_induct) (auto simp: latest_snoc split: option.splits)

lemma latest_in: "latest ver xs = Some y \<Longrightarrow> y \<in> set xs \<and> (\<forall>x \<in> set xs. ver x \<le> ver y)"
  by (induction xs arbitrary: y rule: rev_induct)
    (fastforce simp: latest_snoc split: option.splits if_splits)+

lemma latest_above: "(\<forall>y \<in> set xs. ver y \<le> ver x) \<Longrightarrow> latest ver (xs @ [x]) = Some x"
  by (auto simp: latest_snoc split: option.splits dest: latest_in)

text \<open>A \<open>ReplacingMergeTree\<close> read with \<open>FINAL\<close>: of the rows of one key, the one of
  greatest version, the later one on a tie.\<close>

fun final_rows :: "('a \<Rightarrow> 'k) \<Rightarrow> ('a \<Rightarrow> nat) \<Rightarrow> 'a list \<Rightarrow> 'a list" where
  "final_rows key ver [] = []"
| "final_rows key ver (x # xs) =
     (if \<exists>y \<in> set xs. key y = key x \<and> ver x \<le> ver y then final_rows key ver xs
      else x # filter (\<lambda>y. key y \<noteq> key x) (final_rows key ver xs))"

lemma set_map_filter: "set (List.map_filter f xs) = {y. \<exists>x \<in> set xs. f x = Some y}"
  by (induction xs) (auto simp: List.map_filter_simps split: option.splits)

text \<open>Indexed read as \<open>slice.get(i)\<close>.\<close>

definition nth_opt :: "'a list \<Rightarrow> nat \<Rightarrow> 'a option" where
  "nth_opt xs i = (if i < length xs then Some (xs ! i) else None)"

lemma nth_opt_Some [ok_simps]: "nth_opt xs i = Some x \<longleftrightarrow> i < length xs \<and> x = xs ! i"
  by (auto simp: nth_opt_def)

text \<open>\<open>slice.chunks(n)\<close> for \<open>n > 0\<close>.\<close>

function chunks :: "nat \<Rightarrow> 'a list \<Rightarrow> 'a list list" where
  "chunks n xs = (if xs = [] \<or> n = 0 then [] else take n xs # chunks n (drop n xs))"
  by pat_completeness auto
termination
  by (relation "measure (\<lambda>(n, xs). length xs)") auto

declare chunks.simps [simp del]

lemma concat_chunks: "0 < n \<Longrightarrow> concat (chunks n xs) = xs"
proof (induction n xs rule: chunks.induct)
  case (1 n xs)
  then show ?case by (subst chunks.simps) auto
qed

lemma chunks_bound: "c \<in> set (chunks n xs) \<Longrightarrow> length c \<le> n \<and> c \<noteq> []"
proof (induction n xs rule: chunks.induct)
  case (1 n xs)
  show ?case
  proof (cases "xs = [] \<or> n = 0")
    case True
    with "1.prems" show ?thesis by (subst (asm) chunks.simps) auto
  next
    case False
    with "1.prems" have "c = take n xs \<or> c \<in> set (chunks n (drop n xs))"
      by (subst (asm) chunks.simps) auto
    with "1.IH"[OF False] False show ?thesis by auto
  qed
qed

end
