(* ===== verification/Amounts.thy ===== *)
theory Amounts
  imports Prelude
begin

text \<open>
  Exact asset amounts (\<open>shared/warehouse/src/types.rs\<close>): the four networks, raw
  quantities kept as decimal strings up to the largest 256-bit value, their conversion
  from and to decimal asset units, and millisecond timestamps. The lemmas relate the
  string algorithms to the numbers they denote.
\<close>

datatype network = Tron | Ethereum | Bsc | Bitcoin

definition network_ALL :: "network list" where
  "network_ALL = [Tron, Ethereum, Bsc, Bitcoin]"

fun network_id :: "network \<Rightarrow> string" where
  "network_id Tron = ''tron:mainnet''"
| "network_id Ethereum = ''eip155:1''"
| "network_id Bsc = ''eip155:56''"
| "network_id Bitcoin = ''bip122:000000000019d6689c085ae165831e93''"

fun network_name :: "network \<Rightarrow> string" where
  "network_name Tron = ''tron''"
| "network_name Ethereum = ''ethereum''"
| "network_name Bsc = ''bsc''"
| "network_name Bitcoin = ''bitcoin''"

fun native_asset :: "network \<Rightarrow> string" where
  "native_asset Tron = ''native:TRX''"
| "native_asset Ethereum = ''native:ETH''"
| "native_asset Bsc = ''native:BNB''"
| "native_asset Bitcoin = ''native:BTC''"

fun native_decimals :: "network \<Rightarrow> nat" where
  "native_decimals Tron = 6"
| "native_decimals Ethereum = 18"
| "native_decimals Bsc = 18"
| "native_decimals Bitcoin = 8"

definition network_parse :: "string \<Rightarrow> network res" where
  "network_parse v =
     need (find (\<lambda>n. network_id n = v) network_ALL) ''unknown warehouse network identity'' Inr"

text \<open>\<open>str\<close> comparison is bytewise lexicographic.\<close>

fun str_le :: "string \<Rightarrow> string \<Rightarrow> bool" where
  "str_le [] t = True"
| "str_le (c # s) [] = False"
| "str_le (c # s) (d # t) =
     ((of_char c :: nat) < of_char d \<or> c = d \<and> str_le s t)"

definition raw_max :: string where
  "raw_max = ''115792089237316195423570985008687907853269984665640564039457584007913129639935''"

definition trim_zeros :: "string \<Rightarrow> string" where
  "trim_zeros = dropWhile (\<lambda>c. c = CHR ''0'')"

definition raw_parse :: "string \<Rightarrow> string res" where
  "raw_parse raw =
     ensure (raw \<noteq> [] \<and> list_all is_digit raw)
       ''amount must be an unsigned decimal integer string''
     (let trimmed = trim_zeros raw;
          normalized = (if trimmed = [] then ''0'' else trimmed)
      in ensure (length normalized < length raw_max \<or>
                 (length normalized = length raw_max \<and> str_le normalized raw_max))
           ''amount exceeds UInt256''
         (Inr normalized))"

definition btc_supply :: nat where "btc_supply = 2100000000000000"

definition raw_from_satoshis :: "nat \<Rightarrow> string res" where
  "raw_from_satoshis sats =
     ensure (sats \<le> btc_supply) ''satoshi amount exceeds Bitcoin supply''
     (raw_parse (show_nat sats))"

text \<open>\<open>split_once\<close>: at the first occurrence of the character.\<close>

definition split_once :: "char \<Rightarrow> string \<Rightarrow> (string \<times> string) option" where
  "split_once c s =
     (if c \<in> set s
      then Some (takeWhile (\<lambda>d. d \<noteq> c) s, tl (dropWhile (\<lambda>d. d \<noteq> c) s))
      else None)"

definition trim_end_zeros :: "string \<Rightarrow> string" where
  "trim_end_zeros s = rev (trim_zeros (rev s))"

definition raw_from_decimal :: "string \<Rightarrow> nat \<Rightarrow> string res" where
  "raw_from_decimal v decimals =
     (let (whole, fraction) = (case split_once (CHR ''.'') v of Some p \<Rightarrow> p | None \<Rightarrow> (v, []))
      in ensure (whole \<noteq> [] \<and> list_all is_digit whole \<and> list_all is_digit fraction \<and>
                 (CHR ''.'' \<notin> set v \<or> fraction \<noteq> []))
           ''invalid exact decimal amount''
         (let significant = trim_end_zeros fraction
          in ensure (length significant \<le> decimals) ''amount has sub-atomic precision''
             (raw_parse (whole @ significant
                @ replicate (saturating_sub decimals (length significant)) (CHR ''0'')))))"

definition pad_zeros :: "nat \<Rightarrow> string \<Rightarrow> string" where
  "pad_zeros w s = replicate (w - length s) (CHR ''0'') @ s"

definition raw_decimal :: "string \<Rightarrow> nat \<Rightarrow> string" where
  "raw_decimal a decimals =
     (if decimals = 0 then a
      else let padded = pad_zeros (decimals + 1) a; split = length padded - decimals
           in take split padded @ ''.'' @ drop split padded)"

definition millis_from_seconds :: "nat \<Rightarrow> nat res" where
  "millis_from_seconds s = need (checked_mul64 s 1000) ''timestamp overflow'' Inr"

section \<open>Decimal strings and the numbers they denote\<close>

lemma is_digit_zero [simp]: "is_digit (CHR ''0'')"
  by (simp add: is_digit_def)

lemma digit_val_zero [simp]: "digit_val (CHR ''0'') = 0"
  by (simp add: digit_val_def)

lemma digit_char_0 [simp]: "digit_char 0 = CHR ''0''"
  by code_simp

lemma digit_val_pos: "is_digit c \<Longrightarrow> c \<noteq> CHR ''0'' \<Longrightarrow> 0 < digit_val c"
proof (rule ccontr)
  assume c: "is_digit c" "c \<noteq> CHR ''0''" and "\<not> 0 < digit_val c"
  then have "digit_char (digit_val c) = digit_char 0" by simp
  with c show False by (simp add: digit_char_val)
qed

lemma nat_of_digits_append:
  "nat_of_digits (s @ t) = nat_of_digits s * 10 ^ length t + nat_of_digits t"
proof (induction t rule: rev_induct)
  case (snoc c t)
  have "nat_of_digits (s @ t @ [c]) = 10 * nat_of_digits (s @ t) + digit_val c"
    by (simp only: append_assoc[symmetric] nat_of_digits_snoc)
  with snoc show ?case by (simp add: algebra_simps)
qed simp

lemma nat_of_digits_Cons:
  "nat_of_digits (c # s) = digit_val c * 10 ^ length s + nat_of_digits s"
  using nat_of_digits_append[of "[c]" s] by (simp add: nat_of_digits_def)

lemma nat_of_digits_less: "list_all is_digit s \<Longrightarrow> nat_of_digits s < 10 ^ length s"
proof (induction s rule: rev_induct)
  case (snoc c s)
  then have "digit_val c < 10" and "nat_of_digits s < 10 ^ length s"
    by (auto intro: digit_val_less)
  then show ?case by simp
qed simp

lemma nat_of_digits_zeros [simp]: "nat_of_digits (replicate n (CHR ''0'')) = 0"
  by (induction n) (simp_all add: nat_of_digits_Cons)

lemma nat_of_digits_pad [simp]: "nat_of_digits (pad_zeros w s) = nat_of_digits s"
  by (simp add: pad_zeros_def nat_of_digits_append)

lemma trim_zeros_value [simp]: "nat_of_digits (trim_zeros s) = nat_of_digits s"
  by (induction s) (auto simp: trim_zeros_def nat_of_digits_Cons)

lemma trim_zeros_digits: "list_all is_digit s \<Longrightarrow> list_all is_digit (trim_zeros s)"
  by (induction s) (auto simp: trim_zeros_def)

lemma trim_zeros_hd: "trim_zeros s \<noteq> [] \<Longrightarrow> hd (trim_zeros s) \<noteq> CHR ''0''"
  unfolding trim_zeros_def using hd_dropWhile by blast

lemma trim_zeros_id: "s = [] \<or> hd s \<noteq> CHR ''0'' \<Longrightarrow> trim_zeros s = s"
  by (cases s) (auto simp: trim_zeros_def)

lemma trim_zeros_decomp: "\<exists>n. s = replicate n (CHR ''0'') @ trim_zeros s"
proof (induction s)
  case (Cons c s)
  show ?case
  proof (cases "c = CHR ''0''")
    case True
    with Cons obtain n where "s = replicate n (CHR ''0'') @ trim_zeros s" by blast
    with True have "c # s = replicate (Suc n) (CHR ''0'') @ trim_zeros (c # s)"
      by (simp add: trim_zeros_def)
    then show ?thesis by blast
  next
    case False
    then have "c # s = replicate 0 (CHR ''0'') @ trim_zeros (c # s)"
      by (simp add: trim_zeros_def)
    then show ?thesis by blast
  qed
qed (simp add: trim_zeros_def)

text \<open>A canonical decimal: digits without a superfluous leading zero.\<close>

definition canonical_nat :: "string \<Rightarrow> bool" where
  "canonical_nat s \<longleftrightarrow> list_all is_digit s \<and> s \<noteq> [] \<and> (hd s = CHR ''0'' \<longrightarrow> s = ''0'')"

lemma show_nat_hd: "0 < n \<Longrightarrow> hd (show_nat n) \<noteq> CHR ''0''"
proof (induction n rule: show_nat.induct)
  case (1 n)
  show ?case
  proof (cases "n < 10")
    case True
    have "digit_val (digit_char n) = n" using True by simp
    with "1.prems" have "digit_char n \<noteq> CHR ''0''" by (metis digit_val_zero less_irrefl)
    with True show ?thesis by (subst show_nat.simps) simp
  next
    case False
    with "1.IH" have "hd (show_nat (n div 10)) \<noteq> CHR ''0''" by simp
    with False show ?thesis by (subst show_nat.simps) simp
  qed
qed

lemma show_nat_0: "show_nat 0 = ''0''"
  by (subst show_nat.simps) simp

lemma show_nat_canonical [simp]: "canonical_nat (show_nat n)"
proof (cases "n = 0")
  case True
  then show ?thesis by (simp add: show_nat_0 canonical_nat_def)
next
  case False
  then show ?thesis
    using show_nat_hd[of n] show_nat_digits[of n] by (simp add: canonical_nat_def list_all_iff)
qed

lemma canonical_pos: "canonical_nat s \<Longrightarrow> s \<noteq> ''0'' \<Longrightarrow> 10 ^ (length s - 1) \<le> nat_of_digits s"
proof -
  assume c: "canonical_nat s" and nz: "s \<noteq> ''0''"
  then obtain d t where s: "s = d # t" and d: "is_digit d" "d \<noteq> CHR ''0''"
    by (cases s) (auto simp: canonical_nat_def)
  have "1 \<le> digit_val d" using digit_val_pos[OF d] by simp
  then have "1 * 10 ^ length t \<le> digit_val d * 10 ^ length t" by (rule mult_le_mono1)
  then show ?thesis by (simp add: s nat_of_digits_Cons trans_le_add1)
qed

lemma digits_unique:
  "length s = length t \<Longrightarrow> list_all is_digit s \<Longrightarrow> list_all is_digit t \<Longrightarrow>
   nat_of_digits s = nat_of_digits t \<Longrightarrow> s = t"
proof (induction s arbitrary: t rule: rev_induct)
  case (snoc c s)
  then obtain d u where t: "t = u @ [d]" by (cases t rule: rev_cases) auto
  from snoc.prems have cd: "digit_val c < 10" "digit_val d < 10"
    by (auto simp: t intro: digit_val_less)
  from snoc.prems have eq: "10 * nat_of_digits s + digit_val c = 10 * nat_of_digits u + digit_val d"
    by (simp add: t)
  from eq cd have "nat_of_digits s = nat_of_digits u" and v: "digit_val c = digit_val d"
    by presburger+
  with snoc t have "s = u" by auto
  moreover have "is_digit c" and "is_digit d" using snoc.prems by (simp_all add: t)
  then have "c = d" using v by (metis digit_char_val)
  ultimately show ?case by (simp add: t)
qed simp

lemma canonical_show: "canonical_nat s \<Longrightarrow> show_nat (nat_of_digits s) = s"
proof -
  assume c: "canonical_nat s"
  let ?n = "nat_of_digits s"
  show ?thesis
  proof (cases "s = ''0''")
    case True
    then show ?thesis by (simp add: show_nat_0 nat_of_digits_Cons)
  next
    case False
    from canonical_pos[OF c False] have pos: "10 ^ (length s - 1) \<le> ?n" .
    have "(0::nat) < 10 ^ (length s - 1)" by simp
    with pos have n0: "0 < ?n" by linarith
    have sz: "show_nat ?n \<noteq> ''0''"
      using show_nat_hd[OF n0] by auto
    have lt: "?n < 10 ^ length s" using c by (simp add: canonical_nat_def nat_of_digits_less)
    have pos': "10 ^ (length (show_nat ?n) - 1) \<le> ?n"
      using canonical_pos[OF show_nat_canonical sz] by simp
    have lt': "?n < 10 ^ length (show_nat ?n)"
      using nat_of_digits_less[of "show_nat ?n"] show_nat_digits[of ?n] by (simp add: list_all_iff)
    have "length s - 1 < length (show_nat ?n)" and "length (show_nat ?n) - 1 < length s"
      using le_less_trans[OF pos lt'] le_less_trans[OF pos' lt] by (simp_all add: power_strict_increasing_iff)
    then have "length (show_nat ?n) = length s" by linarith
    then show ?thesis
      using digits_unique[of "show_nat ?n" s] show_nat_digits[of ?n] c
      by (simp add: canonical_nat_def list_all_iff)
  qed
qed

lemma normalized_show:
  assumes "s \<noteq> []" and "list_all is_digit s"
  shows "(if trim_zeros s = [] then ''0'' else trim_zeros s) = show_nat (nat_of_digits s)"
proof (cases "trim_zeros s = []")
  case True
  then have "nat_of_digits s = 0" using trim_zeros_value[of s] by simp
  with True show ?thesis by (simp add: show_nat_0)
next
  case False
  then have "canonical_nat (trim_zeros s)"
    using assms trim_zeros_hd trim_zeros_digits by (auto simp: canonical_nat_def)
  from canonical_show[OF this] False show ?thesis by simp
qed

lemma str_le_digits:
  "length s = length t \<Longrightarrow> list_all is_digit s \<Longrightarrow> list_all is_digit t \<Longrightarrow>
   str_le s t \<longleftrightarrow> nat_of_digits s \<le> nat_of_digits t"
proof (induction s t rule: str_le.induct)
  case (3 c s d t)
  then have l: "length s = length t" and cd: "is_digit c" "is_digit d" and
    st: "list_all is_digit s" "list_all is_digit t" by auto
  have s: "nat_of_digits s < 10 ^ length t" using nat_of_digits_less[OF st(1)] l by simp
  have t: "nat_of_digits t < 10 ^ length t" using nat_of_digits_less[OF st(2)] .
  consider "digit_val c < digit_val d" | "digit_val c = digit_val d" | "digit_val d < digit_val c"
    by linarith
  then show ?case
  proof cases
    case 1
    then have "(of_char c :: nat) < of_char d" by (simp add: digit_val_def)
    moreover from 1 have "(digit_val c + 1) * 10 ^ length t \<le> digit_val d * 10 ^ length t"
      by (intro mult_le_mono1) simp
    ultimately show ?thesis using s l by (simp add: nat_of_digits_Cons)
  next
    case 2
    then have "c = d" using cd by (metis digit_char_val)
    then show ?thesis using "3.IH" l st by (simp add: nat_of_digits_Cons)
  next
    case 3
    then have "\<not> (of_char c :: nat) < of_char d" and "c \<noteq> d" by (auto simp: digit_val_def)
    moreover from 3 have "(digit_val d + 1) * 10 ^ length t \<le> digit_val c * 10 ^ length t"
      by (intro mult_le_mono1) simp
    ultimately show ?thesis using t l by (simp add: nat_of_digits_Cons)
  qed
qed auto

lemma raw_max_length: "length raw_max = 78"
  by (simp add: raw_max_def)

lemma raw_max_digits: "list_all is_digit raw_max"
  by (simp add: raw_max_def is_digit_def)

lemma raw_max_value: "nat_of_digits raw_max = 2 ^ 256 - 1"
  by (simp add: raw_max_def nat_of_digits_def digit_val_def)

lemma raw_limit:
  "length (show_nat n) < length raw_max \<or>
     (length (show_nat n) = length raw_max \<and> str_le (show_nat n) raw_max) \<longleftrightarrow> n < 2 ^ 256"
  (is "?lhs \<longleftrightarrow> _")
proof -
  have d: "list_all is_digit (show_nat n)" using show_nat_digits by (simp add: list_all_iff)
  consider (short) "length (show_nat n) < 78" | (same) "length (show_nat n) = 78"
    | (long) "78 < length (show_nat n)" by linarith
  then show ?thesis
  proof cases
    case short
    have "n < 10 ^ length (show_nat n)" using nat_of_digits_less[OF d] by simp
    also have "(10::nat) ^ length (show_nat n) \<le> 10 ^ 77" using short by (intro power_increasing) auto
    also have "(10::nat) ^ 77 \<le> 2 ^ 256" by simp
    finally show ?thesis using short by (simp add: raw_max_length)
  next
    case same
    then have "str_le (show_nat n) raw_max \<longleftrightarrow> n \<le> nat_of_digits raw_max"
      using str_le_digits[OF _ d raw_max_digits] by (simp add: raw_max_length)
    with same show ?thesis by (auto simp: raw_max_length raw_max_value)
  next
    case long
    then have "show_nat n \<noteq> ''0''" by auto
    from canonical_pos[OF show_nat_canonical this] have "10 ^ (length (show_nat n) - 1) \<le> n" by simp
    moreover have "(10::nat) ^ 78 \<le> 10 ^ (length (show_nat n) - 1)"
      using long by (intro power_increasing) auto
    moreover have "(2::nat) ^ 256 \<le> 10 ^ 78" by simp
    ultimately show ?thesis using long by (simp add: raw_max_length)
  qed
qed

lemma raw_parse_value:
  "raw \<noteq> [] \<Longrightarrow> list_all is_digit raw \<Longrightarrow> nat_of_digits raw < 2 ^ 256 \<Longrightarrow>
   raw_parse raw = Inr (show_nat (nat_of_digits raw))"
  unfolding raw_parse_def Let_def using raw_limit by (simp add: normalized_show)

lemma raw_parse_too_big:
  "raw \<noteq> [] \<Longrightarrow> list_all is_digit raw \<Longrightarrow> \<not> nat_of_digits raw < 2 ^ 256 \<Longrightarrow>
   raw_parse raw = Inl ''amount exceeds UInt256''"
  unfolding raw_parse_def Let_def normalized_show raw_limit by (simp add: normalized_show)

lemma raw_parse_Inr:
  "raw_parse raw = Inr a \<longleftrightarrow>
     raw \<noteq> [] \<and> list_all is_digit raw \<and> nat_of_digits raw < 2 ^ 256 \<and> a = show_nat (nat_of_digits raw)"
proof -
  have "raw_parse raw = Inr a \<Longrightarrow> raw \<noteq> [] \<and> list_all is_digit raw"
    by (simp add: raw_parse_def ok_simps)
  then show ?thesis
    using raw_parse_value[of raw] raw_parse_too_big[of raw] by fastforce
qed

lemma raw_parse_show [simp]: "n < 2 ^ 256 \<Longrightarrow> raw_parse (show_nat n) = Inr (show_nat n)"
  using show_nat_digits[of n] by (simp add: raw_parse_Inr list_all_iff)

lemma raw_from_satoshis_ok [ok_simps]:
  "raw_from_satoshis n = Inr a \<longleftrightarrow> n \<le> btc_supply \<and> a = show_nat n"
proof -
  have "n \<le> btc_supply \<Longrightarrow> n < 2 ^ 256" by (simp add: btc_supply_def)
  then show ?thesis by (auto simp: raw_from_satoshis_def ok_simps)
qed

lemma trim_end_decomp: "\<exists>n. s = trim_end_zeros s @ replicate n (CHR ''0'')"
proof -
  obtain n where "rev s = replicate n (CHR ''0'') @ trim_zeros (rev s)"
    using trim_zeros_decomp by blast
  then have "s = rev (trim_zeros (rev s)) @ replicate n (CHR ''0'')"
    by (metis rev_append rev_replicate rev_rev_ident)
  then show ?thesis unfolding trim_end_zeros_def by blast
qed

lemma split_once_mid:
  "c \<notin> set a \<Longrightarrow> split_once c (a @ c # b) = Some (a, b)"
  by (simp add: split_once_def takeWhile_tail dropWhile_append)

lemma split_once_None: "c \<notin> set a \<Longrightarrow> split_once c a = None"
  by (simp add: split_once_def)

lemma dot_not_digit: "list_all is_digit s \<Longrightarrow> CHR ''.'' \<notin> set s"
  by (auto simp: list_all_iff is_digit_def)

lemma raw_from_decimal_parts:
  assumes "whole \<noteq> []" and "list_all is_digit whole" and "list_all is_digit fraction"
    and "fraction \<noteq> []" and "length fraction \<le> d"
  shows "raw_from_decimal (whole @ CHR ''.'' # fraction) d =
         raw_parse (whole @ fraction @ replicate (d - length fraction) (CHR ''0''))"
proof -
  obtain n where f: "fraction = trim_end_zeros fraction @ replicate n (CHR ''0'')"
    using trim_end_decomp by blast
  let ?t = "trim_end_zeros fraction"
  have len: "length fraction = length ?t + n" using arg_cong[OF f, of length] by simp
  have t: "length ?t \<le> d" using len assms(5) by linarith
  have eq: "?t @ replicate (d - length ?t) (CHR ''0'') =
            fraction @ replicate (d - length fraction) (CHR ''0'')"
  proof -
    have "d - length ?t = n + (d - length fraction)" using len assms(5) by linarith
    then have "?t @ replicate (d - length ?t) (CHR ''0'') =
      (?t @ replicate n (CHR ''0'')) @ replicate (d - length fraction) (CHR ''0'')"
      by (simp add: replicate_add)
    with f show ?thesis by metis
  qed
  show ?thesis
    using assms t by (simp add: raw_from_decimal_def split_once_mid dot_not_digit eq)
qed

section \<open>Properties of amounts\<close>

text \<open>Parsing a raw amount accepts exactly the non-empty digit strings whose value fits
  256 bits, compares by string order yet decides the numeric bound, and returns the
  canonical decimal of that value.\<close>

theorem raw_parse_exact:
  "raw_parse raw =
     (if raw \<noteq> [] \<and> list_all is_digit raw
      then if nat_of_digits raw < 2 ^ 256 then Inr (show_nat (nat_of_digits raw))
           else Inl ''amount exceeds UInt256''
      else Inl ''amount must be an unsigned decimal integer string'')"
  using raw_parse_value[of raw] raw_parse_too_big[of raw]
  by (auto simp: raw_parse_def)

text \<open>Printing an amount in asset units and reading it back is the identity for every
  256-bit amount and every number of decimals.\<close>

theorem decimal_round_trip:
  assumes "n < 2 ^ 256"
  shows "raw_from_decimal (raw_decimal (show_nat n) d) d = Inr (show_nat n)"
proof (cases "d = 0")
  case True
  have "list_all is_digit (show_nat n)" using show_nat_digits by (simp add: list_all_iff)
  with True assms show ?thesis
    by (simp add: raw_decimal_def raw_from_decimal_def split_once_None dot_not_digit
        trim_end_zeros_def trim_zeros_def)
next
  case False
  define p where "p = pad_zeros (d + 1) (show_nat n)"
  define k where "k = length p - d"
  have pd: "list_all is_digit p"
    using show_nat_digits[of n] by (auto simp: p_def pad_zeros_def list_all_iff)
  have lp: "d + 1 \<le> length p" by (simp add: p_def pad_zeros_def)
  have parts: "take k p \<noteq> []" "list_all is_digit (take k p)" "list_all is_digit (drop k p)"
    "drop k p \<noteq> []" "length (drop k p) = d"
    using pd lp False by (auto simp: k_def list_all_iff dest: in_set_takeD in_set_dropD)
  have "raw_from_decimal (raw_decimal (show_nat n) d) d =
        raw_from_decimal (take k p @ CHR ''.'' # drop k p) d"
    using False by (simp add: raw_decimal_def p_def k_def Let_def)
  also have "\<dots> = raw_parse p"
    using raw_from_decimal_parts[OF parts(1-4), of d] parts(5) by simp
  also have "\<dots> = Inr (show_nat n)"
  proof -
    have "p \<noteq> []" using lp by auto
    moreover have "nat_of_digits p = n" by (simp add: p_def)
    ultimately show ?thesis using raw_parse_value[of p] pd assms by simp
  qed
  finally show ?thesis .
qed

theorem decimal_round_trip_witness:
  "raw_from_decimal (raw_decimal (show_nat 100000001) 8) 8 = Inr (show_nat 100000001)"
  by (rule decimal_round_trip) simp

end
