(* ===== verification/Identity.thy ===== *)
theory Identity
  imports Amounts
begin

text \<open>
  Canonical identities at the storage boundary (\<open>shared/warehouse/src/values.rs\<close>):
  block and transaction hashes, TRON addresses in base58check and hex form, network-local
  asset identities, review states and evidence references. SHA-256 is a third-party
  package and enters as the argument \<open>sha\<close> on byte lists.
\<close>

definition hex :: "string \<Rightarrow> nat \<Rightarrow> bool" where
  "hex v n \<longleftrightarrow> length v = n \<and> list_all is_hexdigit v"

definition strip_prefix :: "string \<Rightarrow> string \<Rightarrow> string option" where
  "strip_prefix p s = (if take (length p) s = p then Some (drop (length p) s) else None)"

definition starts_with :: "string \<Rightarrow> string \<Rightarrow> bool" where
  "starts_with s p \<longleftrightarrow> take (length p) s = p"

definition is_evm :: "network \<Rightarrow> bool" where
  "is_evm n \<longleftrightarrow> n = Ethereum \<or> n = Bsc"

definition strip_0x :: "string \<Rightarrow> string" where
  "strip_0x v = (case strip_prefix ''0x'' v of Some d \<Rightarrow> d
                 | None \<Rightarrow> (case strip_prefix ''0X'' v of Some d \<Rightarrow> d | None \<Rightarrow> v))"

definition normalize_hash :: "network \<Rightarrow> string \<Rightarrow> string res" where
  "normalize_hash n v =
     (let digits = (if is_evm n then strip_0x v else v)
      in ensure (hex digits 64) ''invalid network hash''
         (Inr ((if is_evm n then ''0x'' else []) @ ascii_lower digits)))"

section \<open>Base58check\<close>

definition base58_alphabet :: string where
  "base58_alphabet = ''123456789ABCDEFGHJKLMNPQRSTUVWXYZabcdefghijkmnopqrstuvwxyz''"

definition base58_pos :: "char \<Rightarrow> nat option" where
  "base58_pos c =
     (case filter (\<lambda>i. base58_alphabet ! i = c) [0..<58] of [] \<Rightarrow> None | i # _ \<Rightarrow> Some i)"

text \<open>One round of the decoder: \<open>bytes\<close> (least significant first) times 58 plus the
  carry, each byte kept modulo 256.\<close>

fun mul58_add :: "nat list \<Rightarrow> nat \<Rightarrow> nat list \<times> nat" where
  "mul58_add [] carry = ([], carry)"
| "mul58_add (b # bs) carry =
     (let c = carry + b * 58; (bs', out) = mul58_add bs (c div 256) in (c mod 256 # bs', out))"

definition base58_step :: "char \<Rightarrow> nat list \<Rightarrow> nat list res" where
  "base58_step ch bytes =
     need (base58_pos ch) ''invalid base58 character'' (\<lambda>d.
       (let (bs, carry) = mul58_add (rev bytes) d
        in ensure (carry = 0) ''TRON address overflow'' (Inr (rev bs))))"

definition hex_digit :: "nat \<Rightarrow> char" where
  "hex_digit d = (if d < 10 then digit_char d else char_of (87 + d))"

definition hex_byte :: "nat \<Rightarrow> string" where
  "hex_byte b = [hex_digit (b div 16), hex_digit (b mod 16)]"

definition tron_contract :: "(nat list \<Rightarrow> nat list) \<Rightarrow> string \<Rightarrow> string res" where
  "tron_contract sha v =
     (if starts_with v ''41'' \<and> hex v 42 then Inr (ascii_lower v)
      else ensure (length v = 34 \<and> starts_with v ''T'') ''invalid TRON contract identity''
        (attempt (foldE base58_step v (replicate 25 0)) (\<lambda>bytes.
          (let checksum = sha (sha (take 21 bytes))
           in ensure (bytes ! 0 = 65 \<and> drop 21 bytes = take 4 checksum)
                ''TRON contract checksum/network mismatch''
              (Inr (concat (map hex_byte (take 21 bytes))))))))"

definition hex_val :: "char \<Rightarrow> nat" where
  "hex_val c = (if is_digit c then digit_val c
                else if 97 \<le> (of_char c :: nat) then of_char c - 87 else of_char c - 55)"

fun bytes_of_hex :: "string \<Rightarrow> nat list" where
  "bytes_of_hex (a # b # r) = (hex_val a * 16 + hex_val b) # bytes_of_hex r"
| "bytes_of_hex _ = []"

text \<open>One round of the encoder: long division of the big-endian bytes by 58.\<close>

fun div58 :: "nat list \<Rightarrow> nat \<Rightarrow> nat list \<times> nat" where
  "div58 [] remainder = ([], remainder)"
| "div58 (b # bs) remainder =
     (let v = remainder * 256 + b; (bs', r) = div58 bs (v mod 58) in (v div 58 # bs', r))"

definition be_value :: "nat list \<Rightarrow> nat" where
  "be_value bs = foldl (\<lambda>n b. 256 * n + b) 0 bs"

lemma be_value_Nil [simp]: "be_value [] = 0" by (simp add: be_value_def)

lemma be_value_snoc [simp]: "be_value (bs @ [b]) = 256 * be_value bs + b"
  by (simp add: be_value_def)

lemma be_value_Cons: "be_value (b # bs) = b * 256 ^ length bs + be_value bs"
proof (induction bs rule: rev_induct)
  case (snoc c bs)
  have "be_value (b # bs @ [c]) = 256 * be_value (b # bs) + c"
    using be_value_snoc[of "b # bs" c] by simp
  with snoc show ?case by (simp add: algebra_simps)
qed (simp add: be_value_def)

lemma div58_Cons [simp]:
  "div58 (b # bs) r =
     ((r * 256 + b) div 58 # fst (div58 bs ((r * 256 + b) mod 58)),
      snd (div58 bs ((r * 256 + b) mod 58)))"
  by (simp add: Let_def case_prod_beta)

declare div58.simps(2) [simp del]

lemma div58_length [simp]: "length (fst (div58 bs r)) = length bs"
  by (induction bs arbitrary: r) simp_all

lemma div58_remainder: "r < 58 \<Longrightarrow> snd (div58 bs r) < 58"
  by (induction bs arbitrary: r) simp_all

lemma div58_correct:
  "be_value (fst (div58 bs r)) * 58 + snd (div58 bs r) = r * 256 ^ length bs + be_value bs"
proof (induction bs arbitrary: r)
  case (Cons b bs)
  let ?v = "r * 256 + b"
  have IH: "be_value (fst (div58 bs (?v mod 58))) * 58 + snd (div58 bs (?v mod 58)) =
    (?v mod 58) * 256 ^ length bs + be_value bs" by (rule Cons.IH)
  have key: "x * c * 58 + y * c = (x * 58 + y) * c" for x y c :: nat
    by (simp add: algebra_simps)
  have "?v div 58 * 256 ^ length bs * 58 + ?v mod 58 * 256 ^ length bs = ?v * 256 ^ length bs"
    using key[of "?v div 58" "256 ^ length bs" "?v mod 58"] by simp
  with IH show ?case by (simp add: be_value_Cons distrib_right)
qed simp

lemma be_value_zero: "be_value bs = 0 \<longleftrightarrow> (\<forall>b \<in> set bs. b = 0)"
  by (induction bs) (auto simp: be_value_Cons)

lemma div58_value: "be_value (fst (div58 bs 0)) = be_value bs div 58"
  and div58_mod: "snd (div58 bs 0) = be_value bs mod 58"
proof -
  let ?q = "be_value (fst (div58 bs 0))" and ?r = "snd (div58 bs 0)"
  have e: "be_value bs = ?r + ?q * 58" using div58_correct[of bs 0] by simp
  have r: "?r < 58" by (rule div58_remainder) simp
  have "(?r + ?q * 58) div 58 = ?q" using r by simp
  with e show "?q = be_value bs div 58" by simp
  have "(?r + ?q * 58) mod 58 = ?r" using r by simp
  with e show "?r = be_value bs mod 58" by simp
qed

text \<open>The loop \<open>while bytes.iter().any(|b| *b != 0)\<close>; digits come out least significant
  first and are reversed by the caller.\<close>

function base58_digits :: "nat list \<Rightarrow> string" where
  "base58_digits bytes =
     (if list_ex (\<lambda>b. b \<noteq> 0) bytes
      then (let (q, r) = div58 bytes 0 in base58_alphabet ! r # base58_digits q)
      else [])"
  by pat_completeness auto
termination
proof (relation "measure be_value")
  fix bytes q r and p :: "nat list \<times> nat"
  assume ex: "list_ex (\<lambda>b. b \<noteq> 0) bytes" and "p = div58 bytes 0" and "(q, r) = p"
  then have "be_value q = be_value bytes div 58" using div58_value[of bytes] by (metis fst_conv)
  moreover have "0 < be_value bytes" using ex be_value_zero[of bytes] by (auto simp: list_ex_iff)
  ultimately show "(q, bytes) \<in> measure be_value" by simp
qed simp

declare base58_digits.simps [simp del]

definition tron_wallet :: "(nat list \<Rightarrow> nat list) \<Rightarrow> string \<Rightarrow> string res" where
  "tron_wallet sha v =
     attempt (tron_contract sha v) (\<lambda>h.
       (let payload = bytes_of_hex h;
            bytes = payload @ take 4 (sha (sha payload))
        in Inr (rev (base58_digits bytes))))"

section \<open>Assets, review states and evidence references\<close>

record asset_id =
  a_network :: network
  a_value :: string
  a_collection :: bool

definition eq_ignore_case :: "string \<Rightarrow> string \<Rightarrow> bool" where
  "eq_ignore_case s t \<longleftrightarrow> ascii_lower s = ascii_lower t"

definition strip_chain :: "network \<Rightarrow> string \<Rightarrow> string res" where
  "strip_chain n raw =
     (case split_once (CHR ''/'') raw of
        Some (chain, rest) \<Rightarrow>
          (if starts_with chain ''eip155:'' \<or> starts_with chain ''bip122:'' \<or>
              starts_with chain ''tron:''
           then ensure (chain = network_id n) ''asset belongs to another network'' (Inr rest)
           else Inr raw)
      | None \<Rightarrow> Inr raw)"

definition asset_contract :: "(nat list \<Rightarrow> nat list) \<Rightarrow> network \<Rightarrow> string \<Rightarrow> string \<Rightarrow> string option \<Rightarrow> string res" where
  "asset_contract sha n standard contract token =
     (if standard = ''trc10''
      then ensure (token = None) ''TRC10 does not carry an NFT token id'' (raw_parse contract)
      else if is_evm n
      then (let digits = strip_0x contract
            in ensure (hex digits 40) ''invalid EVM asset contract''
               (Inr (''0x'' @ ascii_lower digits)))
      else tron_contract sha contract)"

definition asset_parse_legacy :: "(nat list \<Rightarrow> nat list) \<Rightarrow> network \<Rightarrow> string \<Rightarrow> asset_id res" where
  "asset_parse_legacy sha n raw =
     attempt (strip_chain n raw) (\<lambda>v.
       (let native = native_asset n
        in if eq_ignore_case v native \<or> eq_ignore_case v (drop 7 native)
           then Inr \<lparr>a_network = n, a_value = native, a_collection = False\<rparr>
           else ensure (n \<noteq> Bitcoin) ''Bitcoin token capability is not applicable''
             (need (split_once (CHR '':'') v) ''unqualified asset identity'' (\<lambda>(st, identity).
               (let standard = ascii_lower st
                in ensure (standard \<in> (if is_evm n then {''erc20'', ''erc721'', ''erc1155''}
                                       else {''trc10'', ''trc20'', ''trc721''}))
                     ''asset standard not applicable to network''
                   (let (contract, token) = (case split_once (CHR ''/'') identity of
                          None \<Rightarrow> (identity, None) | Some (c, t) \<Rightarrow> (c, Some t))
                    in attempt (asset_contract sha n standard contract token) (\<lambda>contract'.
                         (let nft = standard \<in> {''erc721'', ''erc1155'', ''trc721''}
                          in ensure (nft \<or> token = None) ''fungible asset cannot carry a token id''
                             (attempt (case token of None \<Rightarrow> Inr []
                                       | Some t \<Rightarrow> attempt (raw_parse t) (\<lambda>t'. Inr (''/'' @ t'))) (\<lambda>suffix.
                               Inr \<lparr>a_network = n, a_value = standard @ '':'' @ contract' @ suffix,
                                    a_collection = (nft \<and> token = None)\<rparr>))))))))))"

definition asset_parse :: "(nat list \<Rightarrow> nat list) \<Rightarrow> network \<Rightarrow> string \<Rightarrow> asset_id res" where
  "asset_parse sha n v =
     attempt (asset_parse_legacy sha n v) (\<lambda>a.
       ensure (a_value a = v) ''asset must use canonical network-local identity'' (Inr a))"

definition asset_canonical_key :: "asset_id \<Rightarrow> string" where
  "asset_canonical_key a = network_id (a_network a) @ ''/'' @ a_value a"

datatype review_status = Pending | Approved | Rejected | Revoked

definition review_parse_legacy :: "string \<Rightarrow> review_status res" where
  "review_parse_legacy v =
     (let l = ascii_lower v
      in if l = ''pending'' then Inr Pending
         else if l = ''approved'' then Inr Approved
         else if l = ''rejected'' then Inr Rejected
         else if l = ''revoked'' then Inr Revoked
         else Inl ''unknown review state; verification is not approval'')"

text \<open>Control characters: the ASCII ones; the two-byte UTF-8 forms of U+0080 to U+009F are
  a 0xC2 byte followed by a byte below 0xA0.\<close>

fun has_control :: "string \<Rightarrow> bool" where
  "has_control [] = False"
| "has_control (c # s) =
     ((of_char c :: nat) < 32 \<or> (of_char c :: nat) = 127 \<or>
      (case s of [] \<Rightarrow> False
       | d # _ \<Rightarrow> (of_char c :: nat) = 194 \<and> (of_char d :: nat) < 160) \<or>
      has_control s)"

definition evidence_scheme :: "string \<Rightarrow> bool" where
  "evidence_scheme s \<longleftrightarrow> s \<noteq> [] \<and>
     (\<forall>i < length s. is_lower (s ! i) \<or> (0 < i \<and> (is_digit (s ! i) \<or> s ! i = CHR ''_'')))"

definition evidence_ref :: "network \<Rightarrow> string \<Rightarrow> unit res" where
  "evidence_ref n v =
     ensure (\<not> has_control v) ''evidence reference contains control characters''
     (need (split_once (CHR '':'') v) ''evidence reference needs a namespace'' (\<lambda>(scheme, payload).
       ensure (evidence_scheme scheme \<and> payload \<noteq> []) ''invalid evidence namespace/payload''
       (if scheme = ''tx'' \<or> scheme = ''block''
        then attempt (normalize_hash n payload) (\<lambda>h.
               ensure (h = payload) ''noncanonical evidence hash'' (Inr ()))
        else if scheme = ''outpoint''
        then ensure (n = Bitcoin) ''outpoint evidence requires Bitcoin''
          (need (split_once (CHR '':'') payload) ''outpoint index missing'' (\<lambda>(h, index).
            attempt (normalize_hash n h) (\<lambda>h'.
              ensure (h' = h) ''noncanonical outpoint hash''
              (need (parse_u32 index) ''invalid digit found in string'' (\<lambda>parsed.
                ensure (show_nat parsed = index) ''noncanonical outpoint index'' (Inr ()))))))
        else Inr ())))"

section \<open>Canonical forms are fixed points\<close>

lemma take_drop_append: "take (length p) s = p \<longleftrightarrow> (\<exists>t. s = p @ t)"
  by (metis append_eq_conv_conj append_take_drop_id)

lemma starts_with_append: "starts_with s p \<longleftrightarrow> (\<exists>t. s = p @ t)"
  by (simp add: starts_with_def take_drop_append)

lemma strip_prefix_Some: "strip_prefix p s = Some t \<longleftrightarrow> s = p @ t"
  by (auto simp: strip_prefix_def take_drop_append)

lemma strip_0x_0x [simp]: "strip_0x (CHR ''0'' # CHR ''x'' # d) = d"
  by (simp add: strip_0x_def strip_prefix_def)

lemma hex_lower [simp]: "hex (ascii_lower v) n = hex v n"
  by (simp add: hex_def ascii_lower_def list_all_iff)

lemma normalize_hash_ok [ok_simps]:
  "normalize_hash n v = Inr h \<longleftrightarrow>
     (if is_evm n then hex (strip_0x v) 64 \<and> h = ''0x'' @ ascii_lower (strip_0x v)
      else hex v 64 \<and> h = ascii_lower v)"
  by (auto simp: normalize_hash_def ok_simps)

text \<open>A normalised hash is a fixed point: normalising it again, on the same network,
  returns it unchanged, so the storage rule "stored spelling equals its normalisation"
  accepts every value the normaliser produces.\<close>

theorem normalize_hash_fixed:
  assumes "normalize_hash n v = Inr h"
  shows "normalize_hash n h = Inr h"
  using assms by (auto simp: ok_simps split: if_splits)

theorem normalize_hash_fixed_witness:
  "normalize_hash Ethereum (''0x'' @ replicate 64 (CHR ''a'')) = Inr (''0x'' @ replicate 64 (CHR ''a''))"
proof -
  have "normalize_hash Ethereum (replicate 64 (CHR ''A'')) = Inr (''0x'' @ replicate 64 (CHR ''a''))"
    by code_simp
  then show ?thesis by (rule normalize_hash_fixed)
qed

lemma hex_digit_hex: "d < 16 \<Longrightarrow> is_hexdigit (hex_digit d) \<and> lower_char (hex_digit d) = hex_digit d"
proof (cases "d < 10")
  case True
  then have "is_digit (hex_digit d)" by (simp add: hex_digit_def)
  then show ?thesis by (auto simp: is_hexdigit_def lower_char_def is_upper_def is_digit_def)
next
  case False
  moreover assume "d < 16"
  ultimately have "(of_char (hex_digit d) :: nat) = 87 + d" and "97 \<le> 87 + d" and "87 + d \<le> 102"
    by (simp_all add: hex_digit_def)
  then show ?thesis by (auto simp: is_hexdigit_def lower_char_def is_upper_def)
qed

lemma hex_bytes:
  assumes "\<forall>b \<in> set bs. b < 256"
  shows "hex (concat (map hex_byte bs)) (2 * length bs)"
    and "ascii_lower (concat (map hex_byte bs)) = concat (map hex_byte bs)"
proof -
  have "\<forall>b \<in> set bs. b div 16 < 16" using assms by auto
  then show "hex (concat (map hex_byte bs)) (2 * length bs)"
    by (induction bs) (auto simp: hex_def hex_byte_def hex_digit_hex)
  have "\<forall>b \<in> set bs. b div 16 < 16" using assms by auto
  then show "ascii_lower (concat (map hex_byte bs)) = concat (map hex_byte bs)"
    by (induction bs) (auto simp: ascii_lower_def hex_byte_def hex_digit_hex)
qed

lemma mul58_add_bytes:
  "length (fst (mul58_add bs c)) = length bs \<and> (\<forall>b \<in> set (fst (mul58_add bs c)). b < 256)"
  by (induction bs arbitrary: c) (auto simp: Let_def case_prod_beta)

lemma base58_step_bytes:
  "base58_step ch bs = Inr bs' \<Longrightarrow> length bs' = length bs \<and> (\<forall>b \<in> set bs'. b < 256)"
  using mul58_add_bytes[of "rev bs"]
  by (auto simp: base58_step_def ok_simps case_prod_beta Let_def)

lemma base58_decode_bytes:
  assumes "foldE base58_step v (replicate 25 0) = Inr bytes"
  shows "length bytes = 25 \<and> (\<forall>b \<in> set bytes. b < 256)"
  by (rule foldE_keeps[OF assms]) (auto dest: base58_step_bytes)

lemma hex_byte_41: "hex_byte 65 = ''41''"
  by code_simp

lemma tron_contract_canonical:
  assumes "tron_contract sha v = Inr h"
  shows "starts_with h ''41'' \<and> hex h 42 \<and> ascii_lower h = h"
proof (cases "starts_with v ''41'' \<and> hex v 42")
  case True
  with assms have h: "h = ascii_lower v" by (simp add: tron_contract_def)
  from True obtain t where v: "v = ''41'' @ t" by (auto simp: starts_with_append)
  then have "h = ''41'' @ ascii_lower t"
    by (simp add: h ascii_lower_def lower_char_def is_upper_def)
  then have "starts_with h ''41''" unfolding starts_with_append by blast
  with True h show ?thesis by simp
next
  case False
  with assms obtain bytes where
    run: "foldE base58_step v (replicate 25 0) = Inr bytes" and first: "bytes ! 0 = 65"
    and h: "h = concat (map hex_byte (take 21 bytes))"
    by (auto simp: tron_contract_def ok_simps Let_def)
  from base58_decode_bytes[OF run] have len: "length bytes = 25" and small: "\<forall>b \<in> set bytes. b < 256"
    by auto
  from len first obtain bs where b: "bytes = 65 # bs" by (cases bytes) auto
  have "\<forall>b \<in> set (take 21 bytes). b < 256" using small by (meson in_set_takeD)
  from hex_bytes[OF this] len have "hex h 42" and "ascii_lower h = h"
    by (simp_all add: h)
  moreover have "h = ''41'' @ concat (map hex_byte (take 20 bs))"
    by (simp add: h b hex_byte_41)
  ultimately show ?thesis by (auto simp: starts_with_append)
qed

lemma tron_contract_fixed: "tron_contract sha v = Inr h \<Longrightarrow> tron_contract sha h = Inr h"
  using tron_contract_canonical[of sha v h] by (simp add: tron_contract_def)

end
