(* ===== verification/Subjects.thy ===== *)
theory Subjects
  imports Identity "HOL-Library.Code_Target_Nat"
begin

text \<open>
  Graph subjects (\<open>shared/warehouse/src/relationships/model.rs\<close>): addresses,
  transaction occurrences and scripts, each in the canonical form of its network, and the
  properties of asset identities. SHA-256 is the parameter \<open>sha\<close> on bytes and
  \<open>sha_hex\<close> on text.
\<close>

datatype kind = Address | Transaction | Script

fun kind_name :: "kind \<Rightarrow> string" where
  "kind_name Address = ''address''"
| "kind_name Transaction = ''transaction''"
| "kind_name Script = ''script''"

definition kind_parse :: "string \<Rightarrow> kind res" where
  "kind_parse v =
     (if v = ''address'' then Inr Address else if v = ''transaction'' then Inr Transaction
      else if v = ''script'' then Inr Script else Inl ''unsupported subject type'')"

record subject =
  s_network :: string
  s_id :: string
  s_kind :: kind

definition is_alnum :: "char \<Rightarrow> bool" where
  "is_alnum c \<longleftrightarrow> is_digit c \<or> is_lower c \<or> is_upper c"

definition bitcoin_syntax :: "string \<Rightarrow> bool" where
  "bitcoin_syntax v \<longleftrightarrow>
     starts_with v ''bc1'' \<and> 14 \<le> length v \<and> length v \<le> 90 \<and> v = ascii_lower v \<or>
     (starts_with v ''1'' \<or> starts_with v ''3'') \<and> 26 \<le> length v \<and> length v \<le> 35 \<and>
       list_all (\<lambda>c. c \<in> set base58_alphabet) v"

definition address_syntax :: "(nat list \<Rightarrow> nat list) \<Rightarrow> network \<Rightarrow> string \<Rightarrow> unit res" where
  "address_syntax sha n v =
     ensure (v \<noteq> [] \<and> length v \<le> 128 \<and> list_all is_alnum v) ''invalid address subject syntax''
     (if is_evm n then
        ensure (starts_with v ''0x'' \<and> hex (drop 2 v) 40 \<and> v = ascii_lower v)
          ''noncanonical EVM address subject'' (Inr ())
      else if n = Tron then
        attempt (tron_wallet sha v) (\<lambda>c. ensure (c = v) ''canonical TRON wallet subject required'' (Inr ()))
      else ensure (bitcoin_syntax v) ''Bitcoin mainnet subject syntax required'' (Inr ()))"

definition occurrence_syntax :: "network \<Rightarrow> string \<Rightarrow> unit res" where
  "occurrence_syntax n v =
     need (Option.bind (strip_prefix ''tx:'' v) (split_once (CHR '':'')))
       ''transaction occurrence subject required'' (\<lambda>(block, tx).
     attempt (normalize_hash n block) (\<lambda>b.
     attempt (if b = block then normalize_hash n tx else Inr tx) (\<lambda>t.
     ensure (b = block \<and> t = tx) ''noncanonical transaction occurrence'' (Inr ()))))"

definition script_syntax :: "network \<Rightarrow> string \<Rightarrow> unit res" where
  "script_syntax n v =
     ensure (n = Bitcoin) ''script subjects require Bitcoin''
     (need (strip_prefix ''script:'' v) ''script subject prefix missing'' (\<lambda>digest.
      ensure (hex digest 64 \<and> digest = ascii_lower digest) ''noncanonical script identity'' (Inr ())))"

definition subject_new :: "(nat list \<Rightarrow> nat list) \<Rightarrow> network \<Rightarrow> kind \<Rightarrow> string \<Rightarrow> subject res" where
  "subject_new sha n k v =
     attempt (case k of Address \<Rightarrow> address_syntax sha n v
              | Transaction \<Rightarrow> occurrence_syntax n v
              | Script \<Rightarrow> script_syntax n v)
       (\<lambda>_. Inr \<lparr>s_network = network_id n, s_id = v, s_kind = k\<rparr>)"

definition subject_address :: "(nat list \<Rightarrow> nat list) \<Rightarrow> network \<Rightarrow> string \<Rightarrow> subject res" where
  "subject_address sha n v =
     attempt (case n of Tron \<Rightarrow> tron_wallet sha v | Ethereum \<Rightarrow> Inr (ascii_lower v)
              | Bsc \<Rightarrow> Inr (ascii_lower v) | Bitcoin \<Rightarrow> Inr v)
       (subject_new sha n Address)"

definition subject_key :: "subject \<Rightarrow> string" where
  "subject_key s = s_network s @ ''/'' @ kind_name (s_kind s) @ ''/'' @ s_id s"

definition script_subject_id :: "(string \<Rightarrow> string) \<Rightarrow> string \<Rightarrow> string res" where
  "script_subject_id sha_hex h =
     ensure (even (length h) \<and>
             list_all (\<lambda>c. is_digit c \<or> (97 \<le> (of_char c :: nat) \<and> (of_char c :: nat) \<le> 102)) h)
       ''canonical script hex required'' (Inr (''script:'' @ sha_hex h))"

definition transaction_subject_id :: "(nat list \<Rightarrow> nat list) \<Rightarrow> network \<Rightarrow> string \<Rightarrow> string \<Rightarrow> string res" where
  "transaction_subject_id sha n block tx =
     (let v = ''tx:'' @ block @ '':'' @ tx in attempt (subject_new sha n Transaction v) (\<lambda>_. Inr v))"

section \<open>Separators\<close>

lemma separator_unique:
  assumes "a @ c # b = a' @ c # b'" "c \<notin> set a" "c \<notin> set a'"
  shows "a = a' \<and> b = b'"
  using assms
proof (induction a arbitrary: a')
  case Nil
  then show ?case by (cases a') auto
next
  case (Cons x a)
  then show ?case by (cases a') auto
qed

lemma network_id_no_slash: "CHR ''/'' \<notin> set (network_id n)"
  by (cases n) auto

lemma kind_name_no_slash: "CHR ''/'' \<notin> set (kind_name k)"
  by (cases k) auto

lemma network_id_eq [simp]: "network_id a = network_id b \<longleftrightarrow> a = b"
  by (cases a; cases b) simp_all

lemma kind_name_eq [simp]: "kind_name a = kind_name b \<longleftrightarrow> a = b"
  by (cases a; cases b) simp_all

lemma colon_not_hex: "\<not> is_hexdigit (CHR '':'')"
  by (simp add: is_hexdigit_def is_digit_def)

lemma hash_no_colon:
  assumes "normalize_hash n v = Inr h"
  shows "CHR '':'' \<notin> set h"
proof -
  have "CHR '':'' \<notin> set (ascii_lower d)" if "hex d 64" for d
    using that hex_lower[of d 64] colon_not_hex by (auto simp: hex_def list_all_iff)
  with assms show ?thesis by (auto simp: ok_simps split: if_splits)
qed

text \<open>The graph key of a subject identifies it: subjects of two networks, of two kinds or of
  two identities never share a key.\<close>

theorem subject_key_identifies:
  assumes "subject_new sha n k v = Inr s" "subject_new sha m j u = Inr t" "subject_key s = subject_key t"
  shows "s = t"
proof -
  have s: "s = \<lparr>s_network = network_id n, s_id = v, s_kind = k\<rparr>"
    and t: "t = \<lparr>s_network = network_id m, s_id = u, s_kind = j\<rparr>"
    using assms(1,2) by (auto simp: subject_new_def ok_simps)
  from assms(3) have "network_id n @ CHR ''/'' # kind_name k @ CHR ''/'' # v =
      network_id m @ CHR ''/'' # kind_name j @ CHR ''/'' # u"
    by (simp add: subject_key_def s t)
  from separator_unique[OF this network_id_no_slash network_id_no_slash]
  have "n = m" "kind_name k @ CHR ''/'' # v = kind_name j @ CHR ''/'' # u" by simp_all
  with separator_unique[OF this(2) kind_name_no_slash kind_name_no_slash] show ?thesis
    by (simp add: s t)
qed

theorem subject_key_identifies_witness:
  "\<exists>s. subject_new (\<lambda>bs. bs) Bitcoin Script (''script:'' @ replicate 64 (CHR ''a'')) = Inr s \<and> s = s"
proof -
  have "is_ok (subject_new (\<lambda>bs. bs) Bitcoin Script (''script:'' @ replicate 64 (CHR ''a'')))"
    by code_simp
  then obtain s where s: "subject_new (\<lambda>bs. bs) Bitcoin Script (''script:'' @ replicate 64 (CHR ''a'')) = Inr s"
    by (auto simp: is_ok_iff)
  from subject_key_identifies[OF s s refl] s show ?thesis by blast
qed

lemma transaction_subject_ok:
  "transaction_subject_id sha n block tx = Inr v \<longleftrightarrow>
     v = ''tx:'' @ block @ '':'' @ tx \<and> occurrence_syntax n v = Inr ()"
  by (auto simp: transaction_subject_id_def subject_new_def ok_simps Let_def)

lemma split_once_SomeD:
  assumes "split_once c r = Some (b, t)"
  shows "r = b @ c # t \<and> c \<notin> set b"
proof -
  have "c \<in> set r" using assms by (simp add: split_once_def split: if_splits)
  then obtain ys zs where r: "r = ys @ c # zs" "c \<notin> set ys" by (metis split_list_first)
  with assms split_once_mid[of c ys zs] show ?thesis by simp
qed

lemma occurrence_parts:
  assumes "occurrence_syntax n v = Inr ()"
  obtains b t where "v = ''tx:'' @ b @ CHR '':'' # t" "normalize_hash n b = Inr b"
    "normalize_hash n t = Inr t" "CHR '':'' \<notin> set b" "CHR '':'' \<notin> set t"
proof -
  from assms obtain p where p: "Option.bind (strip_prefix ''tx:'' v) (split_once (CHR '':'')) = Some p"
    and rest: "(case p of (block, tx) \<Rightarrow> attempt (normalize_hash n block) (\<lambda>b.
       attempt (if b = block then normalize_hash n tx else Inr tx) (\<lambda>t.
       ensure (b = block \<and> t = tx) ''noncanonical transaction occurrence'' (Inr ())))) = Inr ()"
    unfolding occurrence_syntax_def need_ok by blast
  obtain b t where bt: "p = (b, t)" by (cases p)
  from p obtain r where r: "v = ''tx:'' @ r" "split_once (CHR '':'') r = Some (b, t)"
    unfolding bt bind_eq_Some_conv strip_prefix_Some by blast
  obtain b' t' where "normalize_hash n b = Inr b'" "(if b' = b then normalize_hash n t else Inr t) = Inr t'"
    "b' = b" "t' = t"
    using rest unfolding bt prod.case attempt_ok ensure_ok by blast
  then have n: "normalize_hash n b = Inr b" "normalize_hash n t = Inr t" by simp_all
  have "r = b @ CHR '':'' # t"
    using split_once_SomeD[OF r(2)] by blast
  with that r n hash_no_colon show ?thesis by blast
qed

lemma occurrence_text_unique:
  assumes "occurrence_syntax n v = Inr ()" "v = ''tx:'' @ b @ '':'' @ t" "v = ''tx:'' @ b' @ '':'' @ t'"
  shows "b = b' \<and> t = t'"
proof -
  from occurrence_parts[OF assms(1)] obtain c u where
    cu: "v = ''tx:'' @ c @ CHR '':'' # u" "CHR '':'' \<notin> set c" "CHR '':'' \<notin> set u" by metis
  have *: "x = c \<and> y = u" if "x @ CHR '':'' # y = c @ CHR '':'' # u" for x y
  proof -
    have "length (filter (\<lambda>z. z = CHR '':'') (x @ CHR '':'' # y)) =
        length (filter (\<lambda>z. z = CHR '':'') (c @ CHR '':'' # u))" using that by simp
    moreover have "filter (\<lambda>z. z = CHR '':'') c = []" "filter (\<lambda>z. z = CHR '':'') u = []"
      using cu(2,3) by (auto simp: filter_empty_conv)
    ultimately have "filter (\<lambda>z. z = CHR '':'') x = []" by simp
    then have "CHR '':'' \<notin> set x" by (auto simp: filter_empty_conv)
    from separator_unique[OF that this cu(2)] show ?thesis .
  qed
  have "''tx:'' @ b @ CHR '':'' # t = ''tx:'' @ c @ CHR '':'' # u"
    using assms(2) cu(1) by (simp only: append_Cons append_Nil)
  moreover have "''tx:'' @ b' @ CHR '':'' # t' = ''tx:'' @ c @ CHR '':'' # u"
    using assms(3) cu(1) by (simp only: append_Cons append_Nil)
  ultimately show ?thesis using *[of b t] *[of b' t'] by (metis same_append_eq)
qed

text \<open>An occurrence identity determines the block and the transaction it was built from.\<close>

theorem occurrence_identifies:
  assumes "transaction_subject_id sha n block tx = Inr v" "transaction_subject_id sha n block' tx' = Inr v"
  shows "block = block' \<and> tx = tx'"
  using assms occurrence_text_unique unfolding transaction_subject_ok by metis

theorem occurrence_identifies_witness:
  "\<exists>v. transaction_subject_id (\<lambda>bs. bs) Bitcoin (replicate 64 (CHR ''a'')) (replicate 64 (CHR ''b'')) = Inr v \<and>
     replicate 64 (CHR ''a'') = replicate 64 (CHR ''a'')"
proof -
  have "is_ok (transaction_subject_id (\<lambda>bs. bs) Bitcoin (replicate 64 (CHR ''a'')) (replicate 64 (CHR ''b'')))"
    by code_simp
  then obtain v where v: "transaction_subject_id (\<lambda>bs. bs) Bitcoin (replicate 64 (CHR ''a'')) (replicate 64 (CHR ''b'')) = Inr v"
    by (auto simp: is_ok_iff)
  from occurrence_identifies[OF v v] v show ?thesis by blast
qed

section \<open>Canonical assets\<close>

lemma raw_parse_fixed: "raw_parse v = Inr a \<Longrightarrow> raw_parse a = Inr a"
  using raw_parse_Inr by (metis raw_parse_show)

lemma asset_contract_fixed:
  assumes "asset_contract sha n st c token = Inr d"
  shows "asset_contract sha n st d token = Inr d"
  using assms raw_parse_fixed tron_contract_fixed
  by (auto simp: asset_contract_def ok_simps Let_def split: if_splits)

text \<open>The identities a successful parse returns.\<close>

definition std_ok :: "network \<Rightarrow> string \<Rightarrow> bool" where
  "std_ok n st \<longleftrightarrow> st \<in> (if is_evm n then {''erc20'', ''erc721'', ''erc1155''} else {''trc10'', ''trc20'', ''trc721''})"

definition is_nft :: "string \<Rightarrow> bool" where
  "is_nft st \<longleftrightarrow> st \<in> {''erc721'', ''erc1155'', ''trc721''}"

lemma std_ok_plain:
  "std_ok n st \<Longrightarrow> ascii_lower st = st \<and> CHR '':'' \<notin> set st \<and> CHR ''/'' \<notin> set st"
  by (auto simp: std_ok_def split: if_splits) (code_simp+)

lemma hex_no_slash: "list_all is_hexdigit s \<Longrightarrow> CHR ''/'' \<notin> set s"
  by (auto simp: list_all_iff is_hexdigit_def is_digit_def)

lemma contract_no_slash:
  assumes "asset_contract sha n st c token = Inr d"
  shows "CHR ''/'' \<notin> set d"
proof -
  have "CHR ''/'' \<notin> set a" if "raw_parse r = Inr a" for r a
  proof -
    have "list_all is_digit a"
      using that show_nat_digits[of "nat_of_digits r"] unfolding raw_parse_Inr list_all_iff by blast
    then show ?thesis by (auto simp: list_all_iff is_digit_def)
  qed
  moreover have "CHR ''/'' \<notin> set a" if "tron_contract sha r = Inr a" for r a
    using tron_contract_canonical[OF that] hex_no_slash[of a] by (simp add: hex_def)
  moreover have "CHR ''/'' \<notin> set (''0x'' @ ascii_lower d)" if "hex d 40" for d
    using that hex_lower[of d 40] hex_no_slash[of "ascii_lower d"] by (simp add: hex_def)
  ultimately show ?thesis
    using assms by (auto simp: asset_contract_def ok_simps Let_def split: if_splits)
qed

lemma asset_parse_token:
  assumes "asset_parse_legacy sha n raw = Inr a" "strip_chain n raw = Inr v"
    and "\<not> (eq_ignore_case v (native_asset n) \<or> eq_ignore_case v (drop 7 (native_asset n)))"
  obtains st identity c tk d sfx where "n \<noteq> Bitcoin" "std_ok n (ascii_lower st)"
    "asset_contract sha n (ascii_lower st) c tk = Inr d" "is_nft (ascii_lower st) \<or> tk = None"
    "(case tk of None \<Rightarrow> Inr [] | Some t \<Rightarrow> attempt (raw_parse t) (\<lambda>t'. Inr (''/'' @ t'))) = Inr sfx"
    "a = \<lparr>a_network = n, a_value = ascii_lower st @ '':'' @ d @ sfx,
        a_collection = (is_nft (ascii_lower st) \<and> tk = None)\<rparr>"
proof -
  let ?split = "\<lambda>identity. case split_once (CHR ''/'') identity of None \<Rightarrow> (identity, None) | Some (c, t) \<Rightarrow> (c, Some t)"
  have n: "n \<noteq> Bitcoin" and ex: "\<exists>st identity. split_once (CHR '':'') v = Some (st, identity)"
    using assms by (auto simp: asset_parse_legacy_def Let_def ensure_ok need_ok)
  obtain st identity where si: "split_once (CHR '':'') v = Some (st, identity)" using ex by blast
  obtain c tk where ct: "?split identity = (c, tk)" by (cases "?split identity")
  have main: "ensure (std_ok n (ascii_lower st)) ''asset standard not applicable to network''
     (attempt (asset_contract sha n (ascii_lower st) c tk) (\<lambda>d.
        ensure (is_nft (ascii_lower st) \<or> tk = None) ''fungible asset cannot carry a token id''
         (attempt (case tk of None \<Rightarrow> Inr [] | Some t \<Rightarrow> attempt (raw_parse t) (\<lambda>t'. Inr (''/'' @ t'))) (\<lambda>suffix.
            Inr \<lparr>a_network = n, a_value = ascii_lower st @ '':'' @ d @ suffix,
                 a_collection = (is_nft (ascii_lower st) \<and> tk = None)\<rparr>)))) = Inr a"
    using assms n si ct
    by (simp add: asset_parse_legacy_def Let_def std_ok_def is_nft_def cong: if_cong)
  then show ?thesis
    using that[OF n] unfolding ensure_ok attempt_ok sum.inject by blast
qed

lemma asset_parse_cases:
  assumes "asset_parse_legacy sha n raw = Inr a"
  obtains (native) "a = \<lparr>a_network = n, a_value = native_asset n, a_collection = False\<rparr>"
  | (fungible) st d where "n \<noteq> Bitcoin" "std_ok n st" "asset_contract sha n st d None = Inr d"
      "a = \<lparr>a_network = n, a_value = st @ '':'' @ d, a_collection = is_nft st\<rparr>" "CHR ''/'' \<notin> set d"
  | (token) st d t where "n \<noteq> Bitcoin" "std_ok n st" "is_nft st" "\<And>u. asset_contract sha n st d (Some u) = Inr d"
      "raw_parse t = Inr t" "CHR ''/'' \<notin> set d"
      "a = \<lparr>a_network = n, a_value = st @ '':'' @ d @ ''/'' @ t, a_collection = False\<rparr>"
proof -
  obtain v where v: "strip_chain n raw = Inr v" using assms by (auto simp: asset_parse_legacy_def ok_simps)
  show ?thesis
  proof (cases "eq_ignore_case v (native_asset n) \<or> eq_ignore_case v (drop 7 (native_asset n))")
    case True
    with assms v native show ?thesis by (simp add: asset_parse_legacy_def ok_simps)
  next
    case False
    let ?split = "\<lambda>identity. case split_once (CHR ''/'') identity of None \<Rightarrow> (identity, None) | Some (c, t) \<Rightarrow> (c, Some t)"
    from assms v False obtain st0 identity c tk d sfx where
      n: "n \<noteq> Bitcoin" and st: "std_ok n (ascii_lower st0)"
      and d: "asset_contract sha n (ascii_lower st0) c tk = Inr d"
      and nft: "is_nft (ascii_lower st0) \<or> tk = None"
      and sfx: "(case tk of None \<Rightarrow> Inr [] | Some t \<Rightarrow> attempt (raw_parse t) (\<lambda>t'. Inr (''/'' @ t'))) = Inr sfx"
      and a: "a = \<lparr>a_network = n, a_value = ascii_lower st0 @ '':'' @ d @ sfx,
        a_collection = (is_nft (ascii_lower st0) \<and> tk = None)\<rparr>"
      by (rule asset_parse_token)
    have ns: "CHR ''/'' \<notin> set d" by (rule contract_no_slash[OF d])
    show ?thesis
    proof (cases tk)
      case None
      with fungible[OF n st _ _ ns] asset_contract_fixed d a sfx show ?thesis by simp
    next
      case (Some t)
      with sfx obtain t' where t': "raw_parse t = Inr t'" "sfx = ''/'' @ t'" by (auto simp: ok_simps)
      have "asset_contract sha n (ascii_lower st0) d (Some u) = Inr d" for u
        using asset_contract_fixed[OF d] nft Some
        by (auto simp: asset_contract_def is_nft_def split: if_splits)
      moreover have "raw_parse t' = Inr t'" using t'(1) by (rule raw_parse_fixed)
      moreover have "is_nft (ascii_lower st0)" using nft Some by simp
      moreover from this have "a = \<lparr>a_network = n, a_value = ascii_lower st0 @ '':'' @ d @ ''/'' @ t', a_collection = False\<rparr>"
        using a t'(2) Some by simp
      ultimately show ?thesis using token n st ns by metis
    qed
  qed
qed

lemma native_prefix:
  "native_asset n = ''native:'' @ drop 7 (native_asset n)" "CHR '':'' \<notin> set (drop 7 (native_asset n))"
  by (cases n; simp)+

lemma not_native:
  assumes "std_ok n st"
  shows "\<not> eq_ignore_case (st @ CHR '':'' # r) (native_asset n)"
    and "\<not> eq_ignore_case (st @ CHR '':'' # r) (drop 7 (native_asset n))"
proof -
  have colon: "CHR '':'' \<in> set (ascii_lower (st @ CHR '':'' # r))"
    by (simp add: ascii_lower_def lower_char_def is_upper_def)
  have "list_all (\<lambda>m. CHR '':'' \<notin> set (ascii_lower (drop 7 (native_asset m)))) network_ALL"
    by code_simp
  then have "CHR '':'' \<notin> set (ascii_lower (drop 7 (native_asset n)))"
    by (cases n) (simp_all add: network_ALL_def)
  with colon show "\<not> eq_ignore_case (st @ CHR '':'' # r) (drop 7 (native_asset n))"
    unfolding eq_ignore_case_def by metis
  have first: "ascii_lower (st @ CHR '':'' # r) = st @ CHR '':'' # ascii_lower r"
    using std_ok_plain[OF assms] by (simp add: ascii_lower_def lower_char_def is_upper_def)
  have nat: "\<exists>q. ascii_lower (native_asset n) = ''native'' @ CHR '':'' # q"
    by (cases n; simp add: ascii_lower_def lower_char_def is_upper_def)
  show "\<not> eq_ignore_case (st @ CHR '':'' # r) (native_asset n)"
  proof
    assume "eq_ignore_case (st @ CHR '':'' # r) (native_asset n)"
    with nat first obtain q where "st @ CHR '':'' # ascii_lower r = ''native'' @ CHR '':'' # q"
      unfolding eq_ignore_case_def by metis
    from separator_unique[OF this] std_ok_plain[OF assms] have "st = ''native''" by simp
    with assms show False by (simp add: std_ok_def split: if_splits)
  qed
qed

lemma strip_chain_std:
  assumes "std_ok n st"
  shows "strip_chain n (st @ CHR '':'' # r) = Inr (st @ CHR '':'' # r)"
proof (cases "split_once (CHR ''/'') (st @ CHR '':'' # r)")
  case None
  then show ?thesis by (simp add: strip_chain_def)
next
  case (Some p)
  obtain chain rest where p: "p = (chain, rest)" by (cases p)
  from split_once_SomeD[OF Some[unfolded p]] have "st @ CHR '':'' # r = chain @ CHR ''/'' # rest"
    "CHR ''/'' \<notin> set chain" by simp_all
  moreover have "CHR ''/'' \<notin> set st" using std_ok_plain[OF assms] by simp
  ultimately obtain q where chain: "chain = st @ CHR '':'' # q"
    by (auto simp: append_eq_append_conv2 Cons_eq_append_conv append_eq_Cons_conv)
  have "\<not> starts_with chain (x @ '':'')" if "x \<in> {''eip155'', ''bip122'', ''tron''}" for x
  proof
    assume "starts_with chain (x @ '':'')"
    then obtain y where "st @ CHR '':'' # q = x @ CHR '':'' # y" by (auto simp: chain starts_with_append)
    moreover have "CHR '':'' \<notin> set x" using that by auto
    ultimately have "st = x" using separator_unique std_ok_plain[OF assms] by metis
    with that assms show False by (auto simp: std_ok_def split: if_splits)
  qed
  from this[of "''eip155''"] this[of "''bip122''"] this[of "''tron''"] show ?thesis
    by (simp add: strip_chain_def Some p)
qed

lemma asset_value_parse:
  assumes st: "n \<noteq> Bitcoin" "std_ok n st" and c: "asset_contract sha n st d tk = Inr d"
    and ns: "CHR ''/'' \<notin> set d" and nft: "is_nft st \<or> tk = None"
    and t: "\<And>t. tk = Some t \<Longrightarrow> raw_parse t = Inr t"
  shows "asset_parse_legacy sha n (st @ CHR '':'' # d @ (case tk of None \<Rightarrow> [] | Some t \<Rightarrow> CHR ''/'' # t)) =
    Inr \<lparr>a_network = n, a_value = st @ CHR '':'' # d @ (case tk of None \<Rightarrow> [] | Some t \<Rightarrow> CHR ''/'' # t),
         a_collection = (is_nft st \<and> tk = None)\<rparr>"
proof -
  let ?id = "d @ (case tk of None \<Rightarrow> [] | Some t \<Rightarrow> CHR ''/'' # t)"
  have plain: "ascii_lower st = st" "CHR '':'' \<notin> set st" using std_ok_plain[OF st(2)] by simp_all
  have s1: "split_once (CHR '':'') (st @ CHR '':'' # ?id) = Some (st, ?id)"
    by (rule split_once_mid[OF plain(2)])
  show ?thesis
    using st c nft t not_native[OF st(2), of ?id] strip_chain_std[OF st(2), of ?id] s1 plain(1)
    by (cases tk) (simp_all add: asset_parse_legacy_def Let_def std_ok_def is_nft_def
      split_once_None[OF ns] split_once_mid[OF ns])
qed

text \<open>Asset canonicalisation is idempotent: the identity a legacy spelling parses to is accepted,
  unchanged, as a canonical identity of the same network.\<close>

theorem asset_canonical_fixed:
  assumes "asset_parse_legacy sha n raw = Inr a"
  shows "asset_parse sha n (a_value a) = Inr a"
  using assms
proof (cases rule: asset_parse_cases)
  case native
  have "strip_chain n (native_asset n) = Inr (native_asset n)"
    by (cases n; simp add: strip_chain_def split_once_def)
  then show ?thesis
    by (simp add: native asset_parse_def asset_parse_legacy_def eq_ignore_case_def Let_def)
next
  case (fungible st d)
  with asset_value_parse[of n st sha d None] show ?thesis by (simp add: asset_parse_def)
next
  case (token st d t)
  with asset_value_parse[of n st sha d "Some t"] show ?thesis by (simp add: asset_parse_def)
qed

theorem asset_canonical_fixed_witness:
  "\<exists>a. asset_parse_legacy (\<lambda>bs. bs) Ethereum (''ERC20:0X'' @ replicate 40 (CHR ''A'')) = Inr a \<and>
     asset_parse (\<lambda>bs. bs) Ethereum (a_value a) = Inr a"
proof -
  have "is_ok (asset_parse_legacy (\<lambda>bs. bs) Ethereum (''ERC20:0X'' @ replicate 40 (CHR ''A'')))"
    by code_simp
  then obtain a where a: "asset_parse_legacy (\<lambda>bs. bs) Ethereum (''ERC20:0X'' @ replicate 40 (CHR ''A'')) = Inr a"
    by (auto simp: is_ok_iff)
  with asset_canonical_fixed[OF a] show ?thesis by blast
qed

end
