(* ===== verification/Json.thy ===== *)
theory Json
  imports Prelude
begin

text \<open>
  JSON documents as \<open>serde_json::Value\<close> holds them in the Bitcoin adapter and in the
  risk policy, both built with the \<open>arbitrary_precision\<close> feature: a number is its decimal
  text, and \<open>as_u64\<close> parses that text. An object is an association list of its members;
  reading a missing member, or a member of something that is not an object, gives
  \<open>Null\<close>, as indexing a \<open>Value\<close> by a string does.
\<close>

datatype json =
    JNull
  | JBool bool
  | JNum string
  | JStr string
  | JArr "json list"
  | JObj "(string \<times> json) list"

fun member :: "json \<Rightarrow> string \<Rightarrow> json option" where
  "member (JObj kvs) k = map_of kvs k"
| "member _ k = None"

definition field :: "json \<Rightarrow> string \<Rightarrow> json" where
  "field v k = (case member v k of None \<Rightarrow> JNull | Some x \<Rightarrow> x)"

text \<open>\<open>value.pointer("/a/b")\<close> for keys that are not array indices.\<close>

fun pointer :: "json \<Rightarrow> string list \<Rightarrow> json option" where
  "pointer v [] = Some v"
| "pointer v (k # ks) = (case member v k of None \<Rightarrow> None | Some w \<Rightarrow> pointer w ks)"

fun as_str :: "json \<Rightarrow> string option" where
  "as_str (JStr s) = Some s"
| "as_str _ = None"

fun as_u64 :: "json \<Rightarrow> nat option" where
  "as_u64 (JNum t) = parse_u64 t"
| "as_u64 _ = None"

fun as_array :: "json \<Rightarrow> json list option" where
  "as_array (JArr xs) = Some xs"
| "as_array _ = None"

fun is_number :: "json \<Rightarrow> bool" where
  "is_number (JNum _) = True"
| "is_number _ = False"

fun is_object :: "json \<Rightarrow> bool" where
  "is_object (JObj _) = True"
| "is_object _ = False"

text \<open>\<open>text(value)\<close> and \<open>array(option)\<close> of the policy.\<close>

definition text_of :: "json \<Rightarrow> string" where
  "text_of v = (case as_str v of None \<Rightarrow> [] | Some s \<Rightarrow> s)"

definition array_of :: "json option \<Rightarrow> json list" where
  "array_of v = (case Option.bind v as_array of None \<Rightarrow> [] | Some xs \<Rightarrow> xs)"

definition jnat :: "nat \<Rightarrow> json" where
  "jnat n = JNum (show_nat n)"

lemma as_str_Some [ok_simps]: "as_str v = Some s \<longleftrightarrow> v = JStr s"
  by (cases v) auto

lemma as_array_Some [ok_simps]: "as_array v = Some xs \<longleftrightarrow> v = JArr xs"
  by (cases v) auto

lemma as_u64_less: "as_u64 v = Some n \<Longrightarrow> n < u64_lim"
  by (cases v) (auto dest: parse_below_less)

lemma as_u64_jnat [simp]: "n < u64_lim \<Longrightarrow> as_u64 (jnat n) = Some n"
  by (simp add: jnat_def)

lemma field_obj [simp]:
  "field (JObj kvs) k = (case map_of kvs k of None \<Rightarrow> JNull | Some x \<Rightarrow> x)"
  by (simp add: field_def)

lemma text_of_JStr [simp]: "text_of (JStr s) = s"
  by (simp add: text_of_def)

lemma array_of_simps [simp]: "array_of (Some (JArr xs)) = xs" "array_of None = []"
  by (simp_all add: array_of_def)

section \<open>Writing documents\<close>

definition jtext :: "nat \<Rightarrow> json" where
  "jtext n = JStr (show_nat n)"

definition jstrs :: "string list \<Rightarrow> json" where
  "jstrs xs = JArr (map JStr xs)"

definition jopt :: "('a \<Rightarrow> json) \<Rightarrow> 'a option \<Rightarrow> json" where
  "jopt f v = (case v of None \<Rightarrow> JNull | Some x \<Rightarrow> f x)"

end
