(* ===== verification/Utxo.thy ===== *)
theory Utxo
  imports Json Identity
begin

text \<open>
  The Bitcoin data model and the extraction of evidence from a decoded block
  (\<open>dockerizd_bitcoin/src/domain/model.rs\<close>). Address and script decoding, decimal
  amount parsing and SHA-256 belong to third-party packages; they enter as the record
  \<open>btc_lib\<close>. Casts \<open>as u32\<close> are \<open>mod 2 ^ 32\<close>.
\<close>

record btc_lib =
  lib_address :: "string \<Rightarrow> string option"       \<comment> \<open>\<open>Address::from_str\<close>, mainnet, \<open>to_string\<close>\<close>
  lib_script :: "string \<Rightarrow> nat list option"      \<comment> \<open>\<open>ScriptBuf::from_hex\<close>\<close>
  lib_script_address :: "nat list \<Rightarrow> string"     \<comment> \<open>\<open>Address::from_script\<close>, empty if none\<close>
  lib_amount :: "string \<Rightarrow> nat option"           \<comment> \<open>\<open>Amount::from_str_in\<close> in BTC, as satoshis\<close>
  lib_sha_hex :: "string \<Rightarrow> string"              \<comment> \<open>SHA-256 of the bytes, lower-case hex\<close>

definition u32_cast :: "nat \<Rightarrow> nat" where
  "u32_cast n = n mod u32_lim"

definition btc_address :: "btc_lib \<Rightarrow> string \<Rightarrow> string res" where
  "btc_address lib raw = need (lib_address lib raw) ''invalid Bitcoin address'' Inr"

definition btc_hash :: "string \<Rightarrow> string res" where
  "btc_hash raw = normalize_hash Bitcoin raw"

definition satoshis :: "btc_lib \<Rightarrow> json \<Rightarrow> nat res" where
  "satoshis lib v =
     attempt (case as_str v of Some s \<Rightarrow> Inr s
              | None \<Rightarrow> (case v of JNum t \<Rightarrow> Inr t | _ \<Rightarrow> Inl ''BTC value must be a decimal number''))
       (\<lambda>decimal. need (lib_amount lib decimal) ''invalid BTC value'' (\<lambda>amount.
          ensure (amount \<le> 2100000000000000) ''BTC value exceeds total supply'' (Inr amount)))"

definition btc_decimal :: "nat \<Rightarrow> string res" where
  "btc_decimal sats =
     attempt (raw_parse (show_nat sats)) (\<lambda>a. Inr (raw_decimal a (native_decimals Bitcoin)))"

record script_output =
  so_address :: string
  so_script_hex :: string
  so_script_type :: string
  so_value_sats :: nat

definition so_validate :: "btc_lib \<Rightarrow> script_output \<Rightarrow> unit res" where
  "so_validate lib s =
     need (lib_script lib (so_script_hex s)) ''invalid script hex'' (\<lambda>bytes.
       ensure (so_script_hex s = ascii_lower (so_script_hex s)) ''script hex must be canonical''
       (ensure (so_address s = lib_script_address lib bytes)
          ''prevout/output address does not match its script''
       (attempt (raw_from_satoshis (so_value_sats s)) (\<lambda>_. Inr ()))))"

definition so_from_rpc :: "btc_lib \<Rightarrow> json \<Rightarrow> script_output res" where
  "so_from_rpc lib v =
     need (member v ''scriptPubKey'') ''missing scriptPubKey'' (\<lambda>script.
     need (as_str (field script ''hex'')) ''missing script hex'' (\<lambda>h.
     need (lib_script lib h) ''invalid script hex'' (\<lambda>bytes.
     attempt (satoshis lib (field v ''value'')) (\<lambda>sats.
       Inr \<lparr>so_address = lib_script_address lib bytes,
            so_script_hex = ascii_lower h,
            so_script_type = (case as_str (field script ''type'') of Some t \<Rightarrow> t | None \<Rightarrow> ''unknown''),
            so_value_sats = sats\<rparr>))))"

definition so_subject :: "btc_lib \<Rightarrow> script_output \<Rightarrow> string" where
  "so_subject lib s =
     (if so_address s = [] then ''script:'' @ lib_sha_hex lib (so_script_hex s) else so_address s)"

record transaction =
  t_commit_id :: string
  t_block_height :: nat
  t_block_hash :: string
  t_block_time :: nat
  t_txid :: string
  t_tx_index :: nat
  t_coinbase :: nat
  t_input_count :: nat
  t_output_count :: nat
  t_output_sats :: nat
  t_fee_sats :: nat

record tx_output =
  o_commit_id :: string
  o_block_height :: nat
  o_block_hash :: string
  o_block_time :: nat
  o_txid :: string
  o_tx_index :: nat
  o_output_index :: nat
  o_coinbase :: nat
  o_output :: script_output

record tx_input =
  i_commit_id :: string
  i_block_height :: nat
  i_block_hash :: string
  i_block_time :: nat
  i_txid :: string
  i_tx_index :: nat
  i_input_index :: nat
  i_prev_txid :: string
  i_prev_vout :: nat
  i_output :: script_output

record evidence =
  transactions :: "transaction list"
  outputs :: "tx_output list"
  inputs :: "tx_input list"

definition outpoint :: "string \<Rightarrow> nat \<Rightarrow> string" where
  "outpoint txid n = txid @ '':'' @ show_nat n"

section \<open>Extraction\<close>

record block_header =
  bh_commit :: string
  bh_height :: nat
  bh_hash :: string
  bh_time :: nat

text \<open>The local variables of the extraction loop.\<close>

record extraction =
  x_evidence :: evidence
  x_available :: "string \<Rightarrow> script_output option"
  x_spent :: "string set"

definition extract_input ::
  "btc_lib \<Rightarrow> block_header \<Rightarrow> string \<Rightarrow> nat \<Rightarrow> nat \<times> json \<Rightarrow>
   extraction \<times> nat \<Rightarrow> (extraction \<times> nat) res" where
  "extract_input lib h txid index ij st =
     (let (i, input) = ij; (x, input_total) = st in
      need (as_str (field input ''txid'')) ''missing prevout txid'' (\<lambda>raw.
      attempt (btc_hash raw) (\<lambda>previous.
      need (as_u64 (field input ''vout'')) ''missing prevout index'' (\<lambda>n.
      ensure (n < u32_lim) ''out of range integral type conversion attempted''
      (let key = outpoint previous n in
       ensure (key \<notin> x_spent x) ''duplicate input outpoint in block''
       (attempt (case x_available x key of
            Some found \<Rightarrow> Inr found
          | None \<Rightarrow> need (member input ''prevout'')
                      ''unresolved input; need prevout data or txindex=1'' (so_from_rpc lib))
        (\<lambda>output.
          need (checked_add64 input_total (so_value_sats output)) ''input amount overflow'' (\<lambda>total.
            Inr (x\<lparr>x_spent := insert key (x_spent x),
                   x_evidence := (x_evidence x)\<lparr>inputs := inputs (x_evidence x) @
                     [\<lparr>i_commit_id = bh_commit h, i_block_height = bh_height h,
                       i_block_hash = bh_hash h, i_block_time = bh_time h, i_txid = txid,
                       i_tx_index = u32_cast index, i_input_index = u32_cast i,
                       i_prev_txid = previous, i_prev_vout = n, i_output = output\<rparr>]\<rparr>\<rparr>,
                 total)))))))))"

definition extract_output ::
  "btc_lib \<Rightarrow> block_header \<Rightarrow> string \<Rightarrow> nat \<Rightarrow> nat \<Rightarrow> nat \<times> json \<Rightarrow>
   extraction \<times> nat \<Rightarrow> (extraction \<times> nat) res" where
  "extract_output lib h txid index coinbase ij st =
     (let (i, output) = ij; (x, output_total) = st in
      ensure (as_u64 (field output ''n'') = Some i) ''non-contiguous output indexes''
      (attempt (so_from_rpc lib output) (\<lambda>so.
       need (checked_add64 output_total (so_value_sats so)) ''output amount overflow'' (\<lambda>total.
         Inr (x\<lparr>x_available := (x_available x)(outpoint txid (u32_cast i) \<mapsto> so),
                x_evidence := (x_evidence x)\<lparr>outputs := outputs (x_evidence x) @
                  [\<lparr>o_commit_id = bh_commit h, o_block_height = bh_height h,
                    o_block_hash = bh_hash h, o_block_time = bh_time h, o_txid = txid,
                    o_tx_index = u32_cast index, o_output_index = u32_cast i,
                    o_coinbase = coinbase, o_output = so\<rparr>]\<rparr>\<rparr>,
              total)))))"

text \<open>The legs and the row of one transaction, once its header is read.\<close>

definition extract_legs ::
  "btc_lib \<Rightarrow> block_header \<Rightarrow> nat \<Rightarrow> string \<Rightarrow> json list \<Rightarrow> json list \<Rightarrow> nat \<Rightarrow> extraction \<Rightarrow> extraction res" where
  "extract_legs lib h index txid vin vout coinbase x =
     attempt (if coinbase = 0
              then foldE (extract_input lib h txid index) (enumerate 0 vin) (x, 0)
              else Inr (x, 0)) (\<lambda>(x1, input_total).
     attempt (foldE (extract_output lib h txid index coinbase) (enumerate 0 vout) (x1, 0))
       (\<lambda>(x2, output_total).
     need (if coinbase = 1 then Some 0 else checked_sub input_total output_total)
       ''outputs exceed resolved inputs'' (\<lambda>fee.
     Inr (x2\<lparr>x_evidence := (x_evidence x2)\<lparr>transactions := transactions (x_evidence x2) @
            [\<lparr>t_commit_id = bh_commit h, t_block_height = bh_height h,
              t_block_hash = bh_hash h, t_block_time = bh_time h, t_txid = txid,
              t_tx_index = u32_cast index, t_coinbase = coinbase,
              t_input_count = u32_cast (length vin), t_output_count = u32_cast (length vout),
              t_output_sats = output_total, t_fee_sats = fee\<rparr>]\<rparr>\<rparr>))))"

definition is_coinbase :: "nat \<Rightarrow> json list \<Rightarrow> nat" where
  "is_coinbase index vin =
     (if index = 0 \<and> length vin = 1 \<and> member (vin ! 0) ''coinbase'' \<noteq> None then 1 else 0)"

definition extract_tx ::
  "btc_lib \<Rightarrow> block_header \<Rightarrow> nat \<times> json \<Rightarrow> extraction \<Rightarrow> extraction res" where
  "extract_tx lib h it x =
     (let (index, tx) = it in
      need (as_str (field tx ''txid'')) ''missing txid'' (\<lambda>raw.
      attempt (btc_hash raw) (\<lambda>txid.
      need (as_array (field tx ''vin'')) ''missing inputs'' (\<lambda>vin.
      need (as_array (field tx ''vout'')) ''missing outputs'' (\<lambda>vout.
      ensure (vin \<noteq> [] \<and> vout \<noteq> []) ''empty transaction''
      (ensure ((index = 0) = (is_coinbase index vin = 1)) ''invalid coinbase position''
       (extract_legs lib h index txid vin vout (is_coinbase index vin) x)))))))"

definition extract_block ::
  "btc_lib \<Rightarrow> json \<Rightarrow> string \<Rightarrow> (string \<Rightarrow> script_output option) \<Rightarrow> evidence res" where
  "extract_block lib block commit_id resolved =
     need (as_u64 (field block ''height'')) ''missing block height'' (\<lambda>height.
     need (as_str (field block ''hash'')) ''missing block hash'' (\<lambda>raw.
     attempt (btc_hash raw) (\<lambda>block_hash.
     need (as_u64 (field block ''time'')) ''missing block timestamp'' (\<lambda>time.
     need (as_array (field block ''tx'')) ''getblock must return decoded transactions'' (\<lambda>txs.
     ensure (txs \<noteq> []) ''empty Bitcoin block''
     (attempt (foldE (extract_tx lib \<lparr>bh_commit = commit_id, bh_height = height,
                                       bh_hash = block_hash, bh_time = time\<rparr>)
               (enumerate 0 txs)
               \<lparr>x_evidence = \<lparr>transactions = [], outputs = [], inputs = []\<rparr>,
                x_available = resolved, x_spent = {}\<rparr>)
        (\<lambda>x. Inr (x_evidence x))))))))"

section \<open>What extraction guarantees\<close>

abbreviation in_values :: "tx_input list \<Rightarrow> nat" where
  "in_values is \<equiv> sum_list (map (so_value_sats \<circ> i_output) is)"

abbreviation out_values :: "tx_output list \<Rightarrow> nat" where
  "out_values os \<equiv> sum_list (map (so_value_sats \<circ> o_output) os)"

text \<open>The legs a transaction must have: its own header and position on every leg,
  consecutive leg indices, and values that balance.\<close>

definition balanced_tx :: "transaction \<Rightarrow> tx_input list \<Rightarrow> tx_output list \<Rightarrow> bool" where
  "balanced_tx t is os \<longleftrightarrow>
     (t_coinbase t = 0 \<or> t_coinbase t = 1) \<and>
     t_output_sats t = out_values os \<and>
     (if t_coinbase t = 1 then is = [] \<and> t_fee_sats t = 0 \<and> t_input_count t = 1
      else in_values is = t_output_sats t + t_fee_sats t \<and> t_input_count t = u32_cast (length is)) \<and>
     t_output_count t = u32_cast (length os) \<and> os \<noteq> [] \<and>
     map i_input_index is = map u32_cast [0..<length is] \<and>
     map o_output_index os = map u32_cast [0..<length os] \<and>
     (\<forall>i \<in> set is. i_txid i = t_txid t \<and> i_tx_index i = t_tx_index t \<and>
        i_commit_id i = t_commit_id t \<and> i_block_height i = t_block_height t \<and>
        i_block_hash i = t_block_hash t \<and> i_block_time i = t_block_time t) \<and>
     (\<forall>q \<in> set os. o_txid q = t_txid t \<and> o_tx_index q = t_tx_index t \<and>
        o_coinbase q = t_coinbase t \<and>
        o_commit_id q = t_commit_id t \<and> o_block_height q = t_block_height t \<and>
        o_block_hash q = t_block_hash t \<and> o_block_time q = t_block_time t)"

definition grouped :: "evidence \<Rightarrow> (transaction \<times> tx_input list \<times> tx_output list) list \<Rightarrow> bool" where
  "grouped ev gs \<longleftrightarrow>
     transactions ev = map fst gs \<and>
     inputs ev = concat (map (fst \<circ> snd) gs) \<and>
     outputs ev = concat (map (snd \<circ> snd) gs) \<and>
     (\<forall>(t, is, os) \<in> set gs. balanced_tx t is os) \<and>
     map t_tx_index (transactions ev) = map u32_cast [0..<length gs] \<and>
     map t_coinbase (transactions ev) = map (\<lambda>k. if k = 0 then 1 else 0) [0..<length gs]"

definition spent_keys :: "evidence \<Rightarrow> string list" where
  "spent_keys ev = map (\<lambda>i. outpoint (i_prev_txid i) (i_prev_vout i)) (inputs ev)"

end
