(* ===== verification/Block_Extraction.thy ===== *)
theory Block_Extraction
  imports Utxo "HOL-Library.Code_Target_Nat"
begin

text \<open>
  What a successful extraction guarantees: every transaction of the evidence owns a
  consecutive group of inputs and outputs, values balance to the satoshi, only the first
  transaction is a coinbase, and no outpoint is spent twice in the block.
\<close>

definition in_key :: "tx_input \<Rightarrow> string" where
  "in_key i = outpoint (i_prev_txid i) (i_prev_vout i)"

definition in_headed :: "block_header \<Rightarrow> string \<Rightarrow> nat \<Rightarrow> tx_input \<Rightarrow> bool" where
  "in_headed h txid index i \<longleftrightarrow>
     i_txid i = txid \<and> i_tx_index i = u32_cast index \<and> i_commit_id i = bh_commit h \<and>
     i_block_height i = bh_height h \<and> i_block_hash i = bh_hash h \<and> i_block_time i = bh_time h"

definition out_headed :: "block_header \<Rightarrow> string \<Rightarrow> nat \<Rightarrow> nat \<Rightarrow> tx_output \<Rightarrow> bool" where
  "out_headed h txid index cb q \<longleftrightarrow>
     o_txid q = txid \<and> o_tx_index q = u32_cast index \<and> o_coinbase q = cb \<and>
     o_commit_id q = bh_commit h \<and> o_block_height q = bh_height h \<and>
     o_block_hash q = bh_hash h \<and> o_block_time q = bh_time h"

text \<open>The state of the input loop after the rounds \<open>ys\<close>, from the state \<open>x\<close>.\<close>

definition input_inv ::
  "block_header \<Rightarrow> string \<Rightarrow> nat \<Rightarrow> extraction \<Rightarrow> (nat \<times> json) list \<Rightarrow> extraction \<times> nat \<Rightarrow> bool" where
  "input_inv h txid index x ys st \<longleftrightarrow>
     (\<exists>iz. fst st = x\<lparr>x_spent := x_spent x \<union> set (map in_key iz),
                      x_evidence := (x_evidence x)\<lparr>inputs := inputs (x_evidence x) @ iz\<rparr>\<rparr> \<and>
           snd st = in_values iz \<and> map i_input_index iz = map (u32_cast \<circ> fst) ys \<and>
           (\<forall>i \<in> set iz. in_headed h txid index i) \<and>
           distinct (map in_key iz) \<and> x_spent x \<inter> set (map in_key iz) = {})"

lemma extract_input_step:
  assumes inv: "input_inv h txid index x ys st"
    and run: "extract_input lib h txid index ij st = Inr st'"
  shows "input_inv h txid index x (ys @ [ij]) st'"
proof -
  obtain i inp where ij: "ij = (i, inp)" by (cases ij)
  obtain s t where st: "st = (s, t)" by (cases st)
  from inv st obtain iz' where
    s: "s = x\<lparr>x_spent := x_spent x \<union> set (map in_key iz'),
              x_evidence := (x_evidence x)\<lparr>inputs := inputs (x_evidence x) @ iz'\<rparr>\<rparr>"
    and t: "t = in_values iz'" and idx: "map i_input_index iz' = map (u32_cast \<circ> fst) ys"
    and hd: "\<forall>i \<in> set iz'. in_headed h txid index i"
    and dis: "distinct (map in_key iz')" "x_spent x \<inter> set (map in_key iz') = {}"
    by (auto simp: input_inv_def)
  from run obtain prev n so where
    fresh: "outpoint prev n \<notin> x_spent s"
    and st': "st' = (s\<lparr>x_spent := insert (outpoint prev n) (x_spent s),
        x_evidence := (x_evidence s)\<lparr>inputs := inputs (x_evidence s) @
          [\<lparr>i_commit_id = bh_commit h, i_block_height = bh_height h,
            i_block_hash = bh_hash h, i_block_time = bh_time h, i_txid = txid,
            i_tx_index = u32_cast index, i_input_index = u32_cast i,
            i_prev_txid = prev, i_prev_vout = n, i_output = so\<rparr>]\<rparr>\<rparr>, t + so_value_sats so)"
    by (auto simp: extract_input_def ij st ok_simps)
  define q where "q = \<lparr>i_commit_id = bh_commit h, i_block_height = bh_height h,
            i_block_hash = bh_hash h, i_block_time = bh_time h, i_txid = txid,
            i_tx_index = u32_cast index, i_input_index = u32_cast i,
            i_prev_txid = prev, i_prev_vout = n, i_output = so\<rparr>"
  have key: "in_key q = outpoint prev n" by (simp add: q_def in_key_def)
  show ?thesis
    unfolding input_inv_def
    using fresh idx hd dis
    by (intro exI[of _ "iz' @ [q]"])
       (auto simp: st' s t key ij q_def[symmetric] in_headed_def, auto simp: q_def)
qed

lemma extract_inputs_inv:
  assumes "foldE (extract_input lib h txid index) ys (x, 0) = Inr st"
  shows "input_inv h txid index x ys st"
proof (rule foldE_invariant[OF assms])
  show "input_inv h txid index x [] (x, 0)"
    by (auto simp: input_inv_def intro!: exI[of _ "[]"])
qed (rule extract_input_step)

definition output_inv ::
  "block_header \<Rightarrow> string \<Rightarrow> nat \<Rightarrow> nat \<Rightarrow> extraction \<Rightarrow> (nat \<times> json) list \<Rightarrow> extraction \<times> nat \<Rightarrow> bool" where
  "output_inv h txid index cb x ys st \<longleftrightarrow>
     (\<exists>os av. fst st = x\<lparr>x_available := av,
                 x_evidence := (x_evidence x)\<lparr>outputs := outputs (x_evidence x) @ os\<rparr>\<rparr> \<and>
           snd st = out_values os \<and> map o_output_index os = map (u32_cast \<circ> fst) ys \<and>
           (\<forall>q \<in> set os. out_headed h txid index cb q))"

lemma extract_output_step:
  assumes inv: "output_inv h txid index cb x ys st"
    and run: "extract_output lib h txid index cb ij st = Inr st'"
  shows "output_inv h txid index cb x (ys @ [ij]) st'"
proof -
  obtain i out where ij: "ij = (i, out)" by (cases ij)
  obtain s t where st: "st = (s, t)" by (cases st)
  from inv st obtain os av where
    s: "s = x\<lparr>x_available := av,
              x_evidence := (x_evidence x)\<lparr>outputs := outputs (x_evidence x) @ os\<rparr>\<rparr>"
    and t: "t = out_values os" and idx: "map o_output_index os = map (u32_cast \<circ> fst) ys"
    and hd: "\<forall>q \<in> set os. out_headed h txid index cb q"
    by (auto simp: output_inv_def)
  from run obtain so where
    st': "st' = (s\<lparr>x_available := (x_available s)(outpoint txid (u32_cast i) \<mapsto> so),
        x_evidence := (x_evidence s)\<lparr>outputs := outputs (x_evidence s) @
          [\<lparr>o_commit_id = bh_commit h, o_block_height = bh_height h,
            o_block_hash = bh_hash h, o_block_time = bh_time h, o_txid = txid,
            o_tx_index = u32_cast index, o_output_index = u32_cast i,
            o_coinbase = cb, o_output = so\<rparr>]\<rparr>\<rparr>, t + so_value_sats so)"
    by (auto simp: extract_output_def ij st ok_simps)
  show ?thesis
    unfolding output_inv_def
    using idx hd
    by (intro exI[of _ "os @ [\<lparr>o_commit_id = bh_commit h, o_block_height = bh_height h,
            o_block_hash = bh_hash h, o_block_time = bh_time h, o_txid = txid,
            o_tx_index = u32_cast index, o_output_index = u32_cast i,
            o_coinbase = cb, o_output = so\<rparr>]"]
          exI[of _ "(x_available s)(outpoint txid (u32_cast i) \<mapsto> so)"])
       (auto simp: st' s t ij out_headed_def)
qed

lemma extract_outputs_inv:
  assumes "foldE (extract_output lib h txid index cb) ys (x, 0) = Inr st"
  shows "output_inv h txid index cb x ys st"
proof (rule foldE_invariant[OF assms])
  show "output_inv h txid index cb x [] (x, 0)"
    by (auto simp: output_inv_def intro!: exI[of _ "[]"] exI[of _ "x_available x"])
qed (rule extract_output_step)

lemma length_of_indices: "map f xs = map g [0..<n] \<Longrightarrow> length xs = n"
  by (metis length_map length_upt minus_nat.diff_0)

lemma enumerate_fst: "map (f \<circ> fst) (enumerate 0 xs) = map f [0..<length xs]"
  by (metis map_fst_enumerate map_map plus_nat.add_0)

text \<open>One transaction: it appends itself, its inputs and its outputs.\<close>

lemma extract_tx_group:
  assumes run: "extract_tx lib h (index, tx) x = Inr x'"
  obtains t iz os av where
    "x_evidence x' = \<lparr>transactions = transactions (x_evidence x) @ [t],
        outputs = outputs (x_evidence x) @ os, inputs = inputs (x_evidence x) @ iz\<rparr>"
    "x_available x' = av"
    "x_spent x' = x_spent x \<union> set (map in_key iz)"
    "distinct (map in_key iz)" "x_spent x \<inter> set (map in_key iz) = {}"
    "balanced_tx t iz os" "t_tx_index t = u32_cast index"
    "t_coinbase t = (if index = 0 then 1 else 0)"
proof -
  from run obtain txid vin vout where
    ne: "vin \<noteq> []" "vout \<noteq> []" and pos: "(index = 0) = (is_coinbase index vin = 1)"
    and legs: "extract_legs lib h index txid vin vout (is_coinbase index vin) x = Inr x'"
    by (auto simp: extract_tx_def ok_simps)
  define cb where "cb = is_coinbase index vin"
  have cb: "cb = (if index = 0 \<and> length vin = 1 \<and> member (vin ! 0) ''coinbase'' \<noteq> None then 1 else 0)"
    by (simp add: cb_def is_coinbase_def)
  note pos = pos[folded cb_def] and legs = legs[folded cb_def]
  from legs obtain x1 x2 itot otot fee where
    ins: "(if cb = 0 then foldE (extract_input lib h txid index) (enumerate 0 vin) (x, 0)
               else Inr (x, 0)) = Inr (x1, itot)"
    and outs: "foldE (extract_output lib h txid index cb) (enumerate 0 vout) (x1, 0) = Inr (x2, otot)"
    and fee: "(if cb = 1 then Some 0 else checked_sub itot otot) = Some fee"
    and x': "x' = x2\<lparr>x_evidence := (x_evidence x2)\<lparr>transactions := transactions (x_evidence x2) @
               [\<lparr>t_commit_id = bh_commit h, t_block_height = bh_height h,
                 t_block_hash = bh_hash h, t_block_time = bh_time h, t_txid = txid,
                 t_tx_index = u32_cast index, t_coinbase = cb,
                 t_input_count = u32_cast (length vin), t_output_count = u32_cast (length vout),
                 t_output_sats = otot, t_fee_sats = fee\<rparr>]\<rparr>\<rparr>"
    unfolding extract_legs_def attempt_ok need_ok split_paired_Ex prod.case sum.inject
    by (elim exE conjE) (rule that, assumption+, rule sym, assumption)
  have cb01: "cb = 0 \<or> cb = 1" using cb by simp
  obtain iz where
    x1: "x1 = x\<lparr>x_spent := x_spent x \<union> set (map in_key iz),
                x_evidence := (x_evidence x)\<lparr>inputs := inputs (x_evidence x) @ iz\<rparr>\<rparr>"
    and itot: "itot = in_values iz"
    and iidx: "map i_input_index iz = (if cb = 0 then map u32_cast [0..<length vin] else [])"
    and ihd: "\<forall>i \<in> set iz. in_headed h txid index i"
    and idis: "distinct (map in_key iz)" "x_spent x \<inter> set (map in_key iz) = {}"
  proof (cases "cb = 0")
    case True
    with ins extract_inputs_inv[of lib h txid index "enumerate 0 vin" x "(x1, itot)"]
    show ?thesis using that True by (auto simp: input_inv_def enumerate_fst)
  next
    case False
    with ins show ?thesis using that[of "[]"] by simp
  qed
  from extract_outputs_inv[OF outs] obtain os av where
    x2: "x2 = x1\<lparr>x_available := av,
                x_evidence := (x_evidence x1)\<lparr>outputs := outputs (x_evidence x1) @ os\<rparr>\<rparr>"
    and otot: "otot = out_values os" and oidx: "map o_output_index os = map u32_cast [0..<length vout]"
    and ohd: "\<forall>q \<in> set os. out_headed h txid index cb q"
    by (auto simp: output_inv_def enumerate_fst)
  from length_of_indices[OF oidx] have olen: "length os = length vout" .
  have ilen: "cb = 0 \<Longrightarrow> length iz = length vin" and iempty: "cb = 1 \<Longrightarrow> iz = []"
    using iidx length_of_indices[of i_input_index "iz" u32_cast "length vin"] by auto
  let ?t = "\<lparr>t_commit_id = bh_commit h, t_block_height = bh_height h,
                 t_block_hash = bh_hash h, t_block_time = bh_time h, t_txid = txid,
                 t_tx_index = u32_cast index, t_coinbase = cb,
                 t_input_count = u32_cast (length vin), t_output_count = u32_cast (length vout),
                 t_output_sats = otot, t_fee_sats = fee\<rparr>"
  have one: "cb = 1 \<Longrightarrow> length vin = 1" using cb by (metis zero_neq_one)
  have oidx': "map o_output_index os = map u32_cast [0..<length os]" using oidx olen by simp
  have onz: "os \<noteq> []" using olen ne by auto
  have legs: "\<forall>i \<in> set iz. i_txid i = txid \<and> i_tx_index i = u32_cast index \<and> i_commit_id i = bh_commit h \<and>
      i_block_height i = bh_height h \<and> i_block_hash i = bh_hash h \<and> i_block_time i = bh_time h"
    "\<forall>q \<in> set os. o_txid q = txid \<and> o_tx_index q = u32_cast index \<and> o_coinbase q = cb \<and>
      o_commit_id q = bh_commit h \<and> o_block_height q = bh_height h \<and>
      o_block_hash q = bh_hash h \<and> o_block_time q = bh_time h"
    using ihd ohd by (simp_all add: in_headed_def out_headed_def)
  have one32: "u32_cast (Suc 0) = Suc 0" by (simp add: u32_cast_def u32_lim_def)
  have "balanced_tx ?t iz os"
  proof (cases "cb = 0")
    case True
    with fee have bal: "itot = otot + fee" by (auto simp: checked_sub_Some_add)
    have iidx': "map i_input_index iz = map u32_cast [0..<length iz]"
      using iidx True ilen by simp
    from True ilen bal oidx' iidx' onz legs olen show ?thesis
      unfolding balanced_tx_def itot otot by simp
  next
    case False
    with cb01 have c1: "cb = 1" by simp
    with fee have "fee = 0" by simp
    with c1 iempty one oidx' onz legs olen one32 show ?thesis
      unfolding balanced_tx_def itot otot by simp
  qed
  moreover have "t_coinbase ?t = (if index = 0 then 1 else 0)"
    using pos cb01 by (cases "index = 0") auto
  moreover have "x_evidence x' = \<lparr>transactions = transactions (x_evidence x) @ [?t],
        outputs = outputs (x_evidence x) @ os, inputs = inputs (x_evidence x) @ iz\<rparr>"
    by (simp add: x' x2 x1)
  moreover have "x_spent x' = x_spent x \<union> set (map in_key iz)" by (simp add: x' x2 x1)
  moreover have "t_tx_index ?t = u32_cast index" by simp
  ultimately show ?thesis using that idis by blast
qed


text \<open>The whole block.\<close>

definition block_inv ::
  "(nat \<times> json) list \<Rightarrow> extraction \<Rightarrow> (transaction \<times> tx_input list \<times> tx_output list) list \<Rightarrow> bool" where
  "block_inv ys x gs \<longleftrightarrow>
     transactions (x_evidence x) = map fst gs \<and>
     inputs (x_evidence x) = concat (map (fst \<circ> snd) gs) \<and>
     outputs (x_evidence x) = concat (map (snd \<circ> snd) gs) \<and>
     (\<forall>(t, iz, os) \<in> set gs. balanced_tx t iz os) \<and>
     map (t_tx_index \<circ> fst) gs = map (u32_cast \<circ> fst) ys \<and>
     map (t_coinbase \<circ> fst) gs = map (\<lambda>y. if fst y = 0 then 1 else 0) ys \<and>
     distinct (map in_key (inputs (x_evidence x))) \<and>
     x_spent x = set (map in_key (inputs (x_evidence x)))"

lemma extract_block_groups:
  assumes "extract_block lib block commit resolved = Inr ev"
  obtains gs where "grouped ev gs" "distinct (map in_key (inputs ev))"
proof -
  from assms obtain h txs x where
    run: "foldE (extract_tx lib h) (enumerate 0 txs)
            \<lparr>x_evidence = \<lparr>transactions = [], outputs = [], inputs = []\<rparr>,
             x_available = resolved, x_spent = {}\<rparr> = Inr x"
    and ev: "ev = x_evidence x"
    by (auto simp: extract_block_def ok_simps)
  have "\<exists>gs. block_inv (enumerate 0 txs) x gs"
  proof (rule foldE_invariant[OF run])
    show "\<exists>gs. block_inv [] \<lparr>x_evidence = \<lparr>transactions = [], outputs = [], inputs = []\<rparr>,
             x_available = resolved, x_spent = {}\<rparr> gs"
      by (intro exI[of _ "[]"]) (simp add: block_inv_def)
  next
    fix ys y s u
    assume "\<exists>gs. block_inv ys s gs" and step: "extract_tx lib h y s = Inr u"
    then obtain gs where inv: "block_inv ys s gs" by blast
    obtain i tx where y: "y = (i, tx)" by (cases y)
    obtain t iz os av where
      e: "x_evidence u = \<lparr>transactions = transactions (x_evidence s) @ [t],
        outputs = outputs (x_evidence s) @ os, inputs = inputs (x_evidence s) @ iz\<rparr>"
      and "x_available u = av"
      and sp: "x_spent u = x_spent s \<union> set (map in_key iz)"
      and d: "distinct (map in_key iz)" "x_spent s \<inter> set (map in_key iz) = {}"
      and b: "balanced_tx t iz os" "t_tx_index t = u32_cast i"
        "t_coinbase t = (if i = 0 then 1 else 0)"
      by (rule extract_tx_group[OF step[unfolded y]])
    have spent: "x_spent s = set (map in_key (inputs (x_evidence s)))"
      and "distinct (map in_key (inputs (x_evidence s)))"
      using inv unfolding block_inv_def by blast+
    with d have dd: "distinct (map in_key (inputs (x_evidence s) @ iz))"
      by (simp only: map_append distinct_append set_map set_append)
    have "block_inv (ys @ [y]) u (gs @ [(t, iz, os)])"
      unfolding block_inv_def
    proof (intro conjI)
      show "distinct (map in_key (inputs (x_evidence u)))" using dd by (simp only: e evidence.simps)
      show "x_spent u = set (map in_key (inputs (x_evidence u)))" by (simp add: sp spent e)
      show "\<forall>(t, iz, os) \<in> set (gs @ [(t, iz, os)]). balanced_tx t iz os"
        using inv b(1) by (simp add: block_inv_def)
    qed (use inv b in \<open>simp_all add: block_inv_def e y\<close>)
    then show "\<exists>gs. block_inv (ys @ [y]) u gs" by blast
  qed
  then obtain gs where inv: "block_inv (enumerate 0 txs) x gs" by blast
  have len: "length gs = length txs"
    using inv unfolding block_inv_def by (metis length_enumerate length_map)
  have "map (\<lambda>y. if fst y = 0 then 1 else (0::nat)) (enumerate 0 txs) =
        map (\<lambda>k. if k = 0 then 1 else 0) [0..<length txs]"
    using enumerate_fst[of "\<lambda>k. if k = 0 then 1 else (0::nat)" txs] by (simp add: comp_def)
  with inv len have "grouped ev gs"
    by (simp add: block_inv_def grouped_def ev enumerate_fst flip: map_map)
  moreover have "distinct (map in_key (inputs ev))"
    using inv unfolding block_inv_def ev by blast
  ultimately show ?thesis by (rule that)
qed

section \<open>Properties of extraction\<close>

text \<open>C4: evidence extracted from a block splits into one group of inputs and outputs per
  transaction, in order, in which the leg indices are consecutive, headers agree, only the
  first transaction is a coinbase (with no inputs and no fee), and in every other
  transaction the inputs equal the outputs plus the fee, exactly.\<close>

theorem extraction_balances:
  assumes "extract_block lib block commit resolved = Inr ev"
  shows "\<exists>gs. grouped ev gs"
  using extract_block_groups[OF assms] by blast

text \<open>A two-transaction block over a small instance of the third-party functions: scripts are
  hex strings, amounts are whole satoshis.\<close>

definition sample_lib :: btc_lib where
  "sample_lib = \<lparr>lib_address = Some,
     lib_script = (\<lambda>h. if list_all is_hexdigit h \<and> even (length h) then Some (bytes_of_hex h) else None),
     lib_script_address = (\<lambda>bs. if bs = [] then [] else ''1'' @ concat (map show_nat bs)),
     lib_amount = parse_u64, lib_sha_hex = (\<lambda>s. s)\<rparr>"

definition sample_hash :: "char \<Rightarrow> string" where
  "sample_hash c = replicate 64 c"

definition sample_out :: "nat \<Rightarrow> string \<Rightarrow> json" where
  "sample_out n v = JObj [(''n'', JNum (show_nat n)), (''value'', JNum v),
     (''scriptPubKey'', JObj [(''hex'', JStr ''6a''), (''type'', JStr ''nulldata'')])]"

definition sample_block :: json where
  "sample_block = JObj [(''height'', JNum ''7''), (''hash'', JStr (sample_hash (CHR ''a''))),
     (''time'', JNum ''123''), (''tx'', JArr [
       JObj [(''txid'', JStr (sample_hash (CHR ''1''))),
             (''vin'', JArr [JObj [(''coinbase'', JStr ''00'')]]), (''vout'', JArr [sample_out 0 ''50''])],
       JObj [(''txid'', JStr (sample_hash (CHR ''2''))),
             (''vin'', JArr [JObj [(''txid'', JStr (sample_hash (CHR ''1''))), (''vout'', JNum ''0'')]]),
             (''vout'', JArr [sample_out 0 ''20'', sample_out 1 ''29''])]])]"

lemma sample_extracts: "is_ok (extract_block sample_lib sample_block ''c'' Map.empty)"
  by code_simp

theorem extraction_balances_witness:
  "\<exists>ev. extract_block sample_lib sample_block ''c'' Map.empty = Inr ev \<and> (\<exists>gs. grouped ev gs)"
  using sample_extracts extraction_balances unfolding is_ok_iff by blast

text \<open>C5: no outpoint is spent twice within an extracted block.\<close>

theorem extraction_no_double_spend:
  assumes "extract_block lib block commit resolved = Inr ev"
  shows "distinct (spent_keys ev)"
  using extract_block_groups[OF assms] by (metis in_key_def map_eq_conv spent_keys_def)

theorem extraction_no_double_spend_witness:
  "\<exists>ev. extract_block sample_lib sample_block ''c'' Map.empty = Inr ev \<and> distinct (spent_keys ev)"
  using sample_extracts extraction_no_double_spend unfolding is_ok_iff by blast

end
