(* ===== verification/Evidence_Check.thy ===== *)
theory Evidence_Check
  imports Utxo "HOL-Library.Code_Target_Nat"
begin

text \<open>
  The gate every block passes before it is published
  (\<open>validate_evidence\<close> in \<open>dockerizd_bitcoin/src/db/warehouse.rs\<close>): transaction and leg
  counts, ordering, headers, unique spends and value conservation. The hash maps of
  running totals are functions to options; counters are \<open>u32\<close>.
\<close>

record legacy_block =
  lb_height :: nat
  lb_hash :: string
  lb_parent :: string
  lb_time :: nat
  lb_commit :: string
  lb_count :: nat

type_synonym totals = "string \<Rightarrow> (nat \<times> nat) option"

definition total_of :: "totals \<Rightarrow> string \<Rightarrow> nat \<times> nat" where
  "total_of m k = (case m k of None \<Rightarrow> (0, 0) | Some t \<Rightarrow> t)"

definition index_tx ::
  "nat \<times> transaction \<Rightarrow> (string \<Rightarrow> transaction option) \<Rightarrow> (string \<Rightarrow> transaction option) res" where
  "index_tx it m =
     (let (index, t) = it in
      attempt (btc_hash (t_txid t)) (\<lambda>_.
      ensure (t_tx_index t = index \<and> t_coinbase t = (if index = 0 then 1 else 0))
        ''invalid transaction ordering/coinbase''
      (ensure (m (t_txid t) = None) ''duplicate transaction hash within block''
       (Inr (m(t_txid t \<mapsto> t))))))"

definition check_header :: "legacy_block \<Rightarrow> string \<Rightarrow> nat \<Rightarrow> string \<Rightarrow> nat \<Rightarrow> unit res" where
  "check_header lb commit height hash time =
     ensure (commit = lb_commit lb \<and> height = lb_height lb \<and> hash = lb_hash lb \<and> time = lb_time lb)
       ''evidence header does not match source block'' (Inr ())"

definition check_input ::
  "btc_lib \<Rightarrow> legacy_block \<Rightarrow> (string \<Rightarrow> transaction option) \<Rightarrow> tx_input \<Rightarrow>
   totals \<times> (string \<times> nat) set \<Rightarrow> (totals \<times> (string \<times> nat) set) res" where
  "check_input lib lb txs i st =
     (let (totals, spent) = st; total = total_of totals (i_txid i) in
      attempt (so_validate lib (i_output i)) (\<lambda>_.
      attempt (btc_hash (i_prev_txid i)) (\<lambda>_.
      attempt (check_header lb (i_commit_id i) (i_block_height i) (i_block_hash i) (i_block_time i)) (\<lambda>_.
      need (txs (i_txid i)) ''input without transaction'' (\<lambda>t.
      ensure (t_tx_index t = i_tx_index i \<and> t_coinbase t = 0) ''input transaction mismatch''
      (ensure ((i_prev_txid i, i_prev_vout i) \<notin> spent) ''duplicate spent outpoint''
      (ensure (i_input_index i = fst total) ''input index gap/duplicate''
      (need (checked_add64 (snd total) (so_value_sats (i_output i))) ''input total overflow'' (\<lambda>s.
      attempt (raw_from_satoshis (so_value_sats (i_output i))) (\<lambda>_.
       Inr (totals(i_txid i \<mapsto> (wrapping_add32 (fst total) 1, s)),
            insert (i_prev_txid i, i_prev_vout i) spent)))))))))))"

definition check_output ::
  "btc_lib \<Rightarrow> legacy_block \<Rightarrow> (string \<Rightarrow> transaction option) \<Rightarrow> tx_output \<Rightarrow> totals \<Rightarrow> totals res" where
  "check_output lib lb txs q totals =
     (let total = total_of totals (o_txid q) in
      attempt (so_validate lib (o_output q)) (\<lambda>_.
      attempt (check_header lb (o_commit_id q) (o_block_height q) (o_block_hash q) (o_block_time q)) (\<lambda>_.
      need (txs (o_txid q)) ''output without transaction'' (\<lambda>t.
      ensure (t_tx_index t = o_tx_index q \<and> t_coinbase t = o_coinbase q) ''output transaction mismatch''
      (ensure (o_output_index q = fst total) ''output index gap/duplicate''
      (need (checked_add64 (snd total) (so_value_sats (o_output q))) ''output total overflow'' (\<lambda>s.
      attempt (raw_from_satoshis (so_value_sats (o_output q))) (\<lambda>_.
       Inr (totals(o_txid q \<mapsto> (wrapping_add32 (fst total) 1, s)))))))))))"

definition check_tx :: "legacy_block \<Rightarrow> totals \<Rightarrow> totals \<Rightarrow> transaction \<Rightarrow> unit res" where
  "check_tx lb ins outs t =
     (let inputs = total_of ins (t_txid t); outputs = total_of outs (t_txid t) in
      attempt (check_header lb (t_commit_id t) (t_block_height t) (t_block_hash t) (t_block_time t)) (\<lambda>_.
      attempt (raw_from_satoshis (t_output_sats t)) (\<lambda>_.
      attempt (raw_from_satoshis (t_fee_sats t)) (\<lambda>_.
      ensure (outputs = (t_output_count t, t_output_sats t)) ''output totals differ''
      (ensure (wrapping_add32 (fst inputs) (t_coinbase t) = t_input_count t) ''input count differs''
      (ensure (if t_coinbase t = 1 then t_fee_sats t = 0
               else checked_sub (snd inputs) (snd outputs) = Some (t_fee_sats t))
        ''transaction amount conservation failed'' (Inr ())))))))"

definition validate_evidence :: "btc_lib \<Rightarrow> legacy_block \<Rightarrow> evidence \<Rightarrow> unit res" where
  "validate_evidence lib lb ev =
     attempt (btc_hash (lb_hash lb)) (\<lambda>_.
     attempt (if 0 < lb_height lb then attempt (btc_hash (lb_parent lb)) (\<lambda>_. Inr ()) else Inr ()) (\<lambda>_.
     attempt (millis_from_seconds (lb_time lb)) (\<lambda>_.
     ensure (length (transactions ev) = lb_count lb \<and> 0 < lb_count lb)
       ''transaction count differs from complete block''
     (attempt (foldE index_tx (enumerate 0 (transactions ev)) Map.empty) (\<lambda>txs.
      attempt (foldE (check_input lib lb txs) (inputs ev) (Map.empty, {})) (\<lambda>(ins, _).
      attempt (foldE (check_output lib lb txs) (outputs ev) Map.empty) (\<lambda>outs.
      forE (check_tx lb ins outs) (transactions ev))))))))"

section \<open>What the gate admits\<close>

text \<open>The legs of the transaction \<open>k\<close>.\<close>

definition in_legs :: "tx_input list \<Rightarrow> string \<Rightarrow> tx_input list" where
  "in_legs xs k = filter (\<lambda>i. i_txid i = k) xs"

definition out_legs :: "tx_output list \<Rightarrow> string \<Rightarrow> tx_output list" where
  "out_legs xs k = filter (\<lambda>q. o_txid q = k) xs"

lemma in_legs_simps [simp]:
  "in_legs [] k = []"
  "in_legs (xs @ [i]) k = (if i_txid i = k then in_legs xs k @ [i] else in_legs xs k)"
  by (simp_all add: in_legs_def)

lemma out_legs_simps [simp]:
  "out_legs [] k = []"
  "out_legs (xs @ [q]) k = (if o_txid q = k then out_legs xs k @ [q] else out_legs xs k)"
  by (simp_all add: out_legs_def)

definition headed :: "legacy_block \<Rightarrow> string \<Rightarrow> nat \<Rightarrow> string \<Rightarrow> nat \<Rightarrow> bool" where
  "headed lb c h b t \<longleftrightarrow> c = lb_commit lb \<and> h = lb_height lb \<and> b = lb_hash lb \<and> t = lb_time lb"

definition sound_output :: "btc_lib \<Rightarrow> script_output \<Rightarrow> bool" where
  "sound_output lib s \<longleftrightarrow>
     (\<exists>bytes. lib_script lib (so_script_hex s) = Some bytes \<and>
        so_address s = lib_script_address lib bytes) \<and>
     so_script_hex s = ascii_lower (so_script_hex s) \<and> so_value_sats s \<le> btc_supply"

definition sound_input :: "btc_lib \<Rightarrow> legacy_block \<Rightarrow> transaction list \<Rightarrow> tx_input list \<Rightarrow> tx_input \<Rightarrow> bool" where
  "sound_input lib lb ts before i \<longleftrightarrow>
     sound_output lib (i_output i) \<and> is_ok (btc_hash (i_prev_txid i)) \<and>
     headed lb (i_commit_id i) (i_block_height i) (i_block_hash i) (i_block_time i) \<and>
     (\<exists>t \<in> set ts. t_txid t = i_txid i \<and> t_tx_index t = i_tx_index i \<and> t_coinbase t = 0) \<and>
     (i_prev_txid i, i_prev_vout i) \<notin> set (map (\<lambda>j. (i_prev_txid j, i_prev_vout j)) before) \<and>
     i_input_index i = u32_cast (length (in_legs before (i_txid i))) \<and>
     in_values (in_legs before (i_txid i)) + so_value_sats (i_output i) < u64_lim"

definition sound_leg :: "btc_lib \<Rightarrow> legacy_block \<Rightarrow> transaction list \<Rightarrow> tx_output list \<Rightarrow> tx_output \<Rightarrow> bool" where
  "sound_leg lib lb ts before q \<longleftrightarrow>
     sound_output lib (o_output q) \<and>
     headed lb (o_commit_id q) (o_block_height q) (o_block_hash q) (o_block_time q) \<and>
     (\<exists>t \<in> set ts. t_txid t = o_txid q \<and> t_tx_index t = o_tx_index q \<and> t_coinbase t = o_coinbase q) \<and>
     o_output_index q = u32_cast (length (out_legs before (o_txid q))) \<and>
     out_values (out_legs before (o_txid q)) + so_value_sats (o_output q) < u64_lim"

definition sound_tx :: "legacy_block \<Rightarrow> evidence \<Rightarrow> transaction \<Rightarrow> bool" where
  "sound_tx lb ev t \<longleftrightarrow>
     (let is = in_legs (inputs ev) (t_txid t); os = out_legs (outputs ev) (t_txid t) in
      headed lb (t_commit_id t) (t_block_height t) (t_block_hash t) (t_block_time t) \<and>
      t_output_sats t \<le> btc_supply \<and> t_fee_sats t \<le> btc_supply \<and>
      t_output_count t = u32_cast (length os) \<and> t_output_sats t = out_values os \<and>
      t_input_count t = u32_cast (length is + t_coinbase t) \<and>
      (if t_coinbase t = 1 then t_fee_sats t = 0
       else in_values is = t_output_sats t + t_fee_sats t))"

definition admissible :: "btc_lib \<Rightarrow> legacy_block \<Rightarrow> evidence \<Rightarrow> bool" where
  "admissible lib lb ev \<longleftrightarrow>
     is_ok (btc_hash (lb_hash lb)) \<and> (0 < lb_height lb \<longrightarrow> is_ok (btc_hash (lb_parent lb))) \<and>
     lb_time lb * 1000 < u64_lim \<and>
     length (transactions ev) = lb_count lb \<and> 0 < lb_count lb \<and>
     (\<forall>k < length (transactions ev).
        t_tx_index (transactions ev ! k) = k \<and>
        t_coinbase (transactions ev ! k) = (if k = 0 then 1 else 0)) \<and>
     (\<forall>t \<in> set (transactions ev). is_ok (btc_hash (t_txid t))) \<and>
     distinct (map t_txid (transactions ev)) \<and>
     each_after (sound_input lib lb (transactions ev)) (inputs ev) \<and>
     each_after (sound_leg lib lb (transactions ev)) (outputs ev) \<and>
     (\<forall>t \<in> set (transactions ev). sound_tx lb ev t)"

section \<open>The gate decides admissibility\<close>

lemma so_validate_ok [ok_simps]: "so_validate lib s = Inr u \<longleftrightarrow> sound_output lib s"
  by (auto simp: so_validate_def sound_output_def ok_simps)

lemma check_header_ok [ok_simps]: "check_header lb c h b t = Inr u \<longleftrightarrow> headed lb c h b t"
  by (auto simp: check_header_def headed_def ok_simps)

definition tx_map :: "transaction list \<Rightarrow> string \<Rightarrow> transaction option" where
  "tx_map ts k = List.find (\<lambda>t. t_txid t = k) (rev ts)"

lemma tx_map_snoc: "tx_map (ts @ [t]) = (tx_map ts)(t_txid t \<mapsto> t)"
  by (auto simp: tx_map_def)

lemma tx_map_empty: "tx_map [] = Map.empty"
  by (auto simp: tx_map_def)

lemma tx_map_None: "tx_map ts k = None \<longleftrightarrow> k \<notin> t_txid ` set ts"
  by (auto simp: tx_map_def find_None_iff)

lemma tx_map_Some:
  assumes "distinct (map t_txid ts)"
  shows "tx_map ts k = Some t \<longleftrightarrow> t \<in> set ts \<and> t_txid t = k"
proof
  assume "tx_map ts k = Some t"
  then show "t \<in> set ts \<and> t_txid t = k"
    by (auto simp: tx_map_def find_Some_iff rev_nth)
next
  assume t: "t \<in> set ts \<and> t_txid t = k"
  then obtain u where u: "tx_map ts k = Some u" using tx_map_None[of ts k] by force
  then have "u \<in> set ts \<and> t_txid u = k" by (auto simp: tx_map_def find_Some_iff rev_nth)
  with t assms have "u = t" by (auto simp: distinct_map inj_on_def)
  with u show "tx_map ts k = Some t" by simp
qed

lemma index_loop:
  "foldE index_tx (enumerate 0 ts) Map.empty = Inr m \<longleftrightarrow>
     each_after (\<lambda>ys y. is_ok (btc_hash (t_txid (snd y))) \<and> t_tx_index (snd y) = fst y \<and>
        t_coinbase (snd y) = (if fst y = 0 then 1 else 0) \<and> tx_map (map snd ys) (t_txid (snd y)) = None)
       (enumerate 0 ts) \<and>
     m = tx_map ts"
proof -
  have "foldE index_tx xs Map.empty = Inr m \<longleftrightarrow>
     each_after (\<lambda>ys y. is_ok (btc_hash (t_txid (snd y))) \<and> t_tx_index (snd y) = fst y \<and>
        t_coinbase (snd y) = (if fst y = 0 then 1 else 0) \<and> tx_map (map snd ys) (t_txid (snd y)) = None) xs \<and>
     m = tx_map (map snd xs)" for xs
    by (rule foldE_snoc_iff[where I = "\<lambda>ys. tx_map (map snd ys)"])
      (auto simp: index_tx_def ok_simps tx_map_snoc tx_map_empty is_ok_iff)
  then show ?thesis by simp
qed

lemma each_after_enumerate:
  "each_after P (enumerate 0 xs) \<longleftrightarrow> (\<forall>k < length xs. P (enumerate 0 (take k xs)) (k, xs ! k))"
proof -
  have "take k (enumerate 0 xs) = enumerate 0 (take k xs)" for k
    by (rule nth_equalityI) (simp_all add: nth_enumerate_eq)
  then show ?thesis by (simp add: each_after_def nth_enumerate_eq)
qed

lemma distinct_take_iff: "distinct xs \<longleftrightarrow> (\<forall>k < length xs. xs ! k \<notin> set (take k xs))"
  by (induction xs rule: rev_induct) (auto simp: nth_append less_Suc_eq all_conj_distrib)

lemma index_loop_ok:
  "foldE index_tx (enumerate 0 ts) Map.empty = Inr m \<longleftrightarrow>
     (\<forall>k < length ts. t_tx_index (ts ! k) = k \<and> t_coinbase (ts ! k) = (if k = 0 then 1 else 0)) \<and>
     (\<forall>t \<in> set ts. is_ok (btc_hash (t_txid t))) \<and> distinct (map t_txid ts) \<and> m = tx_map ts"
proof -
  have "(\<forall>t \<in> set ts. is_ok (btc_hash (t_txid t))) \<longleftrightarrow>
     (\<forall>k < length ts. is_ok (btc_hash (t_txid (ts ! k))))"
    by (simp add: all_set_conv_all_nth)
  moreover have "distinct (map t_txid ts) \<longleftrightarrow>
     (\<forall>k < length ts. t_txid (ts ! k) \<notin> t_txid ` set (take k ts))"
    by (simp add: distinct_take_iff take_map flip: set_map)
  ultimately show ?thesis
    unfolding index_loop each_after_enumerate fst_conv snd_conv map_snd_enumerate tx_map_None
    by blast
qed

definition in_totals :: "tx_input list \<Rightarrow> totals" where
  "in_totals xs k = (if in_legs xs k = [] then None
     else Some (u32_cast (length (in_legs xs k)), in_values (in_legs xs k)))"

definition out_totals :: "tx_output list \<Rightarrow> totals" where
  "out_totals xs k = (if out_legs xs k = [] then None
     else Some (u32_cast (length (out_legs xs k)), out_values (out_legs xs k)))"

lemma total_of_in: "total_of (in_totals xs) k = (u32_cast (length (in_legs xs k)), in_values (in_legs xs k))"
  by (simp add: total_of_def in_totals_def u32_cast_def)

lemma total_of_out: "total_of (out_totals xs) k = (u32_cast (length (out_legs xs k)), out_values (out_legs xs k))"
  by (simp add: total_of_def out_totals_def u32_cast_def)

lemma wrapping_add32_cast: "wrapping_add32 (u32_cast n) k = u32_cast (n + k)"
  by (simp add: wrapping_add32_def u32_cast_def mod_simps)

lemma in_totals_snoc:
  "in_totals (xs @ [i]) = (in_totals xs)(i_txid i \<mapsto>
     (wrapping_add32 (fst (total_of (in_totals xs) (i_txid i))) 1,
      snd (total_of (in_totals xs) (i_txid i)) + so_value_sats (i_output i)))"
  by (rule ext) (simp add: total_of_in wrapping_add32_cast in_totals_def)

lemma out_totals_snoc:
  "out_totals (xs @ [q]) = (out_totals xs)(o_txid q \<mapsto>
     (wrapping_add32 (fst (total_of (out_totals xs) (o_txid q))) 1,
      snd (total_of (out_totals xs) (o_txid q)) + so_value_sats (o_output q)))"
  by (rule ext) (simp add: total_of_out wrapping_add32_cast out_totals_def)

lemma sound_supply: "sound_output lib s \<Longrightarrow> so_value_sats s \<le> btc_supply"
  by (simp add: sound_output_def)

lemma input_loop_ok:
  assumes "distinct (map t_txid ts)"
  shows "foldE (check_input lib lb (tx_map ts)) xs (Map.empty, {}) = Inr st \<longleftrightarrow>
     each_after (sound_input lib lb ts) xs \<and>
     st = (in_totals xs, set (map (\<lambda>j. (i_prev_txid j, i_prev_vout j)) xs))"
proof (rule foldE_snoc_iff)
  show "(in_totals [], set (map (\<lambda>j. (i_prev_txid j, i_prev_vout j)) [])) = (Map.empty, {})"
    by (auto simp: in_totals_def)
next
  fix ys i t
  show "check_input lib lb (tx_map ts) i
          (in_totals ys, set (map (\<lambda>j. (i_prev_txid j, i_prev_vout j)) ys)) = Inr t \<longleftrightarrow>
        sound_input lib lb ts ys i \<and>
        t = (in_totals (ys @ [i]), set (map (\<lambda>j. (i_prev_txid j, i_prev_vout j)) (ys @ [i])))"
    unfolding check_input_def in_totals_snoc sound_input_def
    by (auto simp: ok_simps tx_map_Some[OF assms] total_of_in is_ok_iff sound_supply)
qed

lemma output_loop_ok:
  assumes "distinct (map t_txid ts)"
  shows "foldE (check_output lib lb (tx_map ts)) xs Map.empty = Inr m \<longleftrightarrow>
     each_after (sound_leg lib lb ts) xs \<and> m = out_totals xs"
proof (rule foldE_snoc_iff)
  show "out_totals [] = Map.empty" by (auto simp: out_totals_def)
next
  fix ys q t
  show "check_output lib lb (tx_map ts) q (out_totals ys) = Inr t \<longleftrightarrow>
        sound_leg lib lb ts ys q \<and> t = out_totals (ys @ [q])"
    unfolding check_output_def out_totals_snoc sound_leg_def
    by (auto simp: ok_simps tx_map_Some[OF assms] total_of_out is_ok_iff sound_supply)
qed

lemma check_tx_ok:
  "check_tx lb (in_totals (inputs ev)) (out_totals (outputs ev)) t = Inr u \<longleftrightarrow> sound_tx lb ev t"
  by (auto simp: check_tx_def sound_tx_def ok_simps total_of_in total_of_out
      checked_sub_Some_add wrapping_add32_cast split: if_splits)

lemma validate_evidence_ok:
  "validate_evidence lib lb ev = Inr u \<longleftrightarrow> admissible lib lb ev"
proof -
  have "(\<exists>x. (if 0 < lb_height lb then attempt (btc_hash (lb_parent lb)) (\<lambda>_. Inr ()) else Inr ()) = Inr x)
     \<longleftrightarrow> (0 < lb_height lb \<longrightarrow> is_ok (btc_hash (lb_parent lb)))"
    by (auto simp: ok_simps is_ok_iff)
  then show ?thesis
    unfolding validate_evidence_def attempt_ok ensure_ok admissible_def index_loop_ok
    by (auto simp: input_loop_ok output_loop_ok ok_simps check_tx_ok millis_from_seconds_def is_ok_iff)
qed

text \<open>C3: the publication gate accepts a block exactly when its evidence is admissible.\<close>

theorem validate_evidence_decides:
  "is_ok (validate_evidence lib lb ev) \<longleftrightarrow> admissible lib lb ev"
  by (simp add: is_ok_iff validate_evidence_ok)

end
