(* ===== verification/Publication.thy ===== *)
theory Publication
  imports Json Identity "HOL-Library.Code_Target_Nat"
begin

text \<open>
  Append-only block publication (\<open>shared/warehouse/src/publication.rs\<close>,
  \<open>core.rs\<close>, \<open>visibility.rs\<close>). The store holds the rows of the three tables the
  protocol writes, in insertion order; the views are the \<open>select\<close>s of
  \<open>shared/warehouse/schema/0005_visibility.json\<close>. \<open>budget\<close> is the number of
  insert requests that still succeed, so that every statement about all budgets is a
  statement about a crash between any two requests. The schema ledger and the column
  contract are the parameters \<open>wh\<close>.
\<close>

record sync_state =
  st_network :: string
  st_revision :: nat
  st_initialized :: nat
  st_start :: nat
  st_last :: nat
  st_hash :: string
  st_observed :: nat
  st_published :: nat

record block =
  b_network :: string
  b_number :: nat
  b_hash :: string
  b_time_ms :: nat
  b_commit :: string
  b_revision :: nat
  b_parent :: string
  b_canonical :: nat
  b_status :: string
  b_tx_count :: nat
  b_receipt :: "nat option"
  b_trace :: "nat option"
  b_prevout :: "nat option"
  b_source :: string
  b_created :: nat
  b_counts :: "(string \<times> nat) list"
  b_evidence :: string

record fact =
  f_network :: string
  f_number :: nat
  f_hash :: string
  f_time_ms :: nat
  f_commit :: string
  f_revision :: nat
  f_key :: string
  f_body :: string

text \<open>A row of \<open>aml_ingestion_failures\<close>.\<close>

record failure =
  e_network :: string
  e_id :: string
  e_block :: nat
  e_hash :: "string option"
  e_operation :: string
  e_status :: string
  e_attempts :: nat
  e_code :: string
  e_message :: string
  e_next_ms :: nat
  e_revision :: nat
  e_created :: nat
  e_tx :: "string option"
  e_retryable :: "nat option"
  e_first :: "nat option"
  e_last :: "nat option"
  e_resolved :: "nat option"
  e_raw :: json

text \<open>A seal of \<open>aml_analysis_publications\<close>, and a row of a derived analysis table: the
  columns the publication reads, and the key columns of the table joined in one text.\<close>

record seal =
  p_network :: string
  p_family :: string
  p_id :: string
  p_source :: nat
  p_block :: nat
  p_hash :: string
  p_output :: nat
  p_status :: string
  p_counts :: "(string \<times> nat) list"
  p_revision :: nat
  p_created :: json

record derived_row =
  d_network :: string
  d_id :: string
  d_revision :: nat
  d_source :: "(json \<times> json) option"
  d_key :: string
  d_body :: json

record store =
  identity :: "string list"
  states :: "sync_state list"
  blocks :: "block list"
  facts :: "(string \<times> fact) list"
  failures :: "failure list"
  seals :: "seal list"
  derived :: "(string \<times> derived_row) list"
  budget :: nat

record wh =
  wh_ledger :: "network \<Rightarrow> unit res"
  wh_block_ok :: "block \<Rightarrow> bool"
  wh_state_ok :: "sync_state \<Rightarrow> bool"
  wh_fact_ok :: "string \<Rightarrow> fact \<Rightarrow> bool"
  wh_json_ok :: "string \<Rightarrow> bool"
  wh_failure_ok :: "failure \<Rightarrow> bool"
  wh_seal_ok :: "seal \<Rightarrow> bool"
  wh_derived_ok :: "string \<Rightarrow> derived_row \<Rightarrow> bool"

definition fact_tables :: "string list" where
  "fact_tables = [''aml_transactions'', ''aml_address_relationships'', ''aml_transaction_features'',
     ''aml_semantic_aml_events'', ''aml_bitcoin_inputs'', ''aml_bitcoin_outputs'', ''aml_evm_logs'',
     ''aml_tron_contracts'', ''aml_metadata_discoveries'', ''aml_bitcoin_scripts'',
     ''aml_evm_traces'', ''aml_raw_transactions'']"

section \<open>Views\<close>

text \<open>\<open>aml_sync_state_current\<close>, and \<open>state\<close> with its default.\<close>

definition sync_row :: "network \<Rightarrow> store \<Rightarrow> sync_state option" where
  "sync_row net s = latest st_revision (filter (\<lambda>r. st_network r = network_id net) (states s))"

definition empty_state :: "network \<Rightarrow> sync_state" where
  "empty_state net = \<lparr>st_network = network_id net, st_revision = 0, st_initialized = 0, st_start = 0,
     st_last = 0, st_hash = [], st_observed = 0, st_published = 0\<rparr>"

definition current_state :: "network \<Rightarrow> store \<Rightarrow> sync_state" where
  "current_state net s = (case sync_row net s of None \<Rightarrow> empty_state net | Some r \<Rightarrow> r)"

definition rows_at :: "network \<Rightarrow> nat \<Rightarrow> nat \<Rightarrow> store \<Rightarrow> block list" where
  "rows_at net n r s =
     filter (\<lambda>b. b_network b = network_id net \<and> b_number b = n \<and> b_revision b \<le> r) (blocks s)"

text \<open>\<open>aml_ingested_blocks_canonical\<close> at one height.\<close>

definition canonical_at :: "network \<Rightarrow> nat \<Rightarrow> store \<Rightarrow> block option" where
  "canonical_at net n s =
     (case sync_row net s of None \<Rightarrow> None
      | Some c \<Rightarrow>
          if st_initialized c = 1 \<and> st_start c \<le> n \<and> n \<le> st_last c
          then (case latest b_revision (rows_at net n (st_revision c) s) of None \<Rightarrow> None
                | Some b \<Rightarrow> if b_canonical b = 1 \<and> b_status b = ''complete'' \<and>
                              (n < st_last c \<or> b_hash b = st_hash c) then Some b else None)
          else None)"

lemma canonical_at_budget: "canonical_at net n (s\<lparr>budget := k\<rparr>) = canonical_at net n s"
proof -
  have "rows_at net n r (s\<lparr>budget := k\<rparr>) = rows_at net n r s" for r by (simp add: rows_at_def)
  then show ?thesis
    by (simp add: canonical_at_def sync_row_def cong: option.case_cong if_cong)
qed

definition canonical_blocks :: "network \<Rightarrow> store \<Rightarrow> block list" where
  "canonical_blocks net s =
     (case sync_row net s of None \<Rightarrow> []
      | Some c \<Rightarrow> List.map_filter (\<lambda>n. canonical_at net n s) [st_start c ..< Suc (st_last c)])"

definition fact_id :: "fact \<Rightarrow> string \<times> nat \<times> string \<times> string \<times> string" where
  "fact_id f = (f_network f, f_number f, f_hash f, f_commit f, f_key f)"

text \<open>The rows of a fact table, read \<open>FINAL\<close>, that belong to one block commit.\<close>

definition committed_facts :: "block \<Rightarrow> string \<Rightarrow> store \<Rightarrow> fact list" where
  "committed_facts b table s =
     filter (\<lambda>f. f_network f = b_network b \<and> f_number f = b_number b \<and> f_hash f = b_hash b \<and>
                 f_commit f = b_commit b \<and> f_revision f = b_revision b)
       (final_rows fact_id f_revision (map snd (filter (\<lambda>(t, f). t = table) (facts s))))"

section \<open>Snapshots\<close>

definition snapshot_of :: "sync_state \<Rightarrow> sync_state res" where
  "snapshot_of st =
     attempt (network_parse (st_network st)) (\<lambda>network.
     ensure (st_initialized st \<le> 1) ''invalid snapshot state''
     (if st_initialized st = 1
      then if 0 < st_revision st \<and> st_start st \<le> st_last st
           then attempt (normalize_hash network (st_hash st)) (\<lambda>h.
                  ensure (h = st_hash st) ''invalid initialized snapshot'' (Inr st))
           else Inl ''invalid initialized snapshot''
      else ensure (st_last st = 0 \<and> st_hash st = []) ''uninitialized snapshot carries a tip'' (Inr st)))"

definition confirmed_tip :: "nat \<Rightarrow> nat \<Rightarrow> nat option" where
  "confirmed_tip observed confirmations =
     Option.bind (checked_sub confirmations 1) (checked_sub observed)"

section \<open>Inserts\<close>

fun put_chunks :: "('a list \<Rightarrow> store \<Rightarrow> store) \<Rightarrow> 'a list list \<Rightarrow> (store, unit) io" where
  "put_chunks put [] s = (Inr (), s)"
| "put_chunks put (c # cs) s =
     (if budget s = 0 then (Inl ''ClickHouse transport failed'', s)
      else put_chunks put cs (put c (s\<lparr>budget := budget s - 1\<rparr>)))"

definition insert_rows ::
  "('a \<Rightarrow> string) \<Rightarrow> ('a \<Rightarrow> bool) \<Rightarrow> ('a list \<Rightarrow> store \<Rightarrow> store) \<Rightarrow> 'a list \<Rightarrow> (store, unit) io" where
  "insert_rows network valid put rows =
     io_ensure (list_all valid rows) ''warehouse row violates its contract''
     (io_ensure (list_all (\<lambda>r. network r = network (hd rows)) rows) ''mixed networks in warehouse insert''
     (io_get identity (\<lambda>ids.
      io_ensure (rows = [] \<or> length ids = 1) ''warehouse database must have one network identity''
     (io_ensure (rows = [] \<or> hd ids = network (hd rows)) ''warehouse insert belongs to another network''
       (put_chunks put (chunks 1000 rows))))))"

definition insert_blocks :: "wh \<Rightarrow> block list \<Rightarrow> (store, unit) io" where
  "insert_blocks w = insert_rows b_network (wh_block_ok w) (\<lambda>c s. s\<lparr>blocks := blocks s @ c\<rparr>)"

definition insert_states :: "wh \<Rightarrow> sync_state list \<Rightarrow> (store, unit) io" where
  "insert_states w = insert_rows st_network (wh_state_ok w) (\<lambda>c s. s\<lparr>states := states s @ c\<rparr>)"

definition insert_facts :: "wh \<Rightarrow> string \<Rightarrow> fact list \<Rightarrow> (store, unit) io" where
  "insert_facts w table =
     insert_rows f_network (wh_fact_ok w table) (\<lambda>c s. s\<lparr>facts := facts s @ map (Pair table) c\<rparr>)"

section \<open>The publication protocol\<close>

definition next_revision :: "network \<Rightarrow> nat \<Rightarrow> (store, nat) io" where
  "next_revision net previous =
     io_get (\<lambda>s. Max (insert 0 (set (map b_revision
                   (filter (\<lambda>b. b_network b = network_id net) (blocks s)))))) (\<lambda>written.
     io_need (checked_add64 (max previous written) 3) ''warehouse revision exhausted'' io_return)"

definition network_by_id :: "string \<Rightarrow> network option" where
  "network_by_id raw = List.find (\<lambda>n. network_id n = raw) network_ALL"

definition reserve :: "wh \<Rightarrow> block \<Rightarrow> (store, unit) io" where
  "reserve w b =
     io_ensure (2 \<le> b_revision b \<and> b_canonical b = 1 \<and> b_status b = ''complete'') ''invalid complete block''
     (io_need (network_by_id (b_network b)) ''unknown publication network'' (\<lambda>net.
      io_attempt (wh_ledger w net) (\<lambda>_.
      insert_blocks w [b\<lparr>b_revision := b_revision b - 1, b_canonical := 0, b_status := ''processing'',
                         b_counts := [], b_evidence := ''{}''\<rparr>])))"

definition fact_matches :: "block \<Rightarrow> fact \<Rightarrow> bool" where
  "fact_matches b f \<longleftrightarrow> f_network f = b_network b \<and> f_number f = b_number b \<and> f_hash f = b_hash b \<and>
     f_time_ms f = b_time_ms b \<and> f_commit f = b_commit b \<and> f_revision f = b_revision b"

definition put_facts :: "wh \<Rightarrow> block \<Rightarrow> string \<Rightarrow> fact list \<Rightarrow> (store, unit) io" where
  "put_facts w b table rows =
     io_ensure (table \<in> set fact_tables) ''unsupported block fact table''
     (io_ensure (list_all (fact_matches b) rows) ''fact does not match block publication''
      (insert_facts w table rows))"

definition complete_block :: "wh \<Rightarrow> block \<Rightarrow> (string \<times> nat) list \<Rightarrow> string \<Rightarrow> (store, unit) io" where
  "complete_block w b counts raw =
     io_ensure (map_of counts ''aml_transactions'' = Some (b_tx_count b))
       ''complete marker requires exact transaction-family coverage''
     (io_ensure (b_canonical b = 1 \<and> b_status b = ''complete'') ''invalid complete core marker''
     (io_ensure (wh_json_ok w raw) ''block source evidence must be JSON''
     (io_ensure (list_all (\<lambda>(t, n). t \<in> set fact_tables) counts) ''unknown fact family in block counts''
     (io_ensure (wh_block_ok w (b\<lparr>b_counts := counts, b_evidence := raw\<rparr>))
       ''warehouse row violates its contract''
     (io_then
       (io_for (\<lambda>(t, n). io_get (\<lambda>s. length (committed_facts b t s)) (\<lambda>actual.
          io_ensure (actual = n) ''incomplete core commit'' (io_return ()))) counts)
       (\<lambda>_. insert_blocks w [b\<lparr>b_counts := counts, b_evidence := raw\<rparr>]))))))"

text \<open>\<open>publication::complete\<close>: the counts are read back from every fact table.\<close>

definition complete_counted :: "wh \<Rightarrow> block \<Rightarrow> (store, unit) io" where
  "complete_counted w b =
     io_attempt (network_parse (b_network b)) (\<lambda>net.
     io_attempt (wh_ledger w net) (\<lambda>_.
     io_get (\<lambda>s. map (\<lambda>t. (t, length (committed_facts b t s))) fact_tables) (\<lambda>counts.
     complete_block w b counts ''{}'')))"

text \<open>The rows above the new tip (all rows when the state becomes uninitialised) are written
  again at the new revision, no longer canonical.\<close>

definition orphan_suffix :: "wh \<Rightarrow> network \<Rightarrow> sync_state \<Rightarrow> sync_state \<Rightarrow> (store, unit) io" where
  "orphan_suffix w net previous next =
     io_get (\<lambda>s. filter (\<lambda>b. st_initialized next = 1 \<longrightarrow> st_last next < b_number b)
                   (canonical_blocks net s)) (\<lambda>rows.
     io_ensure (length rows \<le> 10000) ''rollback exceeds the common 10000-block bound''
     (io_ensure (rows \<noteq> [] \<or> st_last previous = 0) ''rollback has no canonical suffix''
      (insert_blocks w (map (\<lambda>b. b\<lparr>b_revision := st_revision next, b_canonical := 0,
                                      b_status := ''orphaned''\<rparr>) rows))))"

definition rolls_back :: "sync_state \<Rightarrow> sync_state \<Rightarrow> bool" where
  "rolls_back previous next \<longleftrightarrow>
     st_initialized previous = 1 \<and> (st_initialized next = 0 \<or> st_last next < st_last previous)"

text \<open>The checks between two initialised states.\<close>

definition range_check :: "sync_state \<Rightarrow> sync_state \<Rightarrow> unit res" where
  "range_check previous next =
     (if st_initialized previous = 1 \<and> st_initialized next = 1 then
        ensure (st_start next = st_start previous) ''cannot change an initialized observed range''
        (ensure (st_last next = st_last previous \<longrightarrow> st_hash next = st_hash previous)
          ''a replacement branch requires rollback first''
        (ensure (st_last previous < st_last next \<longrightarrow>
                 checked_add64 (st_last previous) 1 = Some (st_last next))
          ''cannot publish a block gap'' (Inr ())))
      else Inr ())"

definition marker_row :: "network \<Rightarrow> sync_state \<Rightarrow> sync_state \<Rightarrow> store \<Rightarrow> block option" where
  "marker_row net previous next s =
     (if rolls_back previous next
      then (case canonical_at net (st_last next) s of None \<Rightarrow> None
            | Some b \<Rightarrow> if b_revision b \<le> st_revision next then Some b else None)
      else latest b_revision (rows_at net (st_last next) (st_revision next) s))"

definition marker_check :: "network \<Rightarrow> sync_state \<Rightarrow> sync_state \<Rightarrow> store \<Rightarrow> unit res" where
  "marker_check net previous next s =
     (if st_initialized next = 1 then
        ensure (st_start next \<le> st_last next) ''invalid publication range''
        (need (marker_row net previous next s) ''cannot publish a missing block'' (\<lambda>b.
         ensure (b_hash b = st_hash next \<and> b_canonical b = 1 \<and> b_status b = ''complete'')
           ''cannot publish an incomplete or conflicting block''
         (if \<not> rolls_back previous next \<and>
             (st_initialized previous = 0 \<or> st_last previous < st_last next)
          then ensure (b_revision b = st_revision next)
                 ''publication must use the exact complete-marker revision''
               (ensure (st_initialized previous = 0 \<or> b_parent b = st_hash previous)
                 ''publication parent mismatch'' (Inr ()))
          else Inr ())))
      else Inr ())"

definition publish :: "wh \<Rightarrow> network \<Rightarrow> sync_state \<Rightarrow> sync_state \<Rightarrow> (store, unit) io" where
  "publish w net previous next =
     io_ensure (st_network next = network_id net \<and> st_network previous = network_id net)
       ''publication network mismatch''
     (io_ensure (st_revision previous < st_revision next \<and> st_initialized next \<le> 1)
       ''invalid publication revision''
     (io_get (current_state net) (\<lambda>cur.
      io_ensure (cur = previous) ''warehouse checkpoint changed; single writer ownership required''
     (io_attempt (snapshot_of previous) (\<lambda>_.
      io_attempt (snapshot_of next) (\<lambda>_.
      io_attempt (range_check previous next) (\<lambda>_.
      io_get (marker_check net previous next) (\<lambda>checked.
      io_attempt checked (\<lambda>_.
      io_then (if rolls_back previous next then orphan_suffix w net previous next else io_return ()) (\<lambda>_.
      io_get (current_state net) (\<lambda>again.
      io_ensure (again = previous) ''checkpoint changed before publication; exclusive writer required''
       (insert_states w [next]))))))))))))"

text \<open>\<open>publish_batch\<close> of the core contract.\<close>

definition batch_state :: "sync_state \<Rightarrow> block \<Rightarrow> sync_state" where
  "batch_state previous b = \<lparr>st_network = st_network previous, st_revision = b_revision b,
     st_initialized = 1,
     st_start = (if st_initialized previous = 1 then st_start previous else b_number b),
     st_last = b_number b, st_hash = b_hash b,
     st_observed = max (st_observed previous) (b_number b), st_published = b_created b\<rparr>"

definition batch_checks :: "wh \<Rightarrow> sync_state \<Rightarrow> block \<Rightarrow> (string \<times> fact list) list \<Rightarrow> network res" where
  "batch_checks w previous b tables =
     ensure (st_initialized previous \<le> 1 \<and> st_revision previous < b_revision b)
       ''invalid core publication fence''
     (ensure (b_canonical b = 1 \<and> b_status b = ''complete'') ''a core batch must describe a complete block''
     (attempt (network_parse (b_network b)) (\<lambda>net.
      ensure (st_network previous = network_id net) ''core batch network mismatch''
     (need (if st_initialized previous = 1 then checked_add64 (st_last previous) 1 else Some (b_number b))
        ''height exhausted'' (\<lambda>expected.
      ensure (b_number b = expected) ''noncontiguous core batch''
     (ensure (st_initialized previous = 0 \<or> b_parent b = st_hash previous) ''core parent mismatch''
     (need (map_of tables ''aml_transactions'') ''transaction family coverage is required'' (\<lambda>txs.
      ensure (length txs = b_tx_count b) ''block transaction count mismatch''
     (ensure (list_all (\<lambda>(t, rows). t \<in> set fact_tables \<and> list_all (wh_fact_ok w t) rows \<and>
                list_all (fact_matches b) rows) tables) ''core row header mismatch''
       (Inr net))))))))))"

definition publish_batch ::
  "wh \<Rightarrow> sync_state \<Rightarrow> block \<Rightarrow> (string \<times> fact list) list \<Rightarrow> string \<Rightarrow> (store, sync_state) io" where
  "publish_batch w previous b tables raw =
     io_attempt (batch_checks w previous b tables) (\<lambda>net.
     io_ensure (wh_json_ok w raw) ''block source evidence must be JSON''
     (io_ensure (wh_block_ok w (b\<lparr>b_counts := map (\<lambda>(t, rows). (t, length rows)) tables, b_evidence := raw\<rparr>))
       ''warehouse row violates its contract''
     (io_then (reserve w b) (\<lambda>_.
      io_then (io_for (\<lambda>(t, rows). put_facts w b t rows) tables) (\<lambda>_.
      io_then (complete_block w b (map (\<lambda>(t, rows). (t, length rows)) tables) raw) (\<lambda>_.
      io_then (publish w net previous (batch_state previous b)) (\<lambda>_.
      io_return (batch_state previous b))))))))"

section \<open>Append-only tables\<close>

text \<open>What the protocol relies on of each table: an insert only appends, and touches nothing
  else. Every insert then leaves the old rows followed by a prefix of the new ones, all of
  them when it succeeds.\<close>

locale append_log =
  fixes rows :: "store \<Rightarrow> 'r list"
    and frame :: "store \<Rightarrow> 'f"
    and put :: "'r list \<Rightarrow> store \<Rightarrow> store"
  assumes rows_put: "rows (put c s) = rows s @ c"
    and frame_put: "frame (put c s) = frame s"
    and rows_budget: "rows (s\<lparr>budget := n\<rparr>) = rows s"
    and frame_budget: "frame (s\<lparr>budget := n\<rparr>) = frame s"
begin

lemma put_chunks_appends:
  assumes "put_chunks put cs s = (r, t)"
  shows "\<exists>k \<le> length cs. rows t = rows s @ concat (take k cs) \<and> frame t = frame s \<and>
    (r = Inr () \<longleftrightarrow> k = length cs)"
  using assms
proof (induction cs arbitrary: s)
  case (Cons c cs)
  show ?case
  proof (cases "budget s = 0")
    case True
    with Cons.prems show ?thesis by (auto intro!: exI[of _ 0])
  next
    case False
    with Cons.prems Cons.IH[of "put c (s\<lparr>budget := budget s - 1\<rparr>)"]
    obtain k where "k \<le> length cs" "rows t = rows s @ c @ concat (take k cs)" "frame t = frame s"
        "r = Inr () \<longleftrightarrow> k = length cs"
      by (auto simp: rows_put frame_put rows_budget frame_budget)
    then show ?thesis by (intro exI[of _ "Suc k"]) simp
  qed
qed auto

lemma insert_appends:
  assumes "insert_rows network valid put xs s = (r, t)"
  shows "\<exists>ys zs. xs = ys @ zs \<and> rows t = rows s @ ys \<and> frame t = frame s \<and>
    (r = Inr () \<longleftrightarrow> zs = [])"
proof -
  have "(\<exists>e. r = Inl e \<and> t = s \<and> xs \<noteq> []) \<or> put_chunks put (chunks 1000 xs) s = (r, t)"
    using assms by (auto simp: insert_rows_def io_ensure_def io_get_def split: if_splits)
  then show ?thesis
  proof
    assume "\<exists>e. r = Inl e \<and> t = s \<and> xs \<noteq> []"
    then show ?thesis by (intro exI[of _ "[]"] exI[of _ xs]) auto
  next
    let ?cs = "chunks 1000 xs"
    assume "put_chunks put ?cs s = (r, t)"
    from put_chunks_appends[OF this] obtain k where k: "k \<le> length ?cs"
      "rows t = rows s @ concat (take k ?cs)" "frame t = frame s" "r = Inr () \<longleftrightarrow> k = length ?cs"
      by blast
    have "concat (drop k ?cs) = [] \<longleftrightarrow> k = length ?cs"
    proof
      assume "concat (drop k ?cs) = []"
      then have "drop k ?cs = []"
        using chunks_bound[of _ 1000 xs] by (metis concat_eq_Nil_conv in_set_dropD list.set_intros(1) neq_Nil_conv)
      with k(1) show "k = length ?cs" by simp
    qed simp
    moreover have "xs = concat (take k ?cs) @ concat (drop k ?cs)"
      using concat_chunks[of 1000 xs] by (simp flip: concat_append)
    ultimately show ?thesis using k by metis
  qed
qed

end

interpretation block_log: append_log blocks "\<lambda>s. (identity s, states s, facts s, failures s, seals s, derived s)" "\<lambda>c s. s\<lparr>blocks := blocks s @ c\<rparr>"
  by unfold_locales auto

interpretation state_log: append_log states "\<lambda>s. (identity s, blocks s, facts s, failures s, seals s, derived s)" "\<lambda>c s. s\<lparr>states := states s @ c\<rparr>"
  by unfold_locales auto

interpretation fact_log: append_log
    "\<lambda>s. map snd (filter (\<lambda>(t, f). t = table) (facts s))"
    "\<lambda>s. (identity s, states s, blocks s, filter (\<lambda>(t, f). t \<noteq> table) (facts s), failures s, seals s, derived s)"
    "\<lambda>c s. s\<lparr>facts := facts s @ map (Pair table) c\<rparr>" for table
  by unfold_locales (auto simp: filter_map comp_def)

section \<open>Rows hidden from a checkpoint\<close>

text \<open>A block row that no read under the checkpoint \<open>c\<close> can select.\<close>

definition hidden :: "sync_state \<Rightarrow> block \<Rightarrow> bool" where
  "hidden c b \<longleftrightarrow> st_initialized c \<noteq> 1 \<or> st_revision c < b_revision b \<or>
     b_number b < st_start c \<or> st_last c < b_number b"

definition ahead :: "sync_state \<Rightarrow> store \<Rightarrow> store \<Rightarrow> bool" where
  "ahead c s t \<longleftrightarrow> identity t = identity s \<and> states t = states s \<and>
     (\<exists>new. blocks t = blocks s @ new \<and> (\<forall>b \<in> set new. hidden c b))"

lemma ahead_refl: "ahead c s s"
  by (simp add: ahead_def)

lemma ahead_trans: "ahead c s t \<Longrightarrow> ahead c t u \<Longrightarrow> ahead c s u"
  by (auto simp: ahead_def)

interpretation ahead: effect_order "ahead c" for c
  by unfold_locales (auto intro: ahead_refl ahead_trans)

lemma insert_blocks_appends:
  assumes "insert_blocks w xs s = (r, t)"
  shows "\<exists>ys zs. xs = ys @ zs \<and> blocks t = blocks s @ ys \<and> identity t = identity s \<and>
    states t = states s \<and> facts t = facts s \<and> (r = Inr () \<longleftrightarrow> zs = [])"
  using block_log.insert_appends[OF assms[unfolded insert_blocks_def]] by auto

lemma insert_states_appends:
  assumes "insert_states w xs s = (r, t)"
  shows "\<exists>ys zs. xs = ys @ zs \<and> states t = states s @ ys \<and> identity t = identity s \<and>
    blocks t = blocks s \<and> facts t = facts s \<and> (r = Inr () \<longleftrightarrow> zs = [])"
  using state_log.insert_appends[OF assms[unfolded insert_states_def]] by auto

lemma insert_facts_keeps:
  assumes "insert_facts w table xs s = (r, t)"
  shows "states t = states s \<and> blocks t = blocks s \<and> identity t = identity s"
  using fact_log.insert_appends[OF assms[unfolded insert_facts_def]] by auto

lemma leads_insert_blocks:
  assumes "\<forall>b \<in> set xs. hidden c b"
  shows "leads (ahead c) (insert_blocks w xs)"
  unfolding leads_def
proof
  fix s
  obtain r t where "insert_blocks w xs s = (r, t)" by (metis surj_pair)
  with insert_blocks_appends[OF this] assms show "ahead c s (snd (insert_blocks w xs s))"
    by (auto simp: ahead_def)
qed

lemma leads_insert_facts: "leads (ahead c) (insert_facts w table xs)"
  unfolding leads_def
proof
  fix s
  obtain r t where "insert_facts w table xs s = (r, t)" by (metis surj_pair)
  with insert_facts_keeps[OF this] show "ahead c s (snd (insert_facts w table xs s))"
    by (auto simp: ahead_def)
qed

lemma leads_reserve:
  assumes "hidden c (b\<lparr>b_revision := b_revision b - 1\<rparr>)"
  shows "leads (ahead c) (reserve w b)"
  using assms unfolding reserve_def hidden_def
  by (intro ahead.leads_steps leads_insert_blocks) (auto simp: hidden_def)

lemma leads_put_facts: "leads (ahead c) (put_facts w b table rows)"
  unfolding put_facts_def by (intro ahead.leads_steps leads_insert_facts)

lemma leads_complete:
  assumes "hidden c b"
  shows "leads (ahead c) (complete_block w b counts raw)"
  using assms unfolding complete_block_def hidden_def
  by (intro ahead.leads_steps leads_insert_blocks) (auto simp: hidden_def intro!: ahead.leads_steps)

lemma leads_orphan:
  assumes "st_revision c < st_revision next"
  shows "leads (ahead c) (orphan_suffix w net previous next)"
  using assms unfolding orphan_suffix_def
  by (intro ahead.leads_steps leads_insert_blocks) (auto simp: hidden_def)

text \<open>Reads under a checkpoint do not see what is ahead of it.\<close>

lemma ahead_sync_row: "ahead c s t \<Longrightarrow> sync_row net t = sync_row net s"
  by (simp add: ahead_def sync_row_def)

lemma ahead_current: "ahead c s t \<Longrightarrow> current_state net t = current_state net s"
  by (simp add: current_state_def ahead_sync_row)

lemma ahead_rows:
  assumes "ahead c s t" "st_initialized c = 1" "st_start c \<le> n" "n \<le> st_last c"
  shows "rows_at net n (st_revision c) t = rows_at net n (st_revision c) s"
  using assms by (fastforce simp: ahead_def rows_at_def hidden_def filter_empty_conv)

lemma ahead_canonical:
  assumes "ahead (current_state net s) s t"
  shows "canonical_at net n t = canonical_at net n s"
proof (cases "sync_row net s")
  case None
  then show ?thesis by (simp add: canonical_at_def ahead_sync_row[OF assms])
next
  case (Some c)
  then have "ahead c s t" using assms by (simp add: current_state_def)
  with Some show ?thesis
    by (auto simp: canonical_at_def ahead_sync_row[OF assms] ahead_rows)
qed

section \<open>Outcomes of a publication\<close>

lemma insert_one_state:
  assumes "insert_states w [n] s = (r, t)"
  shows "(\<exists>e. r = Inl e) \<and> states t = states s \<and> blocks t = blocks s \<and> identity t = identity s \<or>
    r = Inr () \<and> states t = states s @ [n] \<and> blocks t = blocks s \<and> identity t = identity s"
proof -
  from insert_states_appends[OF assms] obtain ys zs where
    "[n] = ys @ zs" "states t = states s @ ys" "identity t = identity s"
    "blocks t = blocks s" "r = Inr () \<longleftrightarrow> zs = []"
    by blast
  then show ?thesis by (cases r; cases ys) auto
qed

definition published :: "sync_state \<Rightarrow> store \<Rightarrow> store \<Rightarrow> bool" where
  "published n u t \<longleftrightarrow> states t = states u @ [n] \<and> blocks t = blocks u \<and> identity t = identity u"

lemma publish_ok:
  assumes "publish w net p n s = (Inr x, t)"
  obtains u where "current_state net s = p" "st_network n = network_id net"
    "st_revision p < st_revision n" "is_ok (snapshot_of n)" "range_check p n = Inr ()"
    "marker_check net p n s = Inr ()" "ahead p s u" "published n u t"
    "if rolls_back p n then orphan_suffix w net p n s = (Inr (), u) else u = s"
proof -
  from assms obtain u y where
    c: "current_state net s = p" "st_network n = network_id net"
    "st_revision p < st_revision n" "is_ok (snapshot_of n)" "range_check p n = Inr ()"
    "marker_check net p n s = Inr ()"
    and m: "(if rolls_back p n then orphan_suffix w net p n else io_return ()) s = (Inr (), u)"
    and i: "insert_states w [n] u = (Inr x, t)"
    by (auto simp: publish_def io_simps is_ok_iff)
  have "ahead p s u"
    using leads_orphan[OF c(3), of w net p] m
    by (auto simp: leads_def io_return_def ahead_refl split: if_splits) (metis snd_conv)
  moreover have "published n u t"
    using insert_one_state[OF i] by (auto simp: published_def)
  moreover have "if rolls_back p n then orphan_suffix w net p n s = (Inr (), u) else u = s"
    using m by (auto simp: io_return_def split: if_splits)
  ultimately show ?thesis using that c by blast
qed

lemma publish_error:
  assumes "publish w net p n s = (Inl e, t)"
  shows "ahead p s t"
proof -
  let ?m = "if rolls_back p n then orphan_suffix w net p n else io_return ()"
  have tail: "ahead p s' t'" if "insert_states w [n] s' = (Inl e', t')" for s' t' e'
    using insert_one_state[OF that] by (auto simp: ahead_def)
  show ?thesis
  proof (cases "st_revision p < st_revision n")
    case False
    then show ?thesis using assms by (auto simp: publish_def io_ensure_def ahead_refl split: if_splits)
  next
    case True
    have lead: "ahead p s (snd (?m s))"
      using leads_orphan[OF True, of w net p] by (simp add: leads_def io_return_def ahead_refl)
    obtain r u where m: "?m s = (r, u)" by (metis surj_pair)
    with lead have su: "ahead p s u" by simp
    have "t = s \<or> t = u \<or> insert_states w [n] u = (Inl e, t)"
      using assms m
      by (auto simp: publish_def io_ensure_def io_get_def io_attempt_def io_then_def
          split: if_splits sum.splits)
    then show ?thesis using su tail ahead_refl ahead_trans by blast
  qed
qed

text \<open>Without a rollback a publication that fails writes no block at all.\<close>

lemma publish_forward_error:
  assumes "publish w net p n s = (Inl e, t)" "\<not> rolls_back p n"
  shows "ahead c s t"
proof -
  have tail: "ahead c s t" if "insert_states w [n] s = (Inl e, t)"
    using insert_one_state[OF that] by (auto simp: ahead_def)
  from assms have "t = s \<or> insert_states w [n] s = (Inl e, t)"
    by (auto simp: publish_def io_ensure_def io_get_def io_attempt_def io_then_def io_return_def split: if_splits sum.splits)
  with tail show ?thesis by (auto simp: ahead_refl)
qed

section \<open>The chain under the checkpoint\<close>

text \<open>Every height of the published range has a canonical block, linked to its predecessor.\<close>

definition chain_ok :: "network \<Rightarrow> store \<Rightarrow> bool" where
  "chain_ok net s \<longleftrightarrow>
     (let c = current_state net s in st_initialized c = 1 \<longrightarrow>
      (\<forall>n \<in> {st_start c..st_last c}.
        case canonical_at net n s of None \<Rightarrow> False
        | Some b \<Rightarrow> st_start c < n \<longrightarrow>
            map_option b_hash (canonical_at net (n - 1) s) = Some (b_parent b)))"

lemma chain_ok_iff:
  "chain_ok net s \<longleftrightarrow> (let c = current_state net s in st_initialized c = 1 \<longrightarrow>
      (\<forall>n. st_start c \<le> n \<and> n \<le> st_last c \<longrightarrow>
        (\<exists>b. canonical_at net n s = Some b \<and>
           (st_start c < n \<longrightarrow> (\<exists>a. canonical_at net (n - 1) s = Some a \<and> b_parent b = b_hash a)))))"
proof -
  have "(case v of None \<Rightarrow> False | Some b \<Rightarrow> c \<longrightarrow> map_option b_hash u = Some (b_parent b)) \<longleftrightarrow>
    (\<exists>b. v = Some b \<and> (c \<longrightarrow> (\<exists>a. u = Some a \<and> b_parent b = b_hash a)))" for v u c
    by (cases v; cases u) auto
  note eq = this
  show ?thesis unfolding chain_ok_def Let_def eq by auto
qed

text \<open>No row inside the published range is newer than the checkpoint.\<close>

definition settled :: "network \<Rightarrow> store \<Rightarrow> bool" where
  "settled net s \<longleftrightarrow>
     (let c = current_state net s in st_initialized c = 1 \<longrightarrow>
      (\<forall>b \<in> set (blocks s). b_network b = network_id net \<and> st_start c \<le> b_number b \<and>
         b_number b \<le> st_last c \<longrightarrow> b_revision b \<le> st_revision c))"

definition rows_below :: "network \<Rightarrow> nat \<Rightarrow> store \<Rightarrow> bool" where
  "rows_below net r s \<longleftrightarrow> (\<forall>b \<in> set (blocks s). b_network b = network_id net \<longrightarrow> b_revision b \<le> r)"

lemma sync_row_current:
  "sync_row net s = Some c \<Longrightarrow> current_state net s = c"
  "st_initialized (current_state net s) = 1 \<Longrightarrow> sync_row net s = Some (current_state net s)"
  by (auto simp: current_state_def empty_state_def split: option.splits)

lemma published_sync_row:
  assumes "published n u t" "st_network n = network_id net"
    and "st_revision (current_state net u) < st_revision n"
  shows "sync_row net t = Some n"
proof -
  let ?rows = "filter (\<lambda>r. st_network r = network_id net) (states u)"
  have "\<forall>r \<in> set ?rows. st_revision r \<le> st_revision n"
  proof
    fix r assume r: "r \<in> set ?rows"
    then have "?rows \<noteq> []" by (metis list.distinct(1) list.set_cases)
    then obtain c where c: "latest st_revision ?rows = Some c" by (metis latest_None option.exhaust)
    with r have "st_revision r \<le> st_revision c" using latest_in[OF c] by blast
    moreover have "current_state net u = c" using c by (simp add: current_state_def sync_row_def)
    ultimately show "st_revision r \<le> st_revision n" using assms(3) by simp
  qed
  from latest_above[OF this] show ?thesis
    using assms(1,2) by (simp add: sync_row_def published_def)
qed

lemma rows_at_settled:
  assumes "settled net s" "current_state net s = p" "st_initialized p = 1"
    and "st_start p \<le> k" "k \<le> st_last p" "st_revision p \<le> r"
    and "blocks t = blocks s @ new" "\<forall>b \<in> set new. b_number b \<noteq> k"
  shows "rows_at net k r t = rows_at net k (st_revision p) s"
proof -
  have "filter (\<lambda>b. b_network b = network_id net \<and> b_number b = k \<and> b_revision b \<le> r) new = []"
    using assms(8) by (auto simp: filter_empty_conv)
  moreover have "(b_network b = network_id net \<and> b_number b = k \<and> b_revision b \<le> r) \<longleftrightarrow>
    (b_network b = network_id net \<and> b_number b = k \<and> b_revision b \<le> st_revision p)"
    if "b \<in> set (blocks s)" for b
    using assms(1-6) that by (fastforce simp: settled_def Let_def)
  ultimately show ?thesis by (simp add: rows_at_def assms(7) cong: filter_cong)
qed

lemma canonical_at_iff:
  assumes "sync_row net s = Some c"
  shows "canonical_at net n s = Some b \<longleftrightarrow>
    st_initialized c = 1 \<and> st_start c \<le> n \<and> n \<le> st_last c \<and>
    latest b_revision (rows_at net n (st_revision c) s) = Some b \<and> b_canonical b = 1 \<and>
    b_status b = ''complete'' \<and> (n < st_last c \<or> b_hash b = st_hash c)"
  by (auto simp: canonical_at_def assms split: option.splits)

lemma orphan_rows:
  assumes "orphan_suffix w net p n s = (Inr (), u)" "st_initialized n = 1"
  obtains new where "blocks u = blocks s @ new" "states u = states s"
    "\<forall>b \<in> set new. st_last n < b_number b \<and> b_revision b = st_revision n"
proof -
  let ?f = "\<lambda>b. b\<lparr>b_revision := st_revision n, b_canonical := 0, b_status := ''orphaned''\<rparr>"
  from assms(1) have "insert_blocks w (map ?f
      (filter (\<lambda>b. st_initialized n = 1 \<longrightarrow> st_last n < b_number b) (canonical_blocks net s))) s = (Inr (), u)"
    by (auto simp: orphan_suffix_def io_simps)
  from insert_blocks_appends[OF this] obtain ys where
    "ys = map ?f (filter (\<lambda>b. st_initialized n = 1 \<longrightarrow> st_last n < b_number b) (canonical_blocks net s))"
    "blocks u = blocks s @ ys" "states u = states s"
    by auto
  then show ?thesis using assms(2) by (intro that[of ys]) auto
qed

text \<open>What publication leaves of the rows inside the new range.\<close>

lemma publish_rows:
  assumes "publish w net p n s = (Inr x, t)" "rows_below net (st_revision n) s"
  obtains new where "sync_row net t = Some n" "blocks t = blocks s @ new"
    "\<forall>b \<in> set new. b_revision b = st_revision n \<or> st_initialized n = 0"
    "\<forall>b \<in> set new. st_initialized n = 1 \<longrightarrow> rolls_back p n \<and> st_last n < b_number b"
proof -
  from publish_ok[OF assms(1)] obtain u where
    c: "current_state net s = p" "st_network n = network_id net" "st_revision p < st_revision n"
    and a: "ahead p s u" and pub: "published n u t"
    and m: "if rolls_back p n then orphan_suffix w net p n s = (Inr (), u) else u = s"
    by metis
  have "sync_row net t = Some n"
    using published_sync_row[OF pub c(2)] c ahead_current[OF a, of net] by simp
  moreover obtain new where "blocks u = blocks s @ new"
    "\<forall>b \<in> set new. b_revision b = st_revision n \<or> st_initialized n = 0"
    "\<forall>b \<in> set new. st_initialized n = 1 \<longrightarrow> rolls_back p n \<and> st_last n < b_number b"
  proof (cases "st_initialized n = 1 \<and> rolls_back p n")
    case True
    then obtain new where "blocks u = blocks s @ new" "\<forall>b \<in> set new. st_last n < b_number b \<and> b_revision b = st_revision n"
      using m by (metis orphan_rows)
    with True show ?thesis by (intro that[of new]) auto
  next
    case False
    obtain new where new: "blocks u = blocks s @ new" using a by (auto simp: ahead_def)
    have "st_initialized n \<le> 1" using assms(1) by (auto simp: publish_def io_simps)
    with False m have "u = s \<or> st_initialized n = 0" by auto
    with new show ?thesis by (intro that[of new]) auto
  qed
  ultimately show ?thesis using that pub by (auto simp: published_def)
qed

lemma marker_ok:
  assumes "marker_check net p n s = Inr ()" "st_initialized n = 1"
  obtains b where "marker_row net p n s = Some b" "b_hash b = st_hash n" "b_canonical b = 1"
    "b_status b = ''complete''" "st_start n \<le> st_last n"
    "\<not> rolls_back p n \<and> st_initialized p = 1 \<and> st_last p < st_last n \<longrightarrow> b_parent b = st_hash p"
  using assms by (auto simp: marker_check_def ok_simps split: if_splits)

lemma range_ok:
  assumes "range_check p n = Inr ()" "st_initialized p = 1" "st_initialized n = 1"
  shows "st_start n = st_start p" "st_last n = st_last p \<longrightarrow> st_hash n = st_hash p"
    "st_last p < st_last n \<longrightarrow> st_last n = st_last p + 1"
  using assms by (auto simp: range_check_def ok_simps)

text \<open>The canonical blocks up to both tips stay.\<close>

lemma publish_keeps_block:
  assumes run: "publish w net p n s = (Inr x, t)" and set: "settled net s" and below: "rows_below net (st_revision n) s"
    and pi: "st_initialized p = 1" and init: "st_initialized n = 1"
    and k: "canonical_at net k s = Some b" "k \<le> st_last n"
  shows "canonical_at net k t = Some b"
proof -
  obtain new where row: "sync_row net t = Some n" and bl: "blocks t = blocks s @ new"
    and num: "\<forall>b \<in> set new. st_initialized n = 1 \<longrightarrow> rolls_back p n \<and> st_last n < b_number b"
    by (rule publish_rows[OF run below]) (rule that)
  from publish_ok[OF run] have cur: "current_state net s = p" and lt: "st_revision p < st_revision n"
    and range: "range_check p n = Inr ()" and marker: "marker_check net p n s = Inr ()"
    by metis+
  obtain m where m: "marker_row net p n s = Some m" "b_hash m = st_hash n" by (rule marker_ok[OF marker init]) (rule that)
  have sp: "sync_row net s = Some p" using sync_row_current(2)[of net s] cur pi by simp
  note rs = range_ok[OF range pi init]
  have kr: "st_start p \<le> k" "k \<le> st_last p"
    and l: "latest b_revision (rows_at net k (st_revision p) s) = Some b"
    and cb: "b_canonical b = 1" "b_status b = ''complete''" "k < st_last p \<or> b_hash b = st_hash p"
    using k(1) by (auto simp: canonical_at_iff[OF sp])
  have "rows_at net k (st_revision n) t = rows_at net k (st_revision p) s"
    using num init k(2) lt by (intro rows_at_settled[OF set cur pi kr _ bl]) auto
  moreover have "k < st_last n \<or> b_hash b = st_hash n"
  proof (cases "rolls_back p n")
    case rb: True
    then have "canonical_at net (st_last n) s = Some m"
      using m(1) by (auto simp: marker_row_def split: option.splits if_splits)
    then show ?thesis using k m(2) by (cases "k = st_last n") auto
  next
    case False
    with pi init have "st_last p \<le> st_last n" by (simp add: rolls_back_def)
    with rs(2) cb(3) k(2) kr(2) show ?thesis by (cases "st_last n = st_last p") auto
  qed
  ultimately show ?thesis using l cb k(2) kr rs(1) init by (simp add: canonical_at_iff[OF row])
qed

lemma publish_keeps_chain:
  assumes run: "publish w net p n s = (Inr x, t)"
    and inv: "chain_ok net s" "settled net s"
    and below: "rows_below net (st_revision n) s"
    and start: "st_initialized p = 0 \<Longrightarrow> st_initialized n = 1 \<Longrightarrow> st_start n = st_last n"
  shows "chain_ok net t \<and> settled net t \<and> current_state net t = n"
proof -
  from publish_rows[OF run below] obtain new where
    row: "sync_row net t = Some n" and bl: "blocks t = blocks s @ new"
    and rev: "\<forall>b \<in> set new. b_revision b = st_revision n \<or> st_initialized n = 0"
    and num: "\<forall>b \<in> set new. st_initialized n = 1 \<longrightarrow> rolls_back p n \<and> st_last n < b_number b"
    by blast
  from publish_ok[OF run] have
    cur: "current_state net s = p" and lt: "st_revision p < st_revision n"
    and range: "range_check p n = Inr ()" and marker: "marker_check net p n s = Inr ()"
    by metis+
  have ct: "current_state net t = n" by (rule sync_row_current(1)[OF row])
  have "settled net t"
    using below rev by (auto simp: settled_def Let_def ct bl rows_below_def)
  moreover have "chain_ok net t"
  proof (cases "st_initialized n = 1")
    case False
    then show ?thesis by (simp add: chain_ok_iff Let_def ct)
  next
    case init: True
    from marker_ok[OF marker init] obtain m where
      m: "marker_row net p n s = Some m" "b_hash m = st_hash n" "b_canonical m = 1"
        "b_status m = ''complete''" "st_start n \<le> st_last n"
      and parent: "\<not> rolls_back p n \<and> st_initialized p = 1 \<and> st_last p < st_last n \<longrightarrow>
        b_parent m = st_hash p" by blast
    have pinit: "st_initialized p = 0 \<or> st_initialized p = 1"
      using run by (auto simp: publish_def io_simps snapshot_of_def ok_simps le_Suc_eq)
    have top: "canonical_at net (st_last n) t = Some m" if "\<not> rolls_back p n"
    proof -
      have "new = []" using num init that by (cases new) auto
      then have "rows_at net (st_last n) (st_revision n) t = rows_at net (st_last n) (st_revision n) s"
        by (simp add: rows_at_def bl)
      then show ?thesis using m that init by (simp add: canonical_at_iff[OF row] marker_row_def)
    qed
    show ?thesis
    proof (cases "st_initialized p = 1")
      case False
      with pinit start init have "st_start n = st_last n" "\<not> rolls_back p n"
        by (auto simp: rolls_back_def)
      with top show ?thesis by (auto simp: chain_ok_iff Let_def ct)
    next
      case True
      have sp: "sync_row net s = Some p" using sync_row_current(2)[of net s] cur True by simp
      note rs = range_ok[OF range True init]
      have keep: "canonical_at net k t = Some b" if "canonical_at net k s = Some b" "k \<le> st_last n" for k b
        by (rule publish_keeps_block[OF run inv(2) below True init that])
      show ?thesis
        unfolding chain_ok_iff Let_def ct
      proof (intro impI allI)
        fix k assume k: "st_start n \<le> k \<and> k \<le> st_last n"
        show "\<exists>b. canonical_at net k t = Some b \<and>
          (st_start n < k \<longrightarrow> (\<exists>a. canonical_at net (k - 1) t = Some a \<and> b_parent b = b_hash a))"
        proof (cases "k \<le> st_last p")
          case kp: True
          with k inv(1) rs(1) True obtain b where b: "canonical_at net k s = Some b"
            "st_start p < k \<longrightarrow> (\<exists>a. canonical_at net (k - 1) s = Some a \<and> b_parent b = b_hash a)"
            by (auto simp: chain_ok_iff Let_def cur)
          with keep[of k b] keep[of "k - 1"] k rs(1) show ?thesis by fastforce
        next
          case kp: False
          with k rs(3) have kl: "k = st_last n" "st_last n = st_last p + 1" by auto
          then have nrb: "\<not> rolls_back p n" using init by (simp add: rolls_back_def)
          have "\<exists>a. canonical_at net (st_last p) s = Some a" if "st_start n < k"
            using inv(1)[unfolded chain_ok_iff Let_def cur, rule_format, OF True, of "st_last p"]
              rs(1) that kl by auto
          moreover have "b_hash a = st_hash p" if "canonical_at net (st_last p) s = Some a" for a
            using that by (simp add: canonical_at_iff[OF sp])
          moreover have "b_parent m = st_hash p" using parent nrb True kl by simp
          ultimately show ?thesis using top[OF nrb] kl keep[of "st_last p"] by fastforce
        qed
      qed
    qed
  qed
  ultimately show ?thesis using ct by blast
qed

section \<open>Publishing a batch\<close>

lemma ahead_chain: "ahead (current_state net s) s t \<Longrightarrow> chain_ok net t = chain_ok net s"
  by (simp add: chain_ok_iff ahead_current ahead_canonical)

lemma batch_checks_ok:
  assumes "batch_checks w p b tables = Inr net"
  shows "st_revision p < b_revision b" "st_initialized p \<le> 1" "st_network p = network_id net"
    "network_parse (b_network b) = Inr net"
    "st_initialized p = 1 \<Longrightarrow> b_number b = st_last p + 1"
    "st_initialized p = 1 \<Longrightarrow> b_parent b = st_hash p"
  using assms by (auto simp: batch_checks_def ok_simps split: if_splits)

lemma batch_hidden:
  assumes "batch_checks w p b tables = Inr net"
  shows "hidden p b" "hidden p (b\<lparr>b_revision := r\<rparr>)"
  using batch_checks_ok[OF assms] by (auto simp: hidden_def)

lemma publish_batch_error:
  assumes "publish_batch w p b tables raw s = (Inl e, t)"
  shows "ahead p s t"
proof -
  have "fails_in (ahead p) (publish_batch w p b tables raw)"
    unfolding publish_batch_def
  proof (rule ahead.fails_attempt, (rule ahead.fails_ensure)+, 
      rule ahead.fails_then[OF _ ahead.fails_then[OF _ ahead.fails_then]])
    fix net
    assume "batch_checks w p b tables = Inr net"
    note h = batch_hidden[OF this]
    show "leads (ahead p) (reserve w b)"
      using h by (auto intro: leads_reserve)
    show "leads (ahead p) (complete_block w b (map (\<lambda>(t, rows). (t, length rows)) tables) raw)"
      using h by (auto intro: leads_complete)
    show "leads (ahead p) (io_for (\<lambda>(t, rows). put_facts w b t rows) tables)"
      by (rule ahead.leads_for) (simp add: leads_put_facts split: prod.splits)
    show "fails_in (ahead p) (io_then (publish w net p (batch_state p b)) (\<lambda>_. io_return (batch_state p b)))"
      by (rule ahead.fails_last) (auto simp: fails_in_def io_return_def intro: publish_error)
  qed
  with assms show ?thesis by (simp add: fails_in_def)
qed

lemma put_facts_rows:
  "put_facts w b table rows s = (r, t) \<Longrightarrow> states t = states s \<and> blocks t = blocks s \<and> identity t = identity s"
  by (auto simp: put_facts_def io_ensure_def dest: insert_facts_keeps split: if_splits)

lemma put_tables_rows:
  "io_for (\<lambda>(t, rows). put_facts w b t rows) tables s = (r, t) \<Longrightarrow>
     states t = states s \<and> blocks t = blocks s \<and> identity t = identity s"
proof (induction tables arbitrary: s)
  case Nil
  then show ?case by (simp add: io_return_def)
next
  case (Cons x tables)
  obtain r1 u where u: "put_facts w b (fst x) (snd x) s = (r1, u)" by (metis surj_pair)
  with Cons put_facts_rows[OF u] show ?case
    by (auto simp: io_then_def case_prod_beta split: sum.splits)
qed

lemma io_for_check:
  assumes "\<And>x s. f x s = (Inr (), s) \<or> (\<exists>e. f x s = (Inl e, s))"
  shows "snd (io_for f xs s) = s"
proof (induction xs)
  case (Cons x xs)
  then show ?case using assms[of x s] by (auto simp: io_then_def)
qed (simp add: io_return_def)

text \<open>The steps of a block: its reservation and its complete marker are appended.\<close>

lemma block_steps_ok:
  assumes "reserve w b s = (Inr (), u1)" "io_for (\<lambda>(t, rows). put_facts w b t rows) tables u1 = (Inr (), u2)"
    and "complete_block w b counts raw u2 = (Inr (), u3)"
  obtains b1 b2 where "blocks u3 = blocks s @ [b1, b2]" "states u3 = states s" "identity u3 = identity s"
    "b_number b1 = b_number b" "b_revision b1 = b_revision b - 1" "b2 = b\<lparr>b_counts := counts, b_evidence := raw\<rparr>"
    "facts u3 = facts u2" "u2 = u3\<lparr>blocks := blocks u2, budget := budget u2\<rparr>"
proof -
  define b1 where "b1 = b\<lparr>b_revision := b_revision b - 1, b_canonical := 0,
    b_status := ''processing'', b_counts := [], b_evidence := ''{}''\<rparr>"
  define b2 where "b2 = b\<lparr>b_counts := counts, b_evidence := raw\<rparr>"
  from assms(1) have "insert_blocks w [b1] s = (Inr (), u1)"
    by (auto simp: reserve_def io_simps b1_def)
  from insert_blocks_appends[OF this]
  have u1: "blocks u1 = blocks s @ [b1]" "states u1 = states s" "identity u1 = identity s" by auto
  have u2: "blocks u2 = blocks u1" "states u2 = states u1" "identity u2 = identity u1"
    using put_tables_rows[OF assms(2)] by auto
  let ?check = "\<lambda>(t, n). io_get (\<lambda>s. length (committed_facts b t s)) (\<lambda>actual.
        io_ensure (actual = n) ''incomplete core commit'' (io_return ()))"
  from assms(3) obtain v where v: "io_for ?check counts u2 = (Inr (), v)"
    and ins: "insert_blocks w [b2] v = (Inr (), u3)"
    by (auto simp: complete_block_def io_simps b2_def)
  have "snd (io_for ?check counts u2) = u2"
    by (rule io_for_check) (auto simp: io_get_def io_ensure_def io_return_def split: if_splits)
  with v have "v = u2" by simp
  with block_log.insert_appends[OF ins[unfolded insert_blocks_def]] u1 u2
  have "blocks u3 = blocks s @ [b1, b2]" "states u3 = states s" "identity u3 = identity s"
    "facts u3 = facts u2" "u2 = u3\<lparr>blocks := blocks u2, budget := budget u2\<rparr>" by (auto intro: store.equality)
  then show ?thesis using that[of b1 b2] by (simp add: b1_def b2_def)
qed

text \<open>A batch that succeeds appends both, then publishes.\<close>

lemma publish_batch_ok:
  assumes "publish_batch w p b tables raw s = (Inr n, t)"
  obtains net u b1 b2 where "batch_checks w p b tables = Inr net" "n = batch_state p b"
    "blocks u = blocks s @ [b1, b2]" "states u = states s" "identity u = identity s"
    "b_number b1 = b_number b" "b_number b2 = b_number b"
    "b_revision b1 = b_revision b - 1" "b_revision b2 = b_revision b"
    "publish w net p n u = (Inr (), t)"
proof -
  let ?counts = "map (\<lambda>(t, rows). (t, length rows)) tables"
  from assms obtain net u1 u2 u3 where
    c: "batch_checks w p b tables = Inr net" and n: "n = batch_state p b"
    and m: "reserve w b s = (Inr (), u1)" "io_for (\<lambda>(t, rows). put_facts w b t rows) tables u1 = (Inr (), u2)"
      "complete_block w b ?counts raw u2 = (Inr (), u3)"
    and pub: "publish w net p n u3 = (Inr (), t)"
    by (auto simp: publish_batch_def io_simps)
  from block_steps_ok[OF m] obtain b1 b2 where
    "blocks u3 = blocks s @ [b1, b2]" "states u3 = states s" "identity u3 = identity s"
    "b_number b1 = b_number b" "b_revision b1 = b_revision b - 1" "b2 = b\<lparr>b_counts := ?counts, b_evidence := raw\<rparr>" .
  then show ?thesis using that[OF c n _ _ _ _ _ _ _ pub] by simp
qed

lemma network_id_inject [simp]: "network_id a = network_id b \<longleftrightarrow> a = b"
  by (cases a; cases b) simp_all

text \<open>Publishing the next block after its two rows are in place.\<close>

lemma publish_next_block:
  assumes pub: "publish w net p n u = (Inr (), t)"
    and u: "blocks u = blocks s @ [b1, b2]" "states u = states s" "identity u = identity s"
    and num: "b_number b1 = h" "b_number b2 = h" "st_initialized p = 1 \<Longrightarrow> st_last p < h"
    and rev: "b_revision b1 \<le> st_revision n" "b_revision b2 \<le> st_revision n"
    and inv: "chain_ok net s" "settled net s" "rows_below net (st_revision n) s"
    and start: "st_initialized p = 0 \<Longrightarrow> st_initialized n = 1 \<Longrightarrow> st_start n = st_last n"
  shows "chain_ok net t \<and> settled net t \<and> current_state net t = n"
proof -
  have cur: "current_state net u = p" by (rule publish_ok[OF pub]) assumption
  then have cs: "current_state net s = p" by (simp add: current_state_def sync_row_def u)
  have "hidden p b1" "hidden p b2" using num by (auto simp: hidden_def)
  then have a: "ahead p s u" using u by (auto simp: ahead_def)
  have "chain_ok net u" using inv(1) a ahead_chain[of net s u] cs by simp
  moreover have "settled net u"
    using inv(2) num by (auto simp: settled_def Let_def cur cs u)
  moreover have "rows_below net (st_revision n) u"
    using inv(3) rev by (auto simp: rows_below_def u)
  ultimately show ?thesis using publish_keeps_chain[of w net p n u "()" t] pub start by simp
qed

text \<open>The blocks up to the tip before stay as well.\<close>

lemma publish_next_keeps:
  assumes pub: "publish w net p n u = (Inr (), t)"
    and u: "blocks u = blocks s @ [b1, b2]" "states u = states s" "identity u = identity s"
    and num: "b_number b1 = h" "b_number b2 = h" "st_initialized p = 1 \<Longrightarrow> st_last p < h"
    and rev: "b_revision b1 \<le> st_revision n" "b_revision b2 \<le> st_revision n"
    and inv: "chain_ok net s" "settled net s" "rows_below net (st_revision n) s"
    and init: "st_initialized p = 1" "st_initialized n = 1" and k: "k \<le> st_last p" "st_last p \<le> st_last n"
  shows "canonical_at net k t = canonical_at net k s"
proof -
  have cur: "current_state net u = p" by (rule publish_ok[OF pub]) assumption
  then have cs: "current_state net s = p" by (simp add: current_state_def sync_row_def u)
  have "hidden p b1" "hidden p b2" using num by (auto simp: hidden_def)
  then have a: "ahead p s u" using u by (auto simp: ahead_def)
  have ku: "canonical_at net k u = canonical_at net k s" using a ahead_canonical[of net s u] cs by simp
  have su: "settled net u" using inv(2) num by (auto simp: settled_def Let_def cur cs u)
  have bu: "rows_below net (st_revision n) u" using inv(3) rev by (auto simp: rows_below_def u)
  show ?thesis
  proof (cases "canonical_at net k s")
    case (Some b)
    then show ?thesis using publish_keeps_block[OF pub su bu init] ku k by simp
  next
    case None
    have "k < st_start p" using inv(1) None k(1) init(1) by (auto simp: chain_ok_iff Let_def cs not_le[symmetric])
    moreover have "st_start n = st_start p" by (rule publish_ok[OF pub]) (rule range_ok(1)[OF _ init])
    moreover have "sync_row net t = Some n" by (rule publish_rows[OF pub bu]) assumption
    ultimately show ?thesis using None by (simp add: canonical_at_def)
  qed
qed

lemma publish_batch_keeps_chain:
  assumes run: "publish_batch w p b tables raw s = (Inr n, t)"
    and net: "st_network p = network_id net"
    and inv: "chain_ok net s" "settled net s"
    and below: "rows_below net (b_revision b) s"
  shows "chain_ok net t \<and> settled net t \<and> current_state net t = n"
proof -
  from publish_batch_ok[OF run] obtain net' u b1 b2 where
    c: "batch_checks w p b tables = Inr net'" and n: "n = batch_state p b"
    and u: "blocks u = blocks s @ [b1, b2]" "states u = states s" "identity u = identity s"
    and nb: "b_number b1 = b_number b" "b_number b2 = b_number b"
      "b_revision b1 = b_revision b - 1" "b_revision b2 = b_revision b"
    and pub: "publish w net' p n u = (Inr (), t)" by metis
  have [simp]: "net' = net" using batch_checks_ok(3)[OF c] net by simp
  show ?thesis
    using pub u nb below inv batch_checks_ok(5)[OF c]
    by (intro publish_next_block[of w net p n u t s b1 b2 "b_number b"]) (simp_all add: n batch_state_def)
qed

lemma next_revision_above:
  assumes "next_revision net previous s = (Inr r, t)"
  shows "t = s \<and> previous + 3 \<le> r \<and> rows_below net (r - 3) s"
proof -
  let ?rows = "filter (\<lambda>b. b_network b = network_id net) (blocks s)"
  from assms have r: "r = max previous (Max (insert 0 (set (map b_revision ?rows)))) + 3" "t = s"
    by (auto simp: next_revision_def io_simps ok_simps)
  have "b_revision b \<le> Max (insert 0 (set (map b_revision ?rows)))" if "b \<in> set ?rows" for b
    using that by (intro Max_ge) auto
  then have "rows_below net (r - 3) s"
    unfolding rows_below_def r(1) by (auto intro: le_SucI max.coboundedI2)
  then show ?thesis using r by simp
qed

end
