(* ===== verification/Failures.thy ===== *)
theory Failures
  imports Utxo Publication "HOL-Library.Code_Target_Nat"
begin

text \<open>
  Durable failure records, the retry gate and the gap scan
  (\<open>dockerizd_bitcoin/src/bitcoin/failures.rs\<close>). Each operation takes the readings
  \<open>clk 0\<close>, \<open>clk 1\<close>, ... of the system clock in the order it makes them.
\<close>

record policy =
  max_attempts :: nat
  retry_seconds :: nat

definition default_policy :: policy where
  "default_policy = \<lparr>max_attempts = 10, retry_seconds = 1\<rparr>"

definition validate_policy :: "policy \<Rightarrow> unit res" where
  "validate_policy p =
     ensure (1 \<le> max_attempts p \<and> max_attempts p \<le> 1000 \<and>
             1 \<le> retry_seconds p \<and> retry_seconds p \<le> 3600)
       ''invalid failure retry policy'' (Inr ())"

datatype stage = Source | Fetch | Resolve | Commit | Reconcile | Gap

fun stage_operation :: "stage \<Rightarrow> string" where
  "stage_operation Source = ''source''"
| "stage_operation Fetch = ''fetch_window''"
| "stage_operation Resolve = ''resolve''"
| "stage_operation Commit = ''commit''"
| "stage_operation Reconcile = ''reconcile''"
| "stage_operation Gap = ''gap''"

fun stage_code :: "stage \<Rightarrow> string" where
  "stage_code Source = ''rpc_source_unavailable''"
| "stage_code Fetch = ''block_window_unavailable''"
| "stage_code Resolve = ''block_evidence_unavailable''"
| "stage_code Commit = ''publication_uncertain''"
| "stage_code Reconcile = ''reorg_reconciliation_failed''"
| "stage_code Gap = ''historical_gap''"

fun stage_message :: "stage \<Rightarrow> string" where
  "stage_message Source = ''RPC identity, height or checkpoint verification failed at the next unpublished block.''"
| "stage_message Fetch = ''Fetching or validating the bounded block window failed; this is the blocked frontier, not an inferred bad block.''"
| "stage_message Resolve = ''Prevout resolution, block continuity or evidence validation failed; no facts for this block were published.''"
| "stage_message Commit = ''A database write or publication check failed; inspect canonical state before retrying.''"
| "stage_message Reconcile = ''Primary chain reconciliation failed; operator recovery may be required.''"
| "stage_message Gap = ''Published block continuity or transaction count is incomplete; independent replay is required.''"

abbreviation u32_max :: nat where "u32_max \<equiv> u32_lim - 1"

definition failure_id :: "nat \<Rightarrow> string" where
  "failure_id height = ''bitcoin:block:'' @ show_nat height"

definition height_from_id :: "string \<Rightarrow> nat res" where
  "height_from_id v =
     need (strip_prefix ''bitcoin:block:'' v) ''invalid Bitcoin failure id'' (\<lambda>digits.
     need (parse_u64 digits) ''invalid digit found in string'' (\<lambda>height.
     ensure (height \<le> u32_max \<and> v = failure_id height) ''invalid Bitcoin failure id'' (Inr height)))"

text \<open>\<open>revision(previous)\<close> at the clock reading \<open>t\<close>, and the attempt counter.\<close>

definition failure_revision :: "nat \<Rightarrow> nat \<Rightarrow> nat res" where
  "failure_revision t previous =
     need (checked_add64 previous 1) ''failure revision overflow'' (\<lambda>a.
     need (checked_mul64 t 1000) ''failure clock overflow'' (\<lambda>b. Inr (max a b)))"

definition increment :: "nat \<Rightarrow> nat res" where
  "increment n = need (checked_add32 n 1) ''failure attempt counter overflow'' Inr"

definition save :: "wh \<Rightarrow> failure list \<Rightarrow> (store, unit) io" where
  "save w = insert_rows e_network (wh_failure_ok w) (\<lambda>c s. s\<lparr>failures := failures s @ c\<rparr>)"

text \<open>\<open>aml_ingestion_failures_current\<close>: the latest row of every identity.\<close>

definition failure_rows :: "string \<Rightarrow> store \<Rightarrow> failure list" where
  "failure_rows fid s =
     filter (\<lambda>r. e_network r = network_id Bitcoin \<and> e_id r = fid) (failures s)"

definition current_failure :: "string \<Rightarrow> store \<Rightarrow> failure option" where
  "current_failure fid s = latest e_revision (failure_rows fid s)"

definition current_failures :: "store \<Rightarrow> failure list" where
  "current_failures s = List.map_filter (\<lambda>fid. current_failure fid s)
     (remdups (map e_id (filter (\<lambda>r. e_network r = network_id Bitcoin) (failures s))))"

definition current :: "nat \<Rightarrow> (store, failure option) io" where
  "current height =
     io_ensure (height \<le> u32_max) ''failure height out of range''
       (io_get (current_failure (failure_id height)) io_return)"

text \<open>The columns a new row takes over from the row it follows.\<close>

definition attempts_of :: "failure option \<Rightarrow> nat" where
  "attempts_of v = (case v of None \<Rightarrow> 0 | Some r \<Rightarrow> e_attempts r)"

definition revision_of :: "failure option \<Rightarrow> nat" where
  "revision_of v = (case v of None \<Rightarrow> 0 | Some r \<Rightarrow> e_revision r)"

definition last_failed :: "failure option \<Rightarrow> nat" where
  "last_failed v = (case Option.bind v e_last of None \<Rightarrow> 0 | Some t \<Rightarrow> t)"

definition record_row ::
  "nat \<Rightarrow> nat \<Rightarrow> string option \<Rightarrow> stage \<Rightarrow> policy \<Rightarrow> nat \<Rightarrow> nat \<Rightarrow> failure option \<Rightarrow> failure" where
  "record_row now height hash st p attempts revision old =
     \<lparr>e_network = network_id Bitcoin, e_id = failure_id height, e_block = height, e_hash = hash,
      e_operation = stage_operation st,
      e_status = (if max_attempts p \<le> attempts then ''dead_letter'' else ''retry''),
      e_attempts = attempts, e_code = stage_code st, e_message = stage_message st,
      e_next_ms = (if max_attempts p \<le> attempts then 0
                   else wrapping_add64 now (retry_seconds p * 1000)),
      e_revision = revision,
      e_created = (case old of None \<Rightarrow> now | Some r \<Rightarrow> e_created r),
      e_tx = Option.bind old e_tx,
      e_retryable = Some (if attempts < max_attempts p then 1 else 0),
      e_first = (case old of None \<Rightarrow> Some now | Some r \<Rightarrow> e_first r),
      e_last = Some (max now (last_failed old)), e_resolved = None,
      e_raw = JObj [(''operation'', JStr (stage_operation st)), (''error_code'', JStr (stage_code st)),
                    (''attempts'', jnat attempts), (''max_attempts'', jnat (max_attempts p))]\<rparr>"

definition record_failure ::
  "wh \<Rightarrow> (nat \<Rightarrow> nat) \<Rightarrow> nat \<Rightarrow> string option \<Rightarrow> stage \<Rightarrow> policy \<Rightarrow> bool \<Rightarrow> (store, failure) io" where
  "record_failure w clk height hash st p count_attempt =
     io_attempt (validate_policy p) (\<lambda>_.
     io_then (current height) (\<lambda>old.
     io_attempt (if count_attempt then increment (attempts_of old)
                 else need old ''repair attempt was not reserved'' (\<lambda>r. Inr (e_attempts r))) (\<lambda>attempts.
     io_attempt (case hash of None \<Rightarrow> Inr None | Some h \<Rightarrow> attempt (btc_hash h) (\<lambda>x. Inr (Some x))) (\<lambda>h.
     io_attempt (failure_revision (clk 1) (revision_of old)) (\<lambda>ver.
     io_then (save w [record_row (clk 0) height h st p attempts ver old]) (\<lambda>_.
     io_return (record_row (clk 0) height h st p attempts ver old)))))))"

definition resolved ::
  "wh \<Rightarrow> (nat \<Rightarrow> nat) \<Rightarrow> nat \<Rightarrow> string \<Rightarrow> bool \<Rightarrow> (store, unit) io" where
  "resolved w clk height hash count_attempt =
     io_then (current height) (\<lambda>found. case found of None \<Rightarrow> io_return () | Some row \<Rightarrow>
       if e_status row = ''resolved'' then io_return () else
       io_attempt (btc_hash hash) (\<lambda>h.
       io_attempt (if count_attempt then increment (e_attempts row) else Inr (e_attempts row)) (\<lambda>attempts.
       io_attempt (failure_revision (clk 1) (e_revision row)) (\<lambda>ver.
       save w [row\<lparr>e_hash := Some h, e_status := ''resolved'',
                   e_resolved := Some (max (clk 0) (last_failed (Some row))),
                   e_retryable := Some 0, e_next_ms := 0, e_attempts := attempts,
                   e_revision := ver\<rparr>]))))"

definition begin_repair :: "wh \<Rightarrow> (nat \<Rightarrow> nat) \<Rightarrow> nat \<Rightarrow> (store, failure) io" where
  "begin_repair w clk height =
     io_then (current height) (\<lambda>found.
     io_need found ''selected failure does not exist'' (\<lambda>row.
     io_ensure (e_status row \<noteq> ''resolved'') ''selected failure is already resolved''
     (io_attempt (increment (e_attempts row)) (\<lambda>attempts.
      io_attempt (failure_revision (clk 0) (e_revision row)) (\<lambda>ver.
      (let row' = row\<lparr>e_status := ''repairing'', e_resolved := None, e_attempts := attempts,
                      e_next_ms := 0, e_revision := ver\<rparr>
       in io_then (save w [row']) (\<lambda>_. io_return row')))))))"

definition gap_row :: "nat \<Rightarrow> nat \<Rightarrow> nat \<Rightarrow> string option \<Rightarrow> nat \<Rightarrow> failure option \<Rightarrow> failure" where
  "gap_row created seen height hash revision old =
     \<lparr>e_network = network_id Bitcoin, e_id = failure_id height, e_block = height, e_hash = hash,
      e_operation = ''gap'', e_status = ''gap'', e_attempts = attempts_of old,
      e_code = stage_code Gap, e_message = stage_message Gap, e_next_ms = 0, e_revision = revision,
      e_created = (case old of None \<Rightarrow> created | Some r \<Rightarrow> e_created r),
      e_tx = Option.bind old e_tx, e_retryable = Some 0,
      e_first = (case old of None \<Rightarrow> Some created | Some r \<Rightarrow> e_first r),
      e_last = Some (max seen (last_failed old)), e_resolved = None,
      e_raw = JObj [(''operation'', JStr ''gap''), (''replay_required'', JBool True)]\<rparr>"

definition mark_gap :: "wh \<Rightarrow> (nat \<Rightarrow> nat) \<Rightarrow> nat \<Rightarrow> string option \<Rightarrow> (store, unit) io" where
  "mark_gap w clk height hash =
     io_then (current height) (\<lambda>old.
     io_attempt (failure_revision (clk 1) (revision_of old)) (\<lambda>ver.
     save w [gap_row (clk 0) (clk 0) height hash ver old]))"

definition gate ::
  "wh \<Rightarrow> (nat \<Rightarrow> nat) \<Rightarrow> nat \<Rightarrow> policy \<Rightarrow> bool \<Rightarrow> (store, string option) io" where
  "gate w clk height p once =
     io_then (current height) (\<lambda>found. case found of None \<Rightarrow> io_return None | Some row \<Rightarrow>
       if e_status row = ''resolved'' then io_return None
       else if e_status row = ''gap'' then io_return (Some ''historical_gap'')
       else if e_status row = ''dead_letter'' then io_return (Some ''dead_letter'')
       else if max_attempts p \<le> e_attempts row then
         io_attempt (failure_revision (clk 0) (e_revision row)) (\<lambda>ver.
         io_then (save w [row\<lparr>e_status := ''dead_letter'', e_next_ms := 0, e_revision := ver\<rparr>]) (\<lambda>_.
         io_return (Some ''dead_letter'')))
       else if \<not> once \<and> clk 0 < e_next_ms row then io_return (Some ''retry_not_due'')
       else io_return None)"

definition interrupted_row :: "policy \<Rightarrow> nat \<Rightarrow> nat \<Rightarrow> nat \<Rightarrow> failure \<Rightarrow> failure" where
  "interrupted_row p seen next ver row =
     row\<lparr>e_status := (if max_attempts p \<le> e_attempts row then ''dead_letter'' else ''retry''),
         e_code := ''interrupted_repair'',
         e_retryable := Some (if e_attempts row < max_attempts p then 1 else 0),
         e_last := Some (max seen (last_failed (Some row))), e_resolved := None,
         e_raw := JObj [(''operation'', JStr ''repair''), (''error_code'', JStr ''interrupted_repair''),
                        (''attempts'', jnat (e_attempts row)), (''max_attempts'', jnat (max_attempts p))],
         e_message := ''Previous repair ended before its outcome was recorded; canonical state must be checked.'',
         e_next_ms := next, e_revision := ver\<rparr>"

definition recover_row :: "(nat \<Rightarrow> nat) \<Rightarrow> policy \<Rightarrow> nat \<times> failure \<Rightarrow> failure res" where
  "recover_row clk p kr = (case kr of (k, row) \<Rightarrow>
     attempt (failure_revision (clk (3 * k + 2)) (e_revision row)) (\<lambda>ver.
       Inr (interrupted_row p (clk (3 * k)) (clk (3 * k + 1)) ver row)))"

definition recover_interrupted :: "wh \<Rightarrow> (nat \<Rightarrow> nat) \<Rightarrow> policy \<Rightarrow> (store, unit) io" where
  "recover_interrupted w clk p =
     io_get (\<lambda>s. take 1000 (sort_key e_block
                   (filter (\<lambda>r. e_status r = ''repairing'') (current_failures s)))) (\<lambda>rows.
     io_attempt (mapE (recover_row clk p) (enumerate 0 rows)) (\<lambda>rows'.
     save w rows'))"

definition settle_published :: "wh \<Rightarrow> (nat \<Rightarrow> nat \<Rightarrow> nat) \<Rightarrow> sync_state \<Rightarrow> (store, unit) io" where
  "settle_published w clk st =
     (if st_initialized st = 0 then io_return () else
      io_get (\<lambda>s. take 64 (rev (sort_key e_block (filter (\<lambda>r.
          e_status r \<in> {''retry'', ''dead_letter'', ''repairing''} \<and>
          st_start st \<le> e_block r \<and> e_block r \<le> st_last st) (current_failures s))))) (\<lambda>rows.
      io_for (\<lambda>(k, row). io_get (canonical_at Bitcoin (e_block row)) (\<lambda>found.
        case found of None \<Rightarrow> io_return ()
        | Some b \<Rightarrow> resolved w (clk k) (e_block row) (b_hash b) False)) (enumerate 0 rows)))"

section \<open>Queries\<close>

record failure_query =
  q_status :: "string option"
  q_from :: "nat option"
  q_to :: "nat option"
  q_after :: "nat option"
  q_limit :: "nat option"

definition or_else :: "'a option \<Rightarrow> 'a \<Rightarrow> 'a" where
  "or_else v d = (case v of None \<Rightarrow> d | Some x \<Rightarrow> x)"

definition failure_statuses :: "string list" where
  "failure_statuses = [''retry'', ''dead_letter'', ''repairing'', ''gap'', ''resolved'']"

definition validate_query :: "failure_query \<Rightarrow> unit res" where
  "validate_query q =
     ensure (case q_limit q of None \<Rightarrow> True | Some n \<Rightarrow> 1 \<le> n \<and> n \<le> 200) ''failure limit must be 1..200''
     (ensure (case q_status q of None \<Rightarrow> True | Some t \<Rightarrow> t \<in> set failure_statuses) ''invalid failure status''
     (ensure (or_else (q_from q) 0 \<le> or_else (q_to q) u32_max \<and>
              (\<forall>v \<in> set [q_from q, q_to q, q_after q]. case v of None \<Rightarrow> True | Some n \<Rightarrow> n \<le> u32_max))
       ''invalid failure block range'' (Inr ())))"

text \<open>\<open>list\<close>: the page, whether more follows, and the block to continue after.\<close>

definition list_failures :: "failure_query \<Rightarrow> (store, failure list \<times> bool \<times> nat option) io" where
  "list_failures q =
     io_attempt (validate_query q) (\<lambda>_.
     io_get (\<lambda>s. take (or_else (q_limit q) 50 + 1) (sort_key e_block (filter (\<lambda>r.
         or_else (q_from q) 0 \<le> e_block r \<and> e_block r \<le> or_else (q_to q) u32_max \<and>
         (case q_status q of None \<Rightarrow> True | Some t \<Rightarrow> e_status r = t) \<and>
         (case q_after q of None \<Rightarrow> True | Some n \<Rightarrow> n < e_block r)) (current_failures s)))) (\<lambda>found.
     (let limit = or_else (q_limit q) 50; truncated = limit < length found; rows = take limit found
      in io_return (rows, truncated,
           if truncated \<and> rows \<noteq> [] then Some (e_block (last rows)) else None))))"

definition count_statuses :: "store \<Rightarrow> (string \<times> nat) list" where
  "count_statuses s = map (\<lambda>t. (t, length (filter (\<lambda>r. e_status r = t) (current_failures s)))) failure_statuses"

definition frontier_failure :: "sync_state \<Rightarrow> store \<Rightarrow> failure option" where
  "frontier_failure st s =
     (let next = (if st_initialized st = 1 then wrapping_add64 (st_last st) 1 else st_start st) in
      if st_initialized st = 0 \<and> st_revision st = 0
      then (case sort_key e_block (filter (\<lambda>r. e_status r \<noteq> ''resolved'') (current_failures s)) of
              [] \<Rightarrow> None | r # _ \<Rightarrow> Some r)
      else if next \<le> u32_max
      then (case current_failure (failure_id next) s of None \<Rightarrow> None
            | Some r \<Rightarrow> if e_status r \<noteq> ''resolved'' then Some r else None)
      else None)"

section \<open>Gaps\<close>

text \<open>\<open>aml_transactions_canonical\<close> counted at one height.\<close>

definition tx_count_at :: "nat \<Rightarrow> store \<Rightarrow> nat" where
  "tx_count_at n s = (case canonical_at Bitcoin n s of None \<Rightarrow> 0
     | Some b \<Rightarrow> length (filter (\<lambda>f. f_time_ms f = b_time_ms b) (committed_facts b ''aml_transactions'' s)))"

definition healthy :: "nat \<Rightarrow> sync_state \<Rightarrow> store \<Rightarrow> bool" where
  "healthy height st s =
     (if st_initialized st = 0 \<or> height < st_start st \<or> st_last st < height then False
      else case canonical_at Bitcoin height s of None \<Rightarrow> False
      | Some b \<Rightarrow>
          if tx_count_at height s \<noteq> b_tx_count b then False
          else if st_start st < height \<and>
                  map_option b_hash (canonical_at Bitcoin (height - 1) s) \<noteq> Some (b_parent b) then False
          else height \<noteq> st_last st \<or> st_hash st = b_hash b)"

text \<open>One round of the scan: the parent hash seen last, and the rows to write.\<close>

definition scan_healthy :: "nat \<Rightarrow> sync_state \<Rightarrow> store \<Rightarrow> string option \<Rightarrow> bool" where
  "scan_healthy height st s parent =
     (case canonical_at Bitcoin height s of None \<Rightarrow> False
      | Some b \<Rightarrow>
          (0 < tx_count_at height s \<and> tx_count_at height s = b_tx_count b) \<and>
          (case parent of None \<Rightarrow> True | Some h \<Rightarrow> h = b_parent b) \<and>
          (height \<noteq> st_last st \<or> st_hash st = b_hash b))"

definition scan_step ::
  "(nat \<Rightarrow> nat \<Rightarrow> nat) \<Rightarrow> sync_state \<Rightarrow> store \<Rightarrow> nat \<Rightarrow> string option \<times> failure list \<Rightarrow>
   (string option \<times> failure list) res" where
  "scan_step clk st s height acc =
     (let (parent, writes) = acc; found = map_option b_hash (canonical_at Bitcoin height s);
          old = current_failure (failure_id height) s in
      if scan_healthy height st s parent then Inr (found, writes)
      else attempt (failure_revision (clk height 0) (revision_of old)) (\<lambda>ver.
             Inr (found, writes @ [gap_row (clk height 1) (clk height 2) height found ver old])))"

definition scan_rows :: "(nat \<Rightarrow> nat \<Rightarrow> nat) \<Rightarrow> sync_state \<Rightarrow> store \<Rightarrow> nat \<Rightarrow> nat \<Rightarrow> failure list res" where
  "scan_rows clk st s from till =
     attempt (foldE (scan_step clk st s) [from..<Suc till]
        ((if st_start st < from then map_option b_hash (canonical_at Bitcoin (from - 1) s) else None), []))
       (\<lambda>(_, writes). Inr writes)"

definition scan_gaps ::
  "wh \<Rightarrow> (nat \<Rightarrow> nat \<Rightarrow> nat) \<Rightarrow> nat \<Rightarrow> nat \<Rightarrow> nat \<Rightarrow> (store, nat \<times> string list) io" where
  "scan_gaps w clk from till max_blocks =
     io_ensure (1 \<le> max_blocks \<and> max_blocks \<le> 10000 \<and> from \<le> till \<and> till \<le> u32_max \<and>
                till - from < max_blocks)
       ''gap scan must contain 1..max-blocks heights, max-blocks <= 10000''
     (io_get (current_state Bitcoin) (\<lambda>st.
      io_ensure (st_initialized st = 1 \<and> st_start st \<le> from \<and> till \<le> st_last st)
        ''gap scan must stay inside published history''
     (io_get (\<lambda>s. scan_rows clk st s from till) (\<lambda>result.
      io_attempt result (\<lambda>writes.
      io_get (current_state Bitcoin) (\<lambda>again.
      io_ensure (st_revision again = st_revision st) ''checkpoint changed during gap scan; retry''
     (io_then (save w writes) (\<lambda>_.
      io_return (length writes, take 200 (map e_id writes))))))))))"

section \<open>Failure identities\<close>

lemma strip_prefix_append [simp]: "strip_prefix p (p @ s) = Some s"
  by (simp add: strip_prefix_def)

lemma failure_id_inject [simp]: "failure_id a = failure_id b \<longleftrightarrow> a = b"
  by (simp add: failure_id_def)

text \<open>Failure identities round-trip: an identity parses to a height exactly when it is the
  identity of that height.\<close>

theorem failure_id_round_trip:
  "height_from_id v = Inr h \<longleftrightarrow> v = failure_id h \<and> h \<le> u32_max"
proof
  assume "height_from_id v = Inr h"
  then show "v = failure_id h \<and> h \<le> u32_max" by (auto simp: height_from_id_def ok_simps)
next
  assume v: "v = failure_id h \<and> h \<le> u32_max"
  then have "h < u64_lim" by (simp add: u32_lim_val u64_lim_val)
  then have "parse_u64 (show_nat h) = Some h" by simp
  moreover have "strip_prefix ''bitcoin:block:'' v = Some (show_nat h)"
    using v strip_prefix_append unfolding failure_id_def by blast
  ultimately show "height_from_id v = Inr h"
    using v by (simp add: height_from_id_def)
qed

section \<open>Saving rows\<close>

interpretation failure_log: append_log failures
    "\<lambda>s. (identity s, states s, blocks s, facts s, seals s, derived s)"
    "\<lambda>c s. s\<lparr>failures := failures s @ c\<rparr>"
  by unfold_locales auto

lemma save_appends:
  assumes "save w xs s = (r, t)"
  shows "\<exists>ys zs. xs = ys @ zs \<and> failures t = failures s @ ys \<and> blocks t = blocks s \<and>
    states t = states s \<and> facts t = facts s \<and> identity t = identity s \<and> (r = Inr () \<longleftrightarrow> zs = [])"
  using failure_log.insert_appends[OF assms[unfolded save_def]] by auto

definition newer :: "store \<Rightarrow> failure \<Rightarrow> bool" where
  "newer s r \<longleftrightarrow> e_network r = network_id Bitcoin \<and>
     revision_of (current_failure (e_id r) s) \<le> e_revision r"

lemma current_failure_append:
  assumes "newer s r" "failures t = failures s @ [r]"
  shows "current_failure fid t = (if fid = e_id r then Some r else current_failure fid s)"
proof (cases "fid = e_id r")
  case True
  let ?rows = "failure_rows fid s"
  have "\<forall>x \<in> set ?rows. e_revision x \<le> e_revision r"
  proof
    fix x assume x: "x \<in> set ?rows"
    then have "?rows \<noteq> []" by (metis list.distinct(1) list.set_cases)
    then obtain c where c: "latest e_revision ?rows = Some c" by (metis latest_None option.exhaust)
    with x latest_in[OF c] have "e_revision x \<le> e_revision c" by blast
    with c assms(1) True show "e_revision x \<le> e_revision r"
      by (simp add: newer_def current_failure_def revision_of_def)
  qed
  from latest_above[OF this] True assms show ?thesis
    by (simp add: current_failure_def failure_rows_def newer_def)
next
  case False
  with assms show ?thesis by (simp add: current_failure_def failure_rows_def)
qed

lemma current_failure_appends:
  assumes "\<forall>r \<in> set xs. newer s r" "distinct (map e_id xs)" "failures t = failures s @ xs"
  shows "current_failure fid t =
    (case find (\<lambda>r. e_id r = fid) xs of None \<Rightarrow> current_failure fid s | Some r \<Rightarrow> Some r)"
  using assms
proof (induction xs arbitrary: s)
  case Nil
  then show ?case by (simp add: current_failure_def failure_rows_def)
next
  case (Cons x xs)
  let ?u = "s\<lparr>failures := failures s @ [x]\<rparr>"
  have cf: "current_failure k ?u = (if k = e_id x then Some x else current_failure k s)" for k
    using Cons.prems by (intro current_failure_append) simp_all
  have "\<forall>r \<in> set xs. newer ?u r"
  proof
    fix r assume r: "r \<in> set xs"
    with Cons.prems(1,2) have "newer s r" "e_id r \<noteq> e_id x" by (auto simp: image_iff)
    then show "newer ?u r" by (simp add: newer_def cf)
  qed
  moreover have "failures t = failures ?u @ xs" using Cons.prems by simp
  ultimately have "current_failure fid t =
      (case find (\<lambda>r. e_id r = fid) xs of None \<Rightarrow> current_failure fid ?u | Some r \<Rightarrow> Some r)"
    using Cons.IH[of ?u] Cons.prems(2) by simp
  moreover have "fid = e_id x \<Longrightarrow> find (\<lambda>r. e_id r = fid) xs = None"
    using Cons.prems(2) by (auto simp: find_None_iff image_iff)
  ultimately show ?case by (cases "find (\<lambda>r. e_id r = fid) xs") (auto simp: cf)
qed

lemma failure_revision_above:
  "failure_revision t p = Inr v \<Longrightarrow> p < v"
  by (auto simp: failure_revision_def ok_simps)

lemma current_ok: "current h s = (Inr v, t) \<longleftrightarrow> h \<le> u32_max \<and> v = current_failure (failure_id h) s \<and> t = s"
  by (auto simp: current_def io_simps)

lemma save_one:
  assumes "save w [r] s = (Inr (), t)"
  shows "failures t = failures s @ [r]" "blocks t = blocks s" "states t = states s" "facts t = facts s"
  using save_appends[OF assms] by auto

section \<open>Recording a failure\<close>

lemma record_failure_ok:
  assumes "record_failure w clk h hash st p counted s = (Inr row, t)"
  obtains attempts hash' ver where
    "row = record_row (clk 0) h hash' st p attempts ver (current_failure (failure_id h) s)"
    "counted \<Longrightarrow> attempts = attempts_of (current_failure (failure_id h) s) + 1"
    "\<not> counted \<Longrightarrow> attempts = attempts_of (current_failure (failure_id h) s)"
    "revision_of (current_failure (failure_id h) s) < ver"
    "h \<le> u32_max" "validate_policy p = Inr ()"
    "failures t = failures s @ [row]" "blocks t = blocks s" "states t = states s" "facts t = facts s"
proof -
  let ?old = "current_failure (failure_id h) s"
  from assms obtain attempts hash' ver x where
    r: "row = record_row (clk 0) h hash' st p attempts ver ?old" and h: "h \<le> u32_max"
    and pol: "validate_policy p = Inr x"
    and a: "(if counted then increment (attempts_of ?old)
      else need ?old ''repair attempt was not reserved'' (\<lambda>r. Inr (e_attempts r))) = Inr attempts"
    and v: "failure_revision (clk 1) (revision_of ?old) = Inr ver"
    and sv: "save w [row] s = (Inr (), t)"
    by (auto simp: record_failure_def io_simps current_ok)
  show ?thesis
    using that[OF r _ _ failure_revision_above[OF v] h] pol a save_one[OF sv]
    by (auto simp: increment_def ok_simps attempts_of_def split: if_splits option.splits)
qed

lemma record_row_simps [simp]:
  "e_id (record_row now h hash st p a v old) = failure_id h"
  "e_network (record_row now h hash st p a v old) = network_id Bitcoin"
  "e_revision (record_row now h hash st p a v old) = v"
  "e_attempts (record_row now h hash st p a v old) = a"
  "e_status (record_row now h hash st p a v old) = (if max_attempts p \<le> a then ''dead_letter'' else ''retry'')"
  by (simp_all add: record_row_def)

lemma record_failure_current:
  assumes "record_failure w clk h hash st p counted s = (Inr row, t)"
  shows "current_failure fid t = (if fid = failure_id h then Some row else current_failure fid s) \<and>
    e_attempts row = attempts_of (current_failure (failure_id h) s) + (if counted then 1 else 0) \<and>
    e_status row = (if max_attempts p \<le> e_attempts row then ''dead_letter'' else ''retry'') \<and>
    blocks t = blocks s \<and> states t = states s"
proof -
  from record_failure_ok[OF assms] obtain attempts hash' ver where
    r: "row = record_row (clk 0) h hash' st p attempts ver (current_failure (failure_id h) s)"
    and a: "counted \<Longrightarrow> attempts = attempts_of (current_failure (failure_id h) s) + 1"
      "\<not> counted \<Longrightarrow> attempts = attempts_of (current_failure (failure_id h) s)"
    and v: "revision_of (current_failure (failure_id h) s) < ver"
    and t: "failures t = failures s @ [row]" "blocks t = blocks s" "states t = states s" by metis
  have "newer s row" using v by (simp add: newer_def r)
  from current_failure_append[OF this t(1)] show ?thesis
    using a t by (cases counted) (simp_all add: r)
qed

text \<open>Recording a failure appends one row and touches nothing else: it becomes the current row
  of its height, with one more attempt when the attempt counts, and the current rows of
  all other heights stay.\<close>

theorem record_failure_becomes_current:
  assumes "record_failure w clk h hash st p counted s = (Inr row, t)"
  shows "current_failure fid t = (if fid = failure_id h then Some row else current_failure fid s) \<and>
    e_attempts row = attempts_of (current_failure (failure_id h) s) + (if counted then 1 else 0) \<and>
    e_status row = (if max_attempts p \<le> e_attempts row then ''dead_letter'' else ''retry'') \<and>
    blocks t = blocks s \<and> states t = states s"
  using record_failure_current[OF assms] by simp

definition open_wh :: wh where
  "open_wh = \<lparr>wh_ledger = (\<lambda>_. Inr ()), wh_block_ok = (\<lambda>_. True), wh_state_ok = (\<lambda>_. True),
     wh_fact_ok = (\<lambda>_ _. True), wh_json_ok = (\<lambda>_. True), wh_failure_ok = (\<lambda>_. True),
     wh_seal_ok = (\<lambda>_. True), wh_derived_ok = (\<lambda>_ _. True)\<rparr>"

definition bare_store :: store where
  "bare_store = \<lparr>identity = [network_id Bitcoin], states = [], blocks = [], facts = [],
     failures = [], seals = [], derived = [], budget = 50\<rparr>"

theorem record_failure_becomes_current_witness:
  "\<exists>row t. record_failure open_wh (\<lambda>k. 7 + k) 5 None Fetch default_policy True bare_store = (Inr row, t) \<and>
     current_failure (failure_id 5) t = Some row"
proof -
  have "is_ok (fst (record_failure open_wh (\<lambda>k. 7 + k) 5 None Fetch default_policy True bare_store))"
    by code_simp
  then obtain row t where
    run: "record_failure open_wh (\<lambda>k. 7 + k) 5 None Fetch default_policy True bare_store = (Inr row, t)"
    by (metis is_ok_iff prod.collapse)
  with record_failure_becomes_current[OF run, of "failure_id 5"] show ?thesis by simp
qed

text \<open>Failing again and again, in whatever stages, with the attempts counted.\<close>

fun fail_through ::
  "wh \<Rightarrow> (nat \<Rightarrow> nat \<Rightarrow> nat) \<Rightarrow> nat \<Rightarrow> policy \<Rightarrow> stage list \<Rightarrow> (store, unit) io" where
  "fail_through w clk h p [] = io_return ()"
| "fail_through w clk h p (st # sts) =
     io_then (record_failure w (clk (length sts)) h None st p True) (\<lambda>_. fail_through w clk h p sts)"

lemma fail_through_attempts:
  assumes "fail_through w clk h p sts s = (Inr u, t)"
  shows "attempts_of (current_failure (failure_id h) t) =
      attempts_of (current_failure (failure_id h) s) + length sts \<and>
    (sts \<noteq> [] \<longrightarrow> (\<exists>r. current_failure (failure_id h) t = Some r \<and> h \<le> u32_max \<and>
       e_status r = (if max_attempts p \<le> e_attempts r then ''dead_letter'' else ''retry'')))"
  using assms
proof (induction sts arbitrary: s)
  case Nil
  then show ?case by (simp add: io_return_def)
next
  case (Cons st sts)
  from Cons.prems obtain row v where
    r: "record_failure w (clk (length sts)) h None st p True s = (Inr row, v)"
    and rest: "fail_through w clk h p sts v = (Inr u, t)"
    by (auto simp: io_simps)
  note c = record_failure_current[OF r, of "failure_id h"]
  have hm: "h \<le> u32_max" using record_failure_ok[OF r] by metis
  show ?case
  proof (cases sts)
    case Nil
    with rest have "t = v" by (simp add: io_return_def)
    then show ?thesis using c hm Nil by (simp add: attempts_of_def)
  next
    case (Cons a b)
    with Cons.IH[OF rest] c show ?thesis by (simp add: attempts_of_def)
  qed
qed

text \<open>The gate lets a height through exactly when nothing is recorded against it, or its record is
  resolved, or it still has attempts left and its retry time has come.\<close>

definition open_record :: "policy \<Rightarrow> bool \<Rightarrow> nat \<Rightarrow> failure option \<Rightarrow> bool" where
  "open_record p once now v = (case v of None \<Rightarrow> True | Some r \<Rightarrow>
     e_status r = ''resolved'' \<or>
     e_status r \<noteq> ''gap'' \<and> e_status r \<noteq> ''dead_letter'' \<and> e_attempts r < max_attempts p \<and>
     (once \<or> e_next_ms r \<le> now))"

lemma gate_open:
  "gate w clk h p once s = (Inr None, t) \<longleftrightarrow>
     h \<le> u32_max \<and> open_record p once (clk 0) (current_failure (failure_id h) s) \<and> t = s"
  by (auto simp: gate_def open_record_def io_simps current_ok not_le not_less
      split: option.splits if_splits)

lemma gate_fst:
  "fst (gate w clk h p once s) = Inr None \<longleftrightarrow>
     h \<le> u32_max \<and> open_record p once (clk 0) (current_failure (failure_id h) s)"
proof -
  obtain r t where g: "gate w clk h p once s = (r, t)" by (metis surj_pair)
  show ?thesis
    using gate_open[of w clk h p once s t] gate_open[of w clk h p once s s] by (auto simp: g)
qed

text \<open>The gate admits a height exactly when its record is open.\<close>

theorem gate_admits:
  "fst (gate w clk h p once s) = Inr None \<longleftrightarrow>
     h \<le> u32_max \<and> open_record p once (clk 0) (current_failure (failure_id h) s)"
  by (rule gate_fst)

text \<open>A height without a record that fails \<open>n\<close> counted times is closed exactly when \<open>n\<close>
  reaches the policy's limit, however the failures are spread over the stages.\<close>

theorem retry_budget:
  assumes "fail_through w clk h p sts s = (Inr (), t)" "sts \<noteq> []"
    and "current_failure (failure_id h) s = None"
  shows "fst (gate w clk' h p True t) = Inr None \<longleftrightarrow> length sts < max_attempts p"
proof -
  from fail_through_attempts[OF assms(1)] assms(2,3) obtain r where
    r: "current_failure (failure_id h) t = Some r" "h \<le> u32_max" "e_attempts r = length sts"
      "e_status r = (if max_attempts p \<le> e_attempts r then ''dead_letter'' else ''retry'')"
    by (auto simp: attempts_of_def)
  then show ?thesis by (auto simp: gate_fst open_record_def)
qed

definition two_attempts :: policy where
  "two_attempts = \<lparr>max_attempts = 2, retry_seconds = 1\<rparr>"

definition failed_twice :: store where
  "failed_twice = snd (fail_through open_wh (\<lambda>i k. 10 * i + k) 5 two_attempts [Fetch, Resolve] bare_store)"

theorem retry_budget_witness:
  "fst (gate open_wh (\<lambda>k. 100) 5 two_attempts True failed_twice) \<noteq> Inr None"
proof -
  let ?run = "fail_through open_wh (\<lambda>i k. 10 * i + k) 5 two_attempts [Fetch, Resolve] bare_store"
  have "is_ok (fst ?run)" by code_simp
  then have run: "?run = (Inr (), failed_twice)"
    unfolding failed_twice_def by (cases ?run) (auto simp: is_ok_iff)
  have "current_failure (failure_id 5) bare_store = None" by code_simp
  with retry_budget[OF run, of "\<lambda>k. 100"] show ?thesis by (simp add: two_attempts_def)
qed

section \<open>Recovery\<close>

lemma current_failure_in:
  assumes "current_failure fid s = Some r"
  shows "r \<in> set (failures s)" "e_network r = network_id Bitcoin" "e_id r = fid"
  using latest_in[of e_revision "failure_rows fid s" r] assms
  by (auto simp: current_failure_def failure_rows_def)

lemma current_failures_set: "set (current_failures s) = {r. current_failure (e_id r) s = Some r}"
proof
  show "set (current_failures s) \<subseteq> {r. current_failure (e_id r) s = Some r}"
    using current_failure_in by (auto simp: current_failures_def set_map_filter)
next
  show "{r. current_failure (e_id r) s = Some r} \<subseteq> set (current_failures s)"
  proof
    fix r assume "r \<in> {r. current_failure (e_id r) s = Some r}"
    then have c: "current_failure (e_id r) s = Some r" by simp
    from current_failure_in[OF c] c show "r \<in> set (current_failures s)"
      by (auto simp: current_failures_def set_map_filter image_iff intro!: bexI[of _ r])
  qed
qed

lemma current_failures_distinct: "distinct (map e_id (current_failures s))"
proof -
  have "distinct (map e_id (List.map_filter (\<lambda>fid. current_failure fid s) xs))" if "distinct xs" for xs
    using that
  proof (induction xs)
    case (Cons x xs)
    then show ?case
      using current_failure_in(3)
      by (auto simp: List.map_filter_simps set_map_filter split: option.splits)
  qed (simp add: List.map_filter_simps)
  then show ?thesis by (simp add: current_failures_def)
qed

lemma recover_row_ok:
  assumes "recover_row clk p (k, row) = Inr q"
  shows "\<exists>ver. q = interrupted_row p (clk (3 * k)) (clk (3 * k + 1)) ver row \<and> e_revision row < ver"
  using assms failure_revision_above unfolding recover_row_def prod.case attempt_ok sum.inject by metis


definition under_repair :: store where
  "under_repair = snd (begin_repair open_wh (\<lambda>k. 50 + k) 5
     (snd (record_failure open_wh (\<lambda>k. 7 + k) 5 None Fetch default_policy True bare_store)))"


section \<open>The gap scan\<close>

text \<open>Over a range whose first height has its predecessor published (or starts the history), the
  scan writes nothing exactly when every height is healthy.\<close>

definition scan_parent :: "sync_state \<Rightarrow> store \<Rightarrow> nat \<Rightarrow> string option" where
  "scan_parent st s h = (if st_start st < h then map_option b_hash (canonical_at Bitcoin (h - 1) s) else None)"

lemma scan_step_clean:
  "scan_step clk st s h (parent, []) = Inr (q, []) \<longleftrightarrow>
     scan_healthy h st s parent \<and> q = map_option b_hash (canonical_at Bitcoin h s)"
  by (auto simp: scan_step_def Let_def ok_simps)

lemma scan_step_grows:
  "scan_step clk st s h (parent, ws) = Inr (q, vs) \<Longrightarrow> \<exists>new. vs = ws @ new"
  by (auto simp: scan_step_def Let_def ok_simps split: if_splits)

lemma scan_loop_grows:
  "foldE (scan_step clk st s) hs (parent, ws) = Inr (q, vs) \<Longrightarrow> \<exists>new. vs = ws @ new"
proof (induction hs arbitrary: parent ws)
  case (Cons h hs)
  then obtain p' ws' where "scan_step clk st s h (parent, ws) = Inr (p', ws')"
    "foldE (scan_step clk st s) hs (p', ws') = Inr (q, vs)"
    by (auto simp: ok_simps)
  with Cons.IH scan_step_grows show ?case by (metis append.assoc)
qed simp

lemma scan_loop_clean:
  assumes "st_start st \<le> from" "0 < n \<longrightarrow> parent = scan_parent st s from"
  shows "(\<exists>q. foldE (scan_step clk st s) [from..<from + n] (parent, []) = Inr (q, [])) \<longleftrightarrow>
    (\<forall>h \<in> {from..<from + n}. scan_healthy h st s (scan_parent st s h))"
  using assms
proof (induction n arbitrary: "from" parent)
  case (Suc n)
  have r: "[from..<from + Suc n] = from # [Suc from..<Suc from + n]"
    by (simp add: upt_conv_Cons)
  have "(\<exists>q. foldE (scan_step clk st s) [from..<from + Suc n] (parent, []) = Inr (q, [])) \<longleftrightarrow>
    (\<exists>p' q. scan_step clk st s from (parent, []) = Inr (p', []) \<and>
       foldE (scan_step clk st s) [Suc from..<Suc from + n] (p', []) = Inr (q, []))"
  proof -
    have "ws = []" if "foldE (scan_step clk st s) hs (p', ws) = Inr (q, [])" for hs p' ws q
      using scan_loop_grows[OF that] by simp
    then show ?thesis unfolding r foldE.simps attempt_ok by (metis surj_pair)
  qed
  also have "\<dots> \<longleftrightarrow> scan_healthy from st s (scan_parent st s from) \<and>
    (\<exists>q. foldE (scan_step clk st s) [Suc from..<Suc from + n]
       (map_option b_hash (canonical_at Bitcoin from s), []) = Inr (q, []))"
    using Suc.prems(2) by (simp add: scan_step_clean)
  also have "\<dots> \<longleftrightarrow> scan_healthy from st s (scan_parent st s from) \<and>
    (\<forall>h \<in> {Suc from..<Suc from + n}. scan_healthy h st s (scan_parent st s h))"
    using Suc.IH[of "Suc from" "map_option b_hash (canonical_at Bitcoin from s)"] Suc.prems(1)
    by (simp add: scan_parent_def)
  also have "\<dots> \<longleftrightarrow> (\<forall>h \<in> {from..<from + Suc n}. scan_healthy h st s (scan_parent st s h))"
  proof -
    have "{from..<from + Suc n} = insert from {Suc from..<Suc from + n}" by auto
    then show ?thesis by simp
  qed
  finally show ?case .
qed simp

lemma scan_rows_clean:
  assumes "st_start st \<le> from" "from \<le> till"
  shows "scan_rows clk st s from till = Inr [] \<longleftrightarrow>
    (\<forall>h \<in> {from..till}. scan_healthy h st s (scan_parent st s h))"
proof -
  have "{from..till} = {from..<from + (Suc till - from)}" using assms by auto
  moreover have "scan_rows clk st s from till = Inr [] \<longleftrightarrow>
    (\<exists>q. foldE (scan_step clk st s) [from..<from + (Suc till - from)] (scan_parent st s from, []) = Inr (q, []))"
    using assms(2) by (auto simp: scan_rows_def ok_simps scan_parent_def)
  ultimately show ?thesis using scan_loop_clean[OF assms(1)] by simp
qed

lemma scan_healthy_iff:
  assumes "st_initialized st = 1" "st_start st \<le> h" "h \<le> st_last st"
    and "st_start st < h \<Longrightarrow> canonical_at Bitcoin (h - 1) s \<noteq> None"
  shows "scan_healthy h st s (scan_parent st s h) \<longleftrightarrow> healthy h st s \<and> 0 < tx_count_at h s"
  using assms by (auto simp: scan_healthy_def healthy_def scan_parent_def split: option.splits)


text \<open>A published block with one transaction.\<close>

definition one_block :: store where
  "one_block = bare_store\<lparr>
     states := [\<lparr>st_network = network_id Bitcoin, st_revision = 3, st_initialized = 1, st_start = 4,
       st_last = 4, st_hash = ''h'', st_observed = 4, st_published = 9\<rparr>],
     blocks := [\<lparr>b_network = network_id Bitcoin, b_number = 4, b_hash = ''h'', b_time_ms = 5,
       b_commit = ''c'', b_revision = 3, b_parent = ''g'', b_canonical = 1, b_status = ''complete'',
       b_tx_count = 1, b_receipt = None, b_trace = None, b_prevout = Some 1, b_source = ''rpc'',
       b_created = 9, b_counts = [], b_evidence = []\<rparr>],
     facts := [(''aml_transactions'', \<lparr>f_network = network_id Bitcoin, f_number = 4, f_hash = ''h'',
       f_time_ms = 5, f_commit = ''c'', f_revision = 3, f_key = ''t'', f_body = []\<rparr>)]\<rparr>"


text \<open>C22: a clean scan of the whole history certifies the chain.\<close>

theorem clean_scan_certifies_chain:
  assumes "st_initialized (current_state Bitcoin s) = 1"
    and "st_start (current_state Bitcoin s) \<le> st_last (current_state Bitcoin s)"
    and "scan_rows clk (current_state Bitcoin s) s (st_start (current_state Bitcoin s))
           (st_last (current_state Bitcoin s)) = Inr []"
  shows "chain_ok Bitcoin s"
proof -
  let ?c = "current_state Bitcoin s"
  have all: "scan_healthy h ?c s (scan_parent ?c s h)" if "st_start ?c \<le> h" "h \<le> st_last ?c" for h
    using scan_rows_clean[of ?c "st_start ?c" "st_last ?c" clk s] assms that by auto
  show ?thesis
    unfolding chain_ok_iff Let_def
  proof (intro impI allI)
    fix h assume h: "st_start ?c \<le> h \<and> h \<le> st_last ?c"
    with all obtain b where b: "canonical_at Bitcoin h s = Some b"
      "case scan_parent ?c s h of None \<Rightarrow> True | Some p \<Rightarrow> p = b_parent b"
      by (fastforce simp: scan_healthy_def split: option.splits)
    have "\<exists>a. canonical_at Bitcoin (h - 1) s = Some a \<and> b_parent b = b_hash a" if lt: "st_start ?c < h"
    proof -
      have "scan_healthy (h - 1) ?c s (scan_parent ?c s (h - 1))" using all[of "h - 1"] h lt by simp
      then obtain a where a: "canonical_at Bitcoin (h - 1) s = Some a"
        by (auto simp: scan_healthy_def split: option.splits)
      then show ?thesis using b(2) lt by (simp add: scan_parent_def)
    qed
    with b(1) show "\<exists>b. canonical_at Bitcoin h s = Some b \<and>
      (st_start ?c < h \<longrightarrow> (\<exists>a. canonical_at Bitcoin (h - 1) s = Some a \<and> b_parent b = b_hash a))"
      by blast
  qed
qed

theorem clean_scan_certifies_chain_witness:
  "st_initialized (current_state Bitcoin one_block) = 1 \<and> chain_ok Bitcoin one_block"
proof -
  have "st_initialized (current_state Bitcoin one_block) = 1 \<and>
      st_start (current_state Bitcoin one_block) \<le> st_last (current_state Bitcoin one_block) \<and>
      scan_rows (\<lambda>_ _. 1) (current_state Bitcoin one_block) one_block
        (st_start (current_state Bitcoin one_block)) (st_last (current_state Bitcoin one_block)) = Inr []"
    by code_simp
  with clean_scan_certifies_chain[of one_block "\<lambda>_ _. 1"] show ?thesis by blast
qed

end
