(* ===== verification/Tx_Context.thy ===== *)
theory Tx_Context
  imports Utxo Subjects
begin

text \<open>
  Canonical transaction contexts and spent-outpoint navigation
  (\<open>dockerizd_bitcoin/src/bitcoin/transactions.rs\<close>). The answers of the database are the
  parameters \<open>chain_db\<close>; the reader's cache and counters are the state. Rows are JSON, read
  field by field as the code reads them.
\<close>

record tx_header =
  hd_number :: nat
  hd_block :: string
  hd_tx :: string
  hd_index :: nat
  hd_time :: nat
  hd_commit :: string
  hd_revision :: nat
  hd_coinbase :: nat
  hd_in_count :: "nat option"
  hd_out_count :: "nat option"
  hd_fee :: string

record leg =
  lg_index :: nat
  lg_subject :: string
  lg_value :: nat
  lg_rel :: string
  lg_prev_tx :: "string option"
  lg_prev_index :: "nat option"

record tx_ctx =
  c_head :: tx_header
  c_inputs :: "leg list"
  c_outputs :: "leg list"
  c_total :: nat
  c_fee :: nat

definition position :: "tx_ctx \<Rightarrow> nat \<times> nat" where
  "position tx = (hd_number (c_head tx), hd_index (c_head tx))"

definition before :: "nat \<times> nat \<Rightarrow> nat \<times> nat \<Rightarrow> bool" where
  "before p q \<longleftrightarrow> fst p < fst q \<or> fst p = fst q \<and> snd p < snd q"

definition tx_key :: "tx_ctx \<Rightarrow> string" where
  "tx_key tx = ''tx:'' @ hd_block (c_head tx) @ '':'' @ hd_tx (c_head tx)"

text \<open>\<open>text\<close> and \<open>number\<close>.\<close>

definition text_field :: "json \<Rightarrow> string \<Rightarrow> string res" where
  "text_field row key = need (as_str (field row key)) ''missing exposure field'' Inr"

definition number_field :: "json \<Rightarrow> string \<Rightarrow> nat res" where
  "number_field row key =
     (case field row key of JStr s \<Rightarrow> need (parse_u64 s) ''invalid digit found in string'' Inr
      | v \<Rightarrow> need (as_u64 v) ''missing exposure integer'' Inr)"

definition index_field :: "json \<Rightarrow> string \<Rightarrow> nat res" where
  "index_field row key = attempt (number_field row key) (\<lambda>n.
     ensure (n < u32_lim) ''out of range integral type conversion attempted'' (Inr n))"

record chain_db =
  db_headers :: "string \<Rightarrow> string \<Rightarrow> tx_header list"      \<comment> \<open>by block and transaction, two at most\<close>
  db_graph :: "string \<Rightarrow> nat \<Rightarrow> bool \<times> json list"        \<comment> \<open>neighbourhood of a transaction, bounded\<close>
  db_previous :: "string \<Rightarrow> nat \<Rightarrow> nat \<times> nat \<Rightarrow> json list" \<comment> \<open>latest occurrence before a position\<close>
  db_spenders :: "string \<Rightarrow> nat \<Rightarrow> nat \<times> nat \<Rightarrow> json list" \<comment> \<open>first spender after a position\<close>
  db_address :: "string \<Rightarrow> string res"
  db_sha :: "nat list \<Rightarrow> nat list"

record reader =
  rd_max_transactions :: nat
  rd_max_legs :: nat
  rd_max_edges :: nat
  rd_cache :: "(string \<times> tx_ctx) list"
  rd_legs :: nat
  rd_truncated :: bool
  rd_missing :: nat

definition reader_new :: "nat \<Rightarrow> nat \<Rightarrow> nat \<Rightarrow> reader" where
  "reader_new txs legs edges = \<lparr>rd_max_transactions = txs, rd_max_legs = legs, rd_max_edges = edges,
     rd_cache = [], rd_legs = 0, rd_truncated = False, rd_missing = 0\<rparr>"

section \<open>Reading one transaction\<close>

definition read_edge :: "chain_db \<Rightarrow> tx_header \<Rightarrow> json \<Rightarrow> (bool \<times> leg) res" where
  "read_edge db h edge =
     attempt (if field edge ''block_hash'' = JStr (hd_block h) \<and> field edge ''tx_hash'' = JStr (hd_tx h)
              then number_field edge ''revision'' else Inl ''exposure occurrence changed'') (\<lambda>ver.
     ensure (ver = hd_revision h \<and> field edge ''commit_id'' = JStr (hd_commit h)) ''exposure occurrence changed''
     (let incoming = (field edge ''transfer_type'' = JStr ''utxo_input'') in
      attempt (text_field edge (if incoming then ''from_subject_id'' else ''to_subject_id'')) (\<lambda>subject.
      attempt (if starts_with subject ''script:'' then Inr ()
               else attempt (db_address db subject) (\<lambda>a.
                 ensure (a = subject) ''noncanonical exposure address'' (Inr ()))) (\<lambda>_.
      attempt (number_field edge ''amount'') (\<lambda>v.
      ensure (v \<le> btc_supply) ''exposure amount exceeds supply''
      (attempt (index_field edge (if incoming then ''input_index'' else ''output_index'')) (\<lambda>i.
       attempt (text_field edge ''id'') (\<lambda>rel.
       attempt (if incoming then attempt (text_field edge ''prev_txid'') (\<lambda>t. Inr (Some t)) else Inr None) (\<lambda>prev.
       attempt (if incoming then attempt (index_field edge ''prev_vout'') (\<lambda>n. Inr (Some n)) else Inr None) (\<lambda>pidx.
       Inr (incoming, \<lparr>lg_index = i, lg_subject = subject, lg_value = v, lg_rel = rel,
                       lg_prev_tx = prev, lg_prev_index = pidx\<rparr>)))))))))))"

definition sum_legs :: "string \<Rightarrow> leg list \<Rightarrow> nat res" where
  "sum_legs msg legs = foldE (\<lambda>l n. need (checked_add64 n (lg_value l)) msg Inr) legs 0"

definition check_tx_ctx :: "tx_header \<Rightarrow> leg list \<Rightarrow> leg list \<Rightarrow> tx_ctx res" where
  "check_tx_ctx h ins outs =
     ensure (distinct (map (\<lambda>l. (lg_prev_tx l, lg_prev_index l)) ins)) ''a transaction repeats a spent outpoint''
     (ensure (hd_coinbase h \<le> 1 \<and> hd_out_count h = Some (u32_cast (length outs)) \<and>
              hd_in_count h = Some (if hd_coinbase h = 1 then 1 else u32_cast (length ins)))
       ''incomplete exposure transaction legs''
     (ensure (map lg_index ins = [0..<length ins] \<and> map lg_index outs = [0..<length outs])
       ''duplicate or missing exposure leg positions''
     (attempt (sum_legs ''exposure input overflow'' ins) (\<lambda>total.
      attempt (sum_legs ''exposure output overflow'' outs) (\<lambda>out.
      need (parse_u64 (hd_fee h)) ''invalid digit found in string'' (\<lambda>fee.
      ensure (total \<le> btc_supply \<and> out \<le> btc_supply \<and>
              (if hd_coinbase h = 1 then ins = [] \<and> fee = 0 else checked_add64 out fee = Some total))
        ''exposure conservation mismatch''
      (Inr \<lparr>c_head = h, c_inputs = ins, c_outputs = outs, c_total = total, c_fee = fee\<rparr>)))))))"

definition read_tx :: "chain_db \<Rightarrow> tx_header \<Rightarrow> json list \<Rightarrow> tx_ctx res" where
  "read_tx db h edges =
     attempt (mapE (read_edge db h) edges) (\<lambda>legs.
     check_tx_ctx h (sort_key lg_index (map snd (filter fst legs)))
                    (sort_key lg_index (map snd (filter (\<lambda>l. \<not> fst l) legs))))"

section \<open>The reader\<close>

definition give_up :: "(reader, 'a option) io" where
  "give_up r = (Inr None, r\<lparr>rd_truncated := True\<rparr>)"

definition note_missing :: "(reader, 'a option) io" where
  "note_missing r = (Inr None, r\<lparr>rd_missing := rd_missing r + 1\<rparr>)"

definition keep_tx :: "string \<Rightarrow> tx_ctx \<Rightarrow> (reader, tx_ctx option) io" where
  "keep_tx key tx r = (Inr (Some tx),
     r\<lparr>rd_legs := rd_legs r + (length (c_inputs tx) + length (c_outputs tx)),
       rd_cache := (key, tx) # rd_cache r\<rparr>)"

definition declared_legs :: "tx_header \<Rightarrow> nat option" where
  "declared_legs h = (case (hd_in_count h, hd_out_count h) of
     (Some i, Some q) \<Rightarrow> Some (saturating_sub i (if hd_coinbase h = 1 then 1 else 0) + q) | _ \<Rightarrow> None)"

definition load :: "chain_db \<Rightarrow> string \<Rightarrow> string \<Rightarrow> (reader, tx_ctx option) io" where
  "load db block tx =
     io_attempt (transaction_subject_id (db_sha db) Bitcoin block tx) (\<lambda>key.
     io_get (\<lambda>r. map_of (rd_cache r) key) (\<lambda>hit. case hit of Some found \<Rightarrow> io_return (Some found) | None \<Rightarrow>
     io_get (\<lambda>r. rd_max_transactions r \<le> length (rd_cache r)) (\<lambda>full. if full then give_up else
     io_ensure (length (db_headers db block tx) = 1) ''missing or ambiguous canonical exposure transaction''
     (let h = hd (db_headers db block tx) in
      io_get (\<lambda>r. case declared_legs h of None \<Rightarrow> False
               | Some n \<Rightarrow> rd_max_edges r < n \<or> rd_max_legs r < rd_legs r + n) (\<lambda>big. if big then give_up else
      io_get (\<lambda>r. db_graph db key (rd_max_edges r)) (\<lambda>g.
      io_get (\<lambda>r. fst g \<or> rd_max_legs r < rd_legs r + length (snd g)) (\<lambda>big. if big then give_up else
      io_attempt (read_tx db h (snd g)) (keep_tx key))))))))"

definition previous :: "chain_db \<Rightarrow> tx_ctx \<Rightarrow> leg \<Rightarrow> (reader, (tx_ctx \<times> nat) option) io" where
  "previous db tx input =
     io_need (lg_prev_tx input) ''prevout missing'' (\<lambda>prev.
     io_need (lg_prev_index input) ''prevout index missing'' (\<lambda>index.
     (case db_previous db prev index (position tx) of [] \<Rightarrow> note_missing
      | row # _ \<Rightarrow>
         io_attempt (text_field row ''block_hash'') (\<lambda>block.
         io_attempt (text_field row ''tx_hash'') (\<lambda>hash.
         io_then (load db block hash) (\<lambda>found. case found of None \<Rightarrow> io_return None | Some parent \<Rightarrow>
         io_need (nth_opt (c_outputs parent) index) ''prevout index absent from canonical occurrence'' (\<lambda>output.
         io_ensure (before (position parent) (position tx) \<and> lg_value output = lg_value input \<and>
                    lg_subject output = lg_subject input)
           ''prevout occurrence/value/subject mismatch''
           (io_return (Some (parent, index)))))))))) "

definition spender :: "chain_db \<Rightarrow> tx_ctx \<Rightarrow> nat \<Rightarrow> (reader, (tx_ctx \<times> nat) option) io" where
  "spender db tx index =
     (case db_spenders db (hd_tx (c_head tx)) index (position tx) of [] \<Rightarrow> io_return None
      | row # _ \<Rightarrow>
         io_attempt (text_field row ''block_hash'') (\<lambda>block.
         io_attempt (text_field row ''tx_hash'') (\<lambda>hash.
         io_then (load db block hash) (\<lambda>found. case found of None \<Rightarrow> io_return None | Some child \<Rightarrow>
         io_attempt (number_field row ''input_index'') (\<lambda>i.
         io_need (nth_opt (c_inputs child) i) ''spending input missing'' (\<lambda>input.
         io_then (previous db child input) (\<lambda>back. case back of None \<Rightarrow> io_return None
         | Some (parent, pindex) \<Rightarrow>
             if tx_key parent \<noteq> tx_key tx \<or> pindex \<noteq> index then note_missing
             else io_return (Some (child, i))))))))) "

section \<open>What a loaded transaction guarantees\<close>

definition sound_tx_ctx :: "tx_ctx \<Rightarrow> bool" where
  "sound_tx_ctx tx \<longleftrightarrow>
     c_total tx = sum_list (map lg_value (c_inputs tx)) \<and> c_total tx \<le> btc_supply \<and>
     sum_list (map lg_value (c_outputs tx)) \<le> btc_supply \<and>
     hd_coinbase (c_head tx) \<le> 1 \<and>
     (if hd_coinbase (c_head tx) = 1 then c_inputs tx = [] \<and> c_fee tx = 0
      else sum_list (map lg_value (c_outputs tx)) + c_fee tx = c_total tx) \<and>
     map lg_index (c_inputs tx) = [0..<length (c_inputs tx)] \<and>
     map lg_index (c_outputs tx) = [0..<length (c_outputs tx)] \<and>
     distinct (map (\<lambda>l. (lg_prev_tx l, lg_prev_index l)) (c_inputs tx))"

lemma sum_legs_ok: "sum_legs msg legs = Inr n \<Longrightarrow> n = sum_list (map lg_value legs)"
proof -
  have "foldE (\<lambda>l n. need (checked_add64 n (lg_value l)) msg Inr) legs m = Inr n \<Longrightarrow>
      n = m + sum_list (map lg_value legs)" for m
  proof (induction legs arbitrary: m)
    case (Cons a legs)
    then have "foldE (\<lambda>l n. need (checked_add64 n (lg_value l)) msg Inr) legs (m + lg_value a) = Inr n"
      by (auto simp: ok_simps)
    from Cons.IH[OF this] show ?case by simp
  qed simp
  from this[of 0] show "sum_legs msg legs = Inr n \<Longrightarrow> n = sum_list (map lg_value legs)"
    by (simp add: sum_legs_def)
qed

lemma read_tx_sound:
  assumes "read_tx db h edges = Inr tx"
  shows "sound_tx_ctx tx \<and> c_head tx = h \<and> length (c_inputs tx) + length (c_outputs tx) = length edges"
proof -
  from assms obtain legs ins outs where legs: "mapE (read_edge db h) edges = Inr legs"
    and io: "ins = sort_key lg_index (map snd (filter fst legs))"
      "outs = sort_key lg_index (map snd (filter (\<lambda>l. \<not> fst l) legs))"
    and c: "check_tx_ctx h ins outs = Inr tx"
    by (auto simp: read_tx_def ok_simps)
  have "length legs = length edges" using legs by (auto simp: mapE_ok dest: list_all2_lengthD)
  then have "length ins + length outs = length edges"
    unfolding io by (simp add: sum_length_filter_compl)
  with c show ?thesis
    by (auto simp: check_tx_ctx_def ok_simps sound_tx_ctx_def dest: sum_legs_ok split: if_splits)
qed

text \<open>The reader's cache holds sound transactions under their own keys, within its limits.\<close>

definition reader_ok :: "reader \<Rightarrow> bool" where
  "reader_ok r \<longleftrightarrow>
     (\<forall>(key, tx) \<in> set (rd_cache r). sound_tx_ctx tx) \<and>
     length (rd_cache r) \<le> rd_max_transactions r \<and> rd_legs r \<le> rd_max_legs r \<and>
     rd_legs r = sum_list (map (\<lambda>(k, tx). length (c_inputs tx) + length (c_outputs tx)) (rd_cache r)) \<and>
     distinct (map fst (rd_cache r))"

text \<open>What the queries promise: rows of the transaction they were asked for.\<close>

definition honest_db :: "chain_db \<Rightarrow> bool" where
  "honest_db db \<longleftrightarrow>
     (\<forall>b t. \<forall>h \<in> set (db_headers db b t). hd_block h = b \<and> hd_tx h = t) \<and>
     (\<forall>t i p. \<forall>row \<in> set (db_previous db t i p). field row ''tx_hash'' = JStr t)"

definition keyed :: "reader \<Rightarrow> bool" where
  "keyed r \<longleftrightarrow> (\<forall>(k, tx) \<in> set (rd_cache r). k = tx_key tx \<and> occurrence_syntax Bitcoin k = Inr ())"

definition reads :: "chain_db \<Rightarrow> reader \<Rightarrow> reader \<Rightarrow> bool" where
  "reads db r r' \<longleftrightarrow> (reader_ok r \<longrightarrow> reader_ok r') \<and> (honest_db db \<longrightarrow> keyed r \<longrightarrow> keyed r') \<and>
     set (rd_cache r) \<subseteq> set (rd_cache r') \<and>
     rd_max_transactions r' = rd_max_transactions r \<and> rd_max_legs r' = rd_max_legs r \<and>
     rd_max_edges r' = rd_max_edges r"

interpretation reads: effect_order "reads db" for db
  by unfold_locales (auto simp: reads_def)

lemma reads_give_up: "leads (reads db) give_up"
  by (simp add: leads_def give_up_def reads_def reader_ok_def keyed_def)

lemma reads_note_missing: "leads (reads db) note_missing"
  by (simp add: leads_def note_missing_def reads_def reader_ok_def keyed_def)

lemma load_cases:
  assumes "load db block tx r = (q, r')"
  obtains (fail) "r' = r" "\<exists>e. q = Inl e"
  | (hit) found key where "r' = r" "q = Inr (Some found)" "(key, found) \<in> set (rd_cache r)"
      "transaction_subject_id (db_sha db) Bitcoin block tx = Inr key"
  | (gone) "r' = r\<lparr>rd_truncated := True\<rparr>" "q = Inr None"
  | (fresh) key found where "transaction_subject_id (db_sha db) Bitcoin block tx = Inr key"
      "map_of (rd_cache r) key = None" "length (rd_cache r) < rd_max_transactions r"
      "rd_legs r + (length (c_inputs found) + length (c_outputs found)) \<le> rd_max_legs r"
      "sound_tx_ctx found" "c_head found \<in> set (db_headers db block tx)" "keep_tx key found r = (q, r')"
proof (cases "transaction_subject_id (db_sha db) Bitcoin block tx")
  case (Inl e)
  then show ?thesis using assms fail by (auto simp: load_def io_attempt_def)
next
  case (Inr key)
  show ?thesis
  proof (cases "map_of (rd_cache r) key")
    case (Some found)
    then show ?thesis using assms Inr hit[of found key] map_of_SomeD[OF Some]
      by (simp add: load_def io_attempt_def io_get_def io_return_def)
  next
    case None
    let ?h = "hd (db_headers db block tx)"
    let ?g = "db_graph db key (rd_max_edges r)"
    show ?thesis
    proof (cases "rd_max_transactions r \<le> length (rd_cache r)")
      case True
      then show ?thesis using assms Inr None gone
        by (simp add: load_def io_attempt_def io_get_def give_up_def)
    next
      case room: False
      show ?thesis
      proof (cases "length (db_headers db block tx) = 1")
        case False
        then show ?thesis using assms Inr None room fail
          by (auto simp: load_def io_attempt_def io_get_def io_ensure_def Let_def)
      next
        case one: True
        let ?big = "(case declared_legs ?h of None \<Rightarrow> False
               | Some n \<Rightarrow> rd_max_edges r < n \<or> rd_max_legs r < rd_legs r + n) \<or>
               fst ?g \<or> rd_max_legs r < rd_legs r + length (snd ?g)"
        show ?thesis
        proof (cases ?big)
          case True
          then show ?thesis using assms Inr None room one gone
            by (auto simp: load_def io_attempt_def io_get_def io_ensure_def give_up_def Let_def
                split: if_split_asm)
        next
          case small: False
          then have run: "io_attempt (read_tx db ?h (snd ?g)) (keep_tx key) r = (q, r')"
            using assms Inr None room one
            by (auto simp: load_def io_attempt_def io_get_def io_ensure_def Let_def)
          show ?thesis
          proof (cases "read_tx db ?h (snd ?g)")
            case (Inl e)
            then show ?thesis using run fail by (auto simp: io_attempt_def)
          next
            case (Inr found)
            have "?h \<in> set (db_headers db block tx)" using one by (cases "db_headers db block tx") auto
            with read_tx_sound[OF Inr] run small room None fresh[of key found]
              \<open>transaction_subject_id (db_sha db) Bitcoin block tx = Inr key\<close> Inr
            show ?thesis by (simp add: io_attempt_def)
          qed
        qed
      qed
    qed
  qed
qed

lemma reads_load: "leads (reads db) (load db block tx)"
  unfolding leads_def
proof
  fix r
  obtain q r' where run: "load db block tx r = (q, r')" by (metis surj_pair)
  show "reads db r (snd (load db block tx r))"
    using run
  proof (cases rule: load_cases)
    case (fresh key found)
    then have "r' = r\<lparr>rd_legs := rd_legs r + (length (c_inputs found) + length (c_outputs found)),
       rd_cache := (key, found) # rd_cache r\<rparr>"
      by (simp add: keep_tx_def)
    moreover have "key \<notin> fst ` set (rd_cache r)" using fresh(2) by (simp add: map_of_eq_None_iff)
    moreover have "key = tx_key found \<and> occurrence_syntax Bitcoin key = Inr ()" if "honest_db db"
      using that fresh by (auto simp: transaction_subject_ok tx_key_def honest_db_def)
    ultimately show ?thesis using fresh run by (auto simp: reads_def reader_ok_def keyed_def)
  qed (auto simp: run reads_def reader_ok_def keyed_def)
qed

lemma reads_previous: "leads (reads db) (previous db tx input)"
  unfolding previous_def
  by (intro reads.leads_need) (auto split: list.split intro!: reads_note_missing reads.leads_steps reads_load split: option.split)

lemma reads_spender: "leads (reads db) (spender db tx index)"
  unfolding spender_def
  by (auto split: list.split intro!: reads_note_missing reads.leads_steps reads_load reads_previous split: option.split)

lemma leads_apply: "leads R m \<Longrightarrow> m r = (q, r') \<Longrightarrow> R r r'"
  unfolding leads_def by (metis snd_conv)

section \<open>Following outpoints\<close>

text \<open>The input \<open>l\<close> spends the output \<open>i\<close> of \<open>p\<close>.\<close>

definition spends :: "leg \<Rightarrow> tx_ctx \<Rightarrow> nat \<Rightarrow> bool" where
  "spends l p i \<longleftrightarrow> lg_prev_tx l = Some (hd_tx (c_head p)) \<and> lg_prev_index l = Some i \<and>
     i < length (c_outputs p) \<and> lg_value (c_outputs p ! i) = lg_value l \<and>
     lg_subject (c_outputs p ! i) = lg_subject l"

definition good_reader :: "chain_db \<Rightarrow> reader \<Rightarrow> bool" where
  "good_reader db r \<longleftrightarrow> honest_db db \<and> reader_ok r \<and> keyed r"

definition known :: "reader \<Rightarrow> tx_ctx \<Rightarrow> bool" where
  "known r tx \<longleftrightarrow> (tx_key tx, tx) \<in> set (rd_cache r) \<and> sound_tx_ctx tx"

lemma good_reads: "leads (reads db) m \<Longrightarrow> m r = (q, r') \<Longrightarrow> good_reader db r \<Longrightarrow> good_reader db r'"
  using leads_apply[of "reads db" m r q r'] by (auto simp: good_reader_def reads_def)

lemma known_reads: "leads (reads db) m \<Longrightarrow> m r = (q, r') \<Longrightarrow> known r tx \<Longrightarrow> known r' tx"
  using leads_apply[of "reads db" m r q r'] by (auto simp: known_def reads_def)

lemma load_found:
  assumes "load db block tx r = (Inr (Some found), r')" "good_reader db r"
  shows "hd_tx (c_head found) = tx \<and> known r' found"
  using assms(1)
proof (cases rule: load_cases)
  case (hit f key)
  then have k: "key = tx_key found" "sound_tx_ctx found"
    using assms(2) by (auto simp: good_reader_def keyed_def reader_ok_def)
  then have "hd_tx (c_head found) = tx"
    using hit(4) occurrence_text_unique unfolding transaction_subject_ok tx_key_def by metis
  with hit k show ?thesis by (simp add: known_def)
next
  case (fresh key f)
  then have "key = tx_key found" "hd_tx (c_head found) = tx"
    using assms(2) by (auto simp: keep_tx_def good_reader_def honest_db_def transaction_subject_ok tx_key_def)
  with fresh show ?thesis by (auto simp: keep_tx_def known_def)
qed auto

lemma previous_link:
  assumes run: "previous db tx input r = (Inr (Some (parent, i)), r')" and good: "good_reader db r"
  shows "spends input parent i \<and> before (position parent) (position tx) \<and> known r' parent"
proof -
  from run obtain prev idx where p0: "lg_prev_tx input = Some prev" "lg_prev_index input = Some idx"
    by (auto simp: previous_def io_need_ok)
  from run p0 obtain row rows where p1: "db_previous db prev idx (position tx) = row # rows"
    by (cases "db_previous db prev idx (position tx)")
      (auto simp: previous_def note_missing_def io_simps)
  from run p0 p1 obtain block hash where f: "text_field row ''tx_hash'' = Inr hash"
    and l: "load db block hash r = (Inr (Some parent), r')"
    and i: "idx = i"
    and c: "i < length (c_outputs parent)" "before (position parent) (position tx)"
      "lg_value (c_outputs parent ! i) = lg_value input" "lg_subject (c_outputs parent ! i) = lg_subject input"
    by (auto simp: previous_def io_simps ok_simps split: option.splits)
  note p = p0[unfolded i] p1[unfolded i]
  have "field row ''tx_hash'' = JStr prev" 
    using good p(3) unfolding good_reader_def honest_db_def by (metis list.set_intros(1))
  then have "hash = prev" using f by (simp add: text_field_def ok_simps)
  with load_found[OF l good] p c show ?thesis by (simp add: spends_def)
qed

lemma spender_link:
  assumes run: "spender db tx i r = (Inr (Some (child, j)), r')" and good: "good_reader db r"
    and tx: "known r tx"
  shows "j < length (c_inputs child) \<and> spends (c_inputs child ! j) tx i \<and>
    before (position tx) (position child) \<and> known r' child"
proof -
  from run obtain row rows where
    row: "db_spenders db (hd_tx (c_head tx)) i (position tx) = row # rows"
    by (cases "db_spenders db (hd_tx (c_head tx)) i (position tx)") (auto simp: spender_def io_simps)
  from run row obtain block hash x u where l: "load db block hash r = (Inr (Some x), u)"
    and rest: "io_attempt (number_field row ''input_index'') (\<lambda>i'.
         io_need (nth_opt (c_inputs x) i') ''spending input missing'' (\<lambda>input.
         io_then (previous db x input) (\<lambda>back. case back of None \<Rightarrow> io_return None
         | Some (parent, pindex) \<Rightarrow>
             if tx_key parent \<noteq> tx_key tx \<or> pindex \<noteq> i then note_missing
             else io_return (Some (x, i'))))) u = (Inr (Some (child, j)), r')"
    by (auto simp: spender_def io_attempt_ok io_then_ok io_return_def split: option.splits)
  from rest obtain parent where x: "x = child" and j: "j < length (c_inputs child)"
    and p: "previous db child (c_inputs child ! j) u = (Inr (Some (parent, i)), r')"
    and k: "tx_key parent = tx_key tx"
    by (auto simp: io_simps ok_simps note_missing_def split: option.splits prod.splits if_split_asm)
  note l = l[unfolded x]
  have gu: "good_reader db u" using good_reads[OF reads_load l good] .
  have gr: "good_reader db r'" using good_reads[OF reads_previous p gu] .
  have kc: "known r' child" using known_reads[OF reads_previous p] load_found[OF l good] by blast
  have ktx: "known r' tx" using known_reads[OF reads_previous p] known_reads[OF reads_load l] tx by blast
  from previous_link[OF p gu] have s: "spends (c_inputs child ! j) parent i"
    "before (position parent) (position child)" "known r' parent" by blast+
  have "parent = tx"
  proof -
    have "distinct (map fst (rd_cache r'))" using gr by (simp add: good_reader_def reader_ok_def)
    with ktx s(3) k show ?thesis by (metis known_def map_of_is_SomeI option.inject)
  qed
  with s j kc show ?thesis by simp
qed

text \<open>What the walks along outpoints rely on: every step backwards or forwards follows an actual
  spend, strictly in chain order, between transactions the source vouches for.\<close>

locale outpoint_walk =
  fixes prior :: "tx_ctx \<Rightarrow> leg \<Rightarrow> ('s, (tx_ctx \<times> nat) option) io"
    and later :: "tx_ctx \<Rightarrow> nat \<Rightarrow> ('s, (tx_ctx \<times> nat) option) io"
    and good :: "'s \<Rightarrow> bool"
    and vouched :: "'s \<Rightarrow> tx_ctx \<Rightarrow> bool"
  assumes prior_keeps: "good s \<Longrightarrow> prior tx l s = (r, t) \<Longrightarrow> good t \<and> (\<forall>x. vouched s x \<longrightarrow> vouched t x)"
    and later_keeps: "good s \<Longrightarrow> later tx i s = (r, t) \<Longrightarrow> good t \<and> (\<forall>x. vouched s x \<longrightarrow> vouched t x)"
    and prior_link: "good s \<Longrightarrow> prior tx l s = (Inr (Some (p, i)), t) \<Longrightarrow>
      spends l p i \<and> before (position p) (position tx) \<and> vouched t p"
    and later_link: "good s \<Longrightarrow> vouched s tx \<Longrightarrow> later tx i s = (Inr (Some (c, j)), t) \<Longrightarrow>
      j < length (c_inputs c) \<and> spends (c_inputs c ! j) tx i \<and> before (position tx) (position c) \<and> vouched t c"
    and vouched_sound: "vouched s tx \<Longrightarrow> sound_tx_ctx tx"

interpretation walk: outpoint_walk "previous db" "spender db" "good_reader db" "known"
proof unfold_locales
  fix s tx l r t
  assume "good_reader db s" "previous db tx l s = (r, t)"
  then show "good_reader db t \<and> (\<forall>x. known s x \<longrightarrow> known t x)"
    using good_reads[OF reads_previous] known_reads[OF reads_previous] by blast
next
  fix s tx i r t
  assume "good_reader db s" "spender db tx i s = (r, t)"
  then show "good_reader db t \<and> (\<forall>x. known s x \<longrightarrow> known t x)"
    using good_reads[OF reads_spender] known_reads[OF reads_spender] by blast
next
  show "known s tx \<Longrightarrow> sound_tx_ctx tx" for s tx by (simp add: known_def)
qed (use previous_link spender_link in blast)+

text \<open>The reader only ever caches transactions whose values balance, under their own identity,
  and never exceeds its transaction and leg budgets, whatever the queries answer.\<close>

theorem reader_keeps_budgets:
  assumes "reader_ok r" "load db block tx r = (q, r')"
  shows "reader_ok r' \<and> (\<forall>found. q = Inr (Some found) \<longrightarrow> sound_tx_ctx found)"
proof -
  have "reader_ok r'" using leads_apply[OF reads_load assms(2)] assms(1) by (simp add: reads_def)
  moreover have "sound_tx_ctx found" if "q = Inr (Some found)" for found
    using assms(2)
  proof (cases rule: load_cases)
    case (hit f key)
    with assms(1) that show ?thesis by (auto simp: reader_ok_def)
  next
    case (fresh key f)
    with that show ?thesis by (simp add: keep_tx_def)
  qed (use that in auto)
  ultimately show ?thesis by blast
qed

text \<open>C26: the transaction found to spend an output really spends it: one of its inputs names that
  output, with its value and owner, and it stands later in the chain.\<close>

theorem spender_follows_outpoint:
  assumes "honest_db db" "reader_ok r" "keyed r" "known r tx"
    and "spender db tx i r = (Inr (Some (child, j)), r')"
  shows "j < length (c_inputs child) \<and> spends (c_inputs child ! j) tx i \<and>
    before (position tx) (position child) \<and> sound_tx_ctx child"
  using walk.later_link[of db r tx i child j r'] walk.vouched_sound assms
  by (auto simp: good_reader_def)

section \<open>A source over a list of transactions\<close>

text \<open>The four queries answered from a list of transactions in chain order.\<close>

definition leg_row :: "tx_header \<Rightarrow> bool \<Rightarrow> leg \<Rightarrow> json" where
  "leg_row h incoming l = JObj ([(''block_hash'', JStr (hd_block h)), (''tx_hash'', JStr (hd_tx h)),
     (''revision'', JStr (show_nat (hd_revision h))), (''commit_id'', JStr (hd_commit h)),
     (''amount'', JStr (show_nat (lg_value l))), (''id'', JStr (lg_rel l))] @
     (if incoming then [(''transfer_type'', JStr ''utxo_input''), (''from_subject_id'', JStr (lg_subject l)),
        (''input_index'', JNum (show_nat (lg_index l))),
        (''prev_txid'', case lg_prev_tx l of None \<Rightarrow> JNull | Some t \<Rightarrow> JStr t),
        (''prev_vout'', case lg_prev_index l of None \<Rightarrow> JNull | Some n \<Rightarrow> JNum (show_nat n))]
      else [(''transfer_type'', JStr ''utxo_output''), (''to_subject_id'', JStr (lg_subject l)),
        (''output_index'', JNum (show_nat (lg_index l)))]))"

definition tx_rows :: "tx_ctx \<Rightarrow> json list" where
  "tx_rows tx = map (leg_row (c_head tx) True) (c_inputs tx) @ map (leg_row (c_head tx) False) (c_outputs tx)"

definition spent_by :: "string \<Rightarrow> nat \<Rightarrow> tx_ctx \<Rightarrow> leg list" where
  "spent_by t i tx = filter (\<lambda>l. lg_prev_tx l = Some t \<and> lg_prev_index l = Some i) (c_inputs tx)"

definition occurrence_row :: "tx_ctx \<Rightarrow> (string \<times> json) list \<Rightarrow> json" where
  "occurrence_row tx extra =
     JObj ([(''block_hash'', JStr (hd_block (c_head tx))), (''tx_hash'', JStr (hd_tx (c_head tx)))] @ extra)"

definition ledger_headers :: "tx_ctx list \<Rightarrow> string \<Rightarrow> string \<Rightarrow> tx_header list" where
  "ledger_headers txs b t = map c_head (filter (\<lambda>x. hd_block (c_head x) = b \<and> hd_tx (c_head x) = t) txs)"

definition ledger_graph :: "tx_ctx list \<Rightarrow> string \<Rightarrow> nat \<Rightarrow> bool \<times> json list" where
  "ledger_graph txs key n =
     (let rows = concat (map tx_rows (filter (\<lambda>x. tx_key x = key) txs)) in (n < length rows, take n rows))"

definition ledger_previous :: "tx_ctx list \<Rightarrow> string \<Rightarrow> nat \<Rightarrow> nat \<times> nat \<Rightarrow> json list" where
  "ledger_previous txs t i p = map (\<lambda>x. occurrence_row x [])
     (filter (\<lambda>x. hd_tx (c_head x) = t \<and> i < length (c_outputs x) \<and> before (position x) p) (List.rev txs))"

definition ledger_spenders :: "tx_ctx list \<Rightarrow> string \<Rightarrow> nat \<Rightarrow> nat \<times> nat \<Rightarrow> json list" where
  "ledger_spenders txs t i p = concat (map (\<lambda>x. map (\<lambda>l.
       occurrence_row x [(''input_index'', JNum (show_nat (lg_index l)))]) (spent_by t i x))
     (filter (\<lambda>x. before p (position x)) txs))"

definition ledger_db :: "tx_ctx list \<Rightarrow> chain_db" where
  "ledger_db txs = \<lparr>db_headers = ledger_headers txs, db_graph = ledger_graph txs,
     db_previous = ledger_previous txs, db_spenders = ledger_spenders txs,
     db_address = Inr, db_sha = id\<rparr>"

lemma honest_ledger: "honest_db (ledger_db txs)"
  by (auto simp: honest_db_def ledger_db_def ledger_headers_def ledger_previous_def occurrence_row_def field_def)

text \<open>A coin spent three times, each time to a large and a small output.\<close>

definition sample_tx :: "nat \<Rightarrow> char \<Rightarrow> char option \<Rightarrow> nat \<Rightarrow> nat list \<Rightarrow> tx_ctx" where
  "sample_tx n c prev v outs =
     (let t = replicate 64 c;
          ins = (case prev of None \<Rightarrow> [] | Some p \<Rightarrow>
            [\<lparr>lg_index = 0, lg_subject = [p], lg_value = v, lg_rel = ''r'',
              lg_prev_tx = Some (replicate 64 p), lg_prev_index = Some 0\<rparr>]);
          os = map (\<lambda>i. \<lparr>lg_index = i, lg_subject = (if i = 0 then [c] else [c, CHR ''x'']), lg_value = outs ! i,
                  lg_rel = ''r'', lg_prev_tx = None, lg_prev_index = None\<rparr>) [0..<length outs];
          fee = (if prev = None then 0 else v - sum_list outs)
      in \<lparr>c_head = \<lparr>hd_number = n, hd_block = replicate 64 (CHR ''a''), hd_tx = t, hd_index = 0, hd_time = n,
            hd_commit = ''c'', hd_revision = n, hd_coinbase = (if prev = None then 1 else 0),
            hd_in_count = Some 1, hd_out_count = Some (length outs), hd_fee = show_nat fee\<rparr>,
          c_inputs = ins, c_outputs = os, c_total = (if prev = None then 0 else v), c_fee = fee\<rparr>)"

definition coin_tx :: tx_ctx where "coin_tx = sample_tx 1 (CHR ''1'') None 0 [1000]"

definition spend_tx :: tx_ctx where "spend_tx = sample_tx 2 (CHR ''2'') (Some (CHR ''1'')) 1000 [800, 150]"

definition sample_db :: chain_db where
  "sample_db = ledger_db [coin_tx, spend_tx,
     sample_tx 3 (CHR ''3'') (Some (CHR ''2'')) 800 [600, 100],
     sample_tx 4 (CHR ''4'') (Some (CHR ''3'')) 600 [500, 100]]"

definition sample_load :: "(reader, tx_ctx option) io" where
  "sample_load = load sample_db (replicate 64 (CHR ''a'')) (replicate 64 (CHR ''1''))"

fun answered :: "'a option res \<Rightarrow> bool" where
  "answered (Inr (Some _)) = True"
| "answered _ = False"

lemma answered_some: "answered (fst p) \<Longrightarrow> \<exists>x t. p = (Inr (Some x), t)"
  by (cases p, cases "fst p" rule: answered.cases) auto

lemma good_reader_new: "honest_db db \<Longrightarrow> good_reader db (reader_new n m k)"
  by (auto simp: good_reader_def reader_ok_def keyed_def reader_new_def)

lemma sample_answers: "answered (fst (sample_load (reader_new 8 64 64)))"
  "case sample_load (reader_new 8 64 64) of
     (Inr (Some tx), r) \<Rightarrow> answered (fst (spender sample_db tx 0 r)) | _ \<Rightarrow> False"
  by code_simp+

theorem reader_keeps_budgets_witness:
  "\<exists>tx r. sample_load (reader_new 8 64 64) = (Inr (Some tx), r) \<and> reader_ok r \<and> sound_tx_ctx tx"
proof -
  obtain tx r where l: "sample_load (reader_new 8 64 64) = (Inr (Some tx), r)"
    using answered_some[OF sample_answers(1)] by blast
  have "reader_ok (reader_new 8 64 64)"
    using good_reader_new[OF honest_ledger] by (simp add: good_reader_def)
  from reader_keeps_budgets[OF this l[unfolded sample_load_def]] l show ?thesis by blast
qed

theorem spender_follows_outpoint_witness:
  "\<exists>tx r child j r'. sample_load (reader_new 8 64 64) = (Inr (Some tx), r) \<and>
     spender sample_db tx 0 r = (Inr (Some (child, j)), r') \<and> spends (c_inputs child ! j) tx 0"
proof -
  have h: "honest_db sample_db" by (simp add: sample_db_def honest_ledger)
  obtain tx r where l: "sample_load (reader_new 8 64 64) = (Inr (Some tx), r)"
    using answered_some[OF sample_answers(1)] by blast
  with sample_answers(2) have "answered (fst (spender sample_db tx 0 r))" by simp
  from answered_some[OF this] obtain p r' where s: "spender sample_db tx 0 r = (Inr (Some p), r')" by blast
  note l' = l[unfolded sample_load_def] and g = good_reader_new[OF h]
  have k: "known r tx" using load_found[OF l' g] by blast
  have "good_reader sample_db r" using good_reads[OF reads_load l' g] .
  with s l k show ?thesis
    using spender_follows_outpoint[of sample_db r tx 0 "fst p" "snd p" r'] h
    by (cases p) (auto simp: good_reader_def)
qed

end
