(* ===== verification/Patterns.thy ===== *)
theory Patterns
  imports Tx_Context Evidence_Check Publication "HOL-Library.List_Lexorder" "HOL-Library.Char_ord"
begin

text \<open>
  Descriptive transaction patterns (\<open>dockerizd_bitcoin/src/semantics.rs\<close>): the detectors
  over one transaction, the rows they add to a block, and the bounded chains of peels that
  follow actually spent outpoints. The SHA-256 digest of a document is the parameter \<open>dg\<close>;
  a float is the JSON number serde writes for it. Ordered sets of strings are sorted lists.
\<close>

definition semantics_version :: string where "semantics_version = ''bitcoin_semantics_v1''"

definition max_legs :: nat where "max_legs = 256"

definition max_roots :: nat where "max_roots = 25"

definition max_contexts :: nat where "max_contexts = 60"

definition max_total_legs :: nat where "max_total_legs = 4096"

definition max_events :: nat where "max_events = 128"

definition max_bytes :: nat where "max_bytes = 2 * 1024 * 1024"

definition max_chain :: nat where "max_chain = 5"

definition string_set :: "string list \<Rightarrow> string list" where
  "string_set xs = sort (remdups xs)"

lemma set_string_set [simp]: "set (string_set xs) = set xs" "distinct (string_set xs)"
  by (simp_all add: string_set_def)

lemma length_string_set: "length (string_set xs) = card (set xs)"
  by (simp add: string_set_def length_remdups_card_conv)

section \<open>The published definition of the detectors\<close>

definition semantics_limitations :: json where
  "semantics_limitations = jstrs
     [''Project heuristics; thresholds are not a regulatory standard or a crime classifier.'',
      ''Batch payments, wallet maintenance and collaborative transactions can match these patterns.'',
      ''Equal outputs identify only possible CoinJoin; they do not identify every CoinJoin or a mixing service.'',
      ''Largest output is a shape observation, not identification of change or common ownership.'',
      ''No bridge or mixer event is produced without independent protocol evidence.'']"

definition semantics_definition :: json where
  "semantics_definition = JObj [(''contract'', JStr ''bitcoin_semantics_v1''), (''network_id'', JStr (network_id Bitcoin)),
     (''detector_version'', JStr semantics_version),
     (''rules'', JObj
       [(''consolidation'', JObj [(''minimum_inputs'', jnat 5), (''positive_outputs'', jnat 1), (''confidence'', JNum ''0.6'')]),
        (''fan_out'', JObj [(''minimum_inputs'', jnat 1), (''maximum_inputs'', jnat 2),
           (''minimum_positive_outputs'', jnat 5), (''minimum_output_subjects'', jnat 3), (''confidence'', JNum ''0.6'')]),
        (''possible_coinjoin'', JObj [(''minimum_input_subjects'', jnat 3),
           (''minimum_equal_outputs_to_distinct_addresses'', jnat 3), (''confidence'', JNum ''0.35'')]),
        (''peel_step'', JObj [(''inputs'', jnat 1), (''positive_outputs'', jnat 2),
           (''minimum_large_small_ratio'', jnat 4), (''confidence'', JNum ''0.45'')]),
        (''peel_chain'', JObj [(''minimum_steps'', jnat 3), (''maximum_steps'', jnat max_chain),
           (''maximum_backward_steps'', jnat 2), (''link'', JStr ''actual_spent_largest_output''), (''confidence'', JNum ''0.5'')])]),
     (''limits'', JObj [(''legs_per_transaction'', jnat max_legs), (''roots'', jnat max_roots),
        (''context_transactions'', jnat max_contexts), (''total_legs'', jnat max_total_legs),
        (''events'', jnat max_events), (''evidence_bytes'', jnat max_bytes)]),
     (''score_eligible'', JBool False), (''ownership_claimed'', JBool False), (''fund_continuity_claimed'', JBool False),
     (''confidence_semantics'', JStr ''versioned_pattern_match_strength_not_probability_of_crime''),
     (''limitations'', semantics_limitations)]"

definition semantics_config :: "(json \<Rightarrow> string) \<Rightarrow> json" where
  "semantics_config dg = JObj [(''network_id'', JStr (network_id Bitcoin)), (''contract'', JStr ''bitcoin_semantics_config_v1''),
     (''detector_version'', JStr semantics_version), (''definition_hash'', JStr (dg semantics_definition)),
     (''definition'', semantics_definition)]"

definition semantics_current :: "(json \<Rightarrow> string) \<Rightarrow> json \<Rightarrow> bool" where
  "semantics_current dg metadata \<longleftrightarrow> field metadata ''detector_version'' = JStr semantics_version \<and>
     field metadata ''definition_hash'' = field (semantics_config dg) ''definition_hash''"

section \<open>Detectors\<close>

definition positive :: "tx_ctx \<Rightarrow> leg list" where
  "positive tx = filter (\<lambda>q. 0 < lg_value q) (c_outputs tx)"

text \<open>The output a single-input, two-output transaction leaves mostly unspent.\<close>

definition peel :: "tx_ctx \<Rightarrow> nat option" where
  "peel tx =
     (if hd_coinbase (c_head tx) = 1 \<or> length (c_inputs tx) \<noteq> 1 \<or>
         max_legs < length (c_inputs tx) + length (c_outputs tx) then None
      else if length (positive tx) \<noteq> 2 then None
      else let a = positive tx ! 0; b = positive tx ! 1;
               (large, small) = (if lg_value b < lg_value a then (a, b) else (b, a))
           in if 4 \<le> lg_value large div lg_value small \<and> lg_value large < lg_value (c_inputs tx ! 0)
              then Some (lg_index large) else None)"

definition native_relationship_id :: "leg \<Rightarrow> string" where
  "native_relationship_id l = List.rev (takeWhile (\<lambda>c. c \<noteq> CHR ''/'') (List.rev (lg_rel l)))"

definition leg_json :: "leg \<Rightarrow> json" where
  "leg_json l = JObj [(''index'', jnat (lg_index l)), (''subject_id'', JStr (lg_subject l)),
     (''subject_type'', JStr (if starts_with (lg_subject l) ''script:'' then ''script'' else ''address'')),
     (''value_sats'', jtext (lg_value l)), (''relationship_id'', JStr (native_relationship_id l)),
     (''prev_tx_hash'', jopt JStr (lg_prev_tx l)), (''prev_output_index'', jopt jnat (lg_prev_index l))]"

definition leg_refs :: "leg \<Rightarrow> string list" where
  "leg_refs l = (''relationship:'' @ native_relationship_id l) #
     (case (lg_prev_tx l, lg_prev_index l) of
        (Some hash, Some index) \<Rightarrow> [''outpoint:'' @ hash @ '':'' @ show_nat index] | _ \<Rightarrow> [])"

definition tx_refs :: "tx_ctx \<Rightarrow> string list" where
  "tx_refs tx = [''tx:'' @ hd_tx (c_head tx), ''block:'' @ hd_block (c_head tx)] @
     concat (map leg_refs (c_inputs tx @ c_outputs tx)) @
     map (\<lambda>l. ''outpoint:'' @ hd_tx (c_head tx) @ '':'' @ show_nat (lg_index l)) (c_outputs tx)"

definition output_total :: "tx_ctx \<Rightarrow> nat" where
  "output_total tx = sum_list (map lg_value (c_outputs tx))"

definition tx_json :: "tx_ctx \<Rightarrow> json" where
  "tx_json tx = JObj [(''subject_id'', JStr (tx_key tx)), (''block_number'', jnat (hd_number (c_head tx))),
     (''block_hash'', JStr (hd_block (c_head tx))), (''tx_hash'', JStr (hd_tx (c_head tx))),
     (''transaction_index'', jnat (hd_index (c_head tx))), (''block_timestamp_unix_ms'', jnat (hd_time (c_head tx))),
     (''commit_id'', JStr (hd_commit (c_head tx))), (''revision'', jtext (hd_revision (c_head tx))),
     (''input_total_sats'', jtext (c_total tx)), (''output_total_sats'', jtext (output_total tx)),
     (''fee_sats'', jtext (c_fee tx)), (''inputs'', JArr (map leg_json (c_inputs tx))),
     (''outputs'', JArr (map leg_json (c_outputs tx)))]"

definition event :: "(json \<Rightarrow> string) \<Rightarrow> string \<Rightarrow> string \<Rightarrow> tx_ctx list \<Rightarrow> json \<Rightarrow> json" where
  "event dg kind confidence txs details =
     (let anchor = txs ! 0 in
      JObj [(''event_id'', JStr (''btc-sem-'' @
           dg (JArr [JStr semantics_version, JStr kind, jstrs (map tx_key txs)]))),
        (''network_id'', JStr (network_id Bitcoin)), (''event_type'', JStr kind), (''protocol'', JStr ''bitcoin''),
        (''subject_id'', JStr (tx_key anchor)), (''tx_hash'', JStr (hd_tx (c_head anchor))),
        (''detector_version'', JStr semantics_version),
        (''definition_hash'', field (semantics_config dg) ''definition_hash''), (''confidence'', JNum confidence),
        (''score_eligible'', JBool False), (''ownership_claimed'', JBool False), (''fund_continuity_claimed'', JBool False),
        (''amounts_are_wallet_attributed'', JBool False),
        (''evidence_refs'', jstrs (string_set (concat (map tx_refs txs)))),
        (''evidence'', JObj [(''transactions'', JArr (map tx_json txs)), (''match'', details)]),
        (''limitations'', field semantics_definition ''limitations'')])"

definition subjects_of :: "leg list \<Rightarrow> string list" where
  "subjects_of legs = string_set (map lg_subject legs)"

definition not_script :: "leg \<Rightarrow> bool" where
  "not_script l \<longleftrightarrow> \<not> starts_with (lg_subject l) ''script:''"

text \<open>The addresses paid each amount, in the order of the amounts.\<close>

definition equal_groups :: "leg list \<Rightarrow> (nat \<times> string list) list" where
  "equal_groups outs =
     map (\<lambda>v. (v, subjects_of (filter (\<lambda>q. lg_value q = v) outs))) (sort (remdups (map lg_value outs)))"

text \<open>\<open>max_by_key\<close>: the last of the largest.\<close>

definition larger_group :: "nat \<times> string list \<Rightarrow> (nat \<times> string list) option \<Rightarrow> (nat \<times> string list) option" where
  "larger_group g best = (case best of None \<Rightarrow> Some g
     | Some b \<Rightarrow> if length (snd g) < length (snd b) \<or> length (snd g) = length (snd b) \<and> fst g < fst b
                then Some b else Some g)"

definition largest_group :: "(nat \<times> string list) list \<Rightarrow> (nat \<times> string list) option" where
  "largest_group gs = fold larger_group gs None"

definition coinjoin_group :: "tx_ctx \<Rightarrow> (nat \<times> string list) option" where
  "coinjoin_group tx =
     (if 3 \<le> length (subjects_of (c_inputs tx))
      then largest_group (filter (\<lambda>g. 3 \<le> length (snd g)) (equal_groups (filter not_script (positive tx))))
      else None)"

definition detect :: "(json \<Rightarrow> string) \<Rightarrow> tx_ctx \<Rightarrow> json list" where
  "detect dg tx =
     (if hd_coinbase (c_head tx) = 1 \<or> max_legs < length (c_inputs tx) + length (c_outputs tx) then []
      else
       (if 5 \<le> length (c_inputs tx) \<and> length (positive tx) = 1
        then [event dg ''bitcoin_consolidation_candidate'' ''0.6'' [tx]
          (JObj [(''input_count'', jnat (length (c_inputs tx))), (''positive_output_count'', jnat 1)])] else []) @
       (if 1 \<le> length (c_inputs tx) \<and> length (c_inputs tx) \<le> 2 \<and> 5 \<le> length (positive tx) \<and>
           3 \<le> length (subjects_of (positive tx))
        then [event dg ''bitcoin_fan_out_candidate'' ''0.6'' [tx]
          (JObj [(''input_count'', jnat (length (c_inputs tx))), (''positive_output_count'', jnat (length (positive tx)))])] else []) @
       (case coinjoin_group tx of None \<Rightarrow> []
        | Some (v, subjects) \<Rightarrow> [event dg ''bitcoin_possible_coinjoin'' ''0.35'' [tx]
          (JObj [(''equal_output_sats'', jtext v), (''distinct_equal_output_addresses'', jstrs subjects),
                 (''identification'', JStr ''possible_only'')])]) @
       (case peel tx of None \<Rightarrow> []
        | Some i \<Rightarrow> [event dg ''bitcoin_peel_step_candidate'' ''0.45'' [tx]
          (JObj [(''largest_output_index'', jnat i), (''change_identified'', JBool False)])]))"

section \<open>Rows of a block\<close>

definition pattern_fact :: "block \<Rightarrow> tx_ctx \<Rightarrow> (json \<Rightarrow> string) \<Rightarrow> json \<Rightarrow> json" where
  "pattern_fact b tx print ev = JObj [(''network_id'', JStr (network_id Bitcoin)), (''block_number'', jnat (b_number b)),
     (''block_hash'', JStr (b_hash b)), (''block_timestamp_unix_ms'', jnat (b_time_ms b)),
     (''commit_id'', JStr (b_commit b)), (''revision'', jnat (b_revision b)), (''created_at_unix_ms'', jnat (b_created b)),
     (''event_id'', field ev ''event_id''), (''tx_hash'', JStr (hd_tx (c_head tx))), (''subject_id'', JStr (tx_key tx)),
     (''event_type'', field ev ''event_type''), (''protocol'', JStr ''bitcoin''),
     (''detector_version'', JStr semantics_version), (''confidence'', field ev ''confidence''),
     (''asset_in'', JStr ''native:BTC''), (''asset_out'', JStr ''native:BTC''), (''amount_in'', jtext (c_total tx)),
     (''amount_out'', jtext (output_total tx)), (''remote_network_id'', JNull),
     (''evidence_refs'', field ev ''evidence_refs''), (''evidence_json'', JStr (print ev)),
     (''event_index'', jnat (hd_index (c_head tx))), (''event_sub_index'', jnat 0),
     (''detector'', JStr ''bitcoin_patterns''), (''raw_evidence_json'', JStr (print ev))]"

definition input_leg :: "btc_lib \<Rightarrow> block \<Rightarrow> tx_input \<Rightarrow> leg" where
  "input_leg lib b i = \<lparr>lg_index = i_input_index i, lg_subject = so_subject lib (i_output i),
     lg_value = so_value_sats (i_output i),
     lg_rel = b_hash b @ '':'' @ i_txid i @ '':in:'' @ show_nat (i_input_index i),
     lg_prev_tx = Some (i_prev_txid i), lg_prev_index = Some (i_prev_vout i)\<rparr>"

definition output_leg :: "btc_lib \<Rightarrow> block \<Rightarrow> tx_output \<Rightarrow> leg" where
  "output_leg lib b q = \<lparr>lg_index = o_output_index q, lg_subject = so_subject lib (o_output q),
     lg_value = so_value_sats (o_output q),
     lg_rel = b_hash b @ '':'' @ o_txid q @ '':out:'' @ show_nat (o_output_index q),
     lg_prev_tx = None, lg_prev_index = None\<rparr>"

text \<open>The maps are emptied as transactions are read, so a repeated hash finds no legs.\<close>

definition block_tx :: "btc_lib \<Rightarrow> block \<Rightarrow> evidence \<Rightarrow> string list \<Rightarrow> transaction \<Rightarrow> tx_ctx" where
  "block_tx lib b ev taken t =
     (let ins = (if t_txid t \<in> set taken then [] else map (input_leg lib b) (in_legs (inputs ev) (t_txid t)));
          outs = (if t_txid t \<in> set taken then [] else map (output_leg lib b) (out_legs (outputs ev) (t_txid t)))
      in \<lparr>c_head = \<lparr>hd_number = b_number b, hd_block = b_hash b, hd_tx = t_txid t, hd_index = t_tx_index t,
            hd_time = b_time_ms b, hd_commit = b_commit b, hd_revision = b_revision b, hd_coinbase = t_coinbase t,
            hd_in_count = Some (t_input_count t), hd_out_count = Some (t_output_count t),
            hd_fee = show_nat (t_fee_sats t)\<rparr>,
          c_inputs = ins, c_outputs = outs, c_total = sum_list (map lg_value ins), c_fee = t_fee_sats t\<rparr>)"

fun block_txs :: "btc_lib \<Rightarrow> block \<Rightarrow> evidence \<Rightarrow> string list \<Rightarrow> transaction list \<Rightarrow> tx_ctx list" where
  "block_txs lib b ev taken [] = []"
| "block_txs lib b ev taken (t # ts) = block_tx lib b ev taken t # block_txs lib b ev (t_txid t # taken) ts"

definition block_facts ::
  "(json \<Rightarrow> string) \<Rightarrow> (json \<Rightarrow> string) \<Rightarrow> btc_lib \<Rightarrow> block \<Rightarrow> evidence \<Rightarrow> json list res" where
  "block_facts dg print lib b ev =
     Inr (concat (map (\<lambda>tx. map (pattern_fact b tx print) (detect dg tx)) (block_txs lib b ev [] (transactions ev))))"

definition skipped_txs :: "evidence \<Rightarrow> string list" where
  "skipped_txs ev = map t_txid (filter (\<lambda>t. t_coinbase t = 0 \<and> max_legs < t_input_count t + t_output_count t)
     (transactions ev))"

definition block_manifest :: "(json \<Rightarrow> string) \<Rightarrow> evidence \<Rightarrow> json" where
  "block_manifest dg ev = JObj [(''detector_version'', JStr semantics_version),
     (''definition_hash'', field (semantics_config dg) ''definition_hash''),
     (''scope'', JStr ''single_transaction_patterns''),
     (''processed_transactions'', jnat (length (filter (\<lambda>t. t_coinbase t = 0) (transactions ev)) - length (skipped_txs ev))),
     (''ignored_coinbase'', jnat (length (filter (\<lambda>t. t_coinbase t = 1) (transactions ev)))),
     (''skipped_transactions'', jnat (length (skipped_txs ev))),
     (''skipped_tx_hashes'', jstrs (take 25 (skipped_txs ev))),
     (''skipped_ids_truncated'', JBool (25 < length (skipped_txs ev))),
     (''maximum_legs_per_transaction'', jnat max_legs), (''peel_chains'', JStr ''computed_at_investigation'')]"

section \<open>Chains of peels\<close>

text \<open>At most two steps back from the root, each from the output its child spends.\<close>

fun chain_back :: "chain_db \<Rightarrow> nat \<Rightarrow> tx_ctx list \<Rightarrow> (reader, tx_ctx list) io" where
  "chain_back db 0 txs = io_return txs"
| "chain_back db (Suc n) txs =
     io_then (previous db (txs ! 0) (c_inputs (txs ! 0) ! 0)) (\<lambda>found. case found of None \<Rightarrow> io_return txs
     | Some (parent, index) \<Rightarrow>
         if peel parent \<noteq> Some index then io_return txs else chain_back db n (parent # txs))"

text \<open>Then forward, until the chain has \<open>max_chain\<close> transactions.\<close>

function chain_forth :: "chain_db \<Rightarrow> tx_ctx list \<Rightarrow> (reader, tx_ctx list) io" where
  "chain_forth db txs =
     (if max_chain \<le> length txs then io_return txs
      else io_need (peel (List.last txs)) ''called Option::unwrap() on a None value'' (\<lambda>i.
           io_then (spender db (List.last txs) i) (\<lambda>found. case found of None \<Rightarrow> io_return txs
           | Some (child, input) \<Rightarrow>
               if input \<noteq> 0 \<or> peel child = None then io_return txs else chain_forth db (txs @ [child]))))"
  by pat_completeness auto
termination
  by (relation "measure (\<lambda>(db, txs). max_chain - length txs)") auto

declare chain_forth.simps [simp del]

definition chain :: "chain_db \<Rightarrow> tx_ctx \<Rightarrow> (reader, tx_ctx list) io" where
  "chain db root =
     (if peel root = None then io_return []
      else io_then (chain_back db 2 [root]) (chain_forth db))"

section \<open>What the detectors see\<close>

lemma larger_group_le: "larger_group g best = Some b \<Longrightarrow>
    length (snd g) < length (snd b) \<or> length (snd g) = length (snd b) \<and> fst g \<le> fst b"
  by (auto simp: larger_group_def split: option.splits if_splits)

lemma fold_larger:
  "fold larger_group gs best = None \<longleftrightarrow> gs = [] \<and> best = None"
  "fold larger_group gs best = Some b \<Longrightarrow> (b \<in> set gs \<or> best = Some b) \<and>
     (\<forall>g \<in> set gs \<union> set_option best. length (snd g) < length (snd b) \<or>
        length (snd g) = length (snd b) \<and> fst g \<le> fst b)"
proof (induction gs arbitrary: best)
  case Nil
  { case 1 show ?case by simp }
  { case 2 then show ?case by auto }
next
  case (Cons g gs)
  { case 1 show ?case using Cons(1) by (auto simp: larger_group_def split: option.splits) }
  { case 2
    then have "fold larger_group gs (larger_group g best) = Some b" by simp
    note ih = Cons(2)[OF this]
    moreover obtain c where c: "larger_group g best = Some c"
      by (cases "larger_group g best") (auto simp: larger_group_def split: option.splits if_splits)
    ultimately show ?case
      by (cases best) (auto simp: larger_group_def split: if_splits) }
qed

lemma largest_group_None [simp]: "largest_group gs = None \<longleftrightarrow> gs = []"
  by (simp add: largest_group_def fold_larger(1))

lemma largest_group_max:
  assumes "largest_group gs = Some b"
  shows "b \<in> set gs" "g \<in> set gs \<Longrightarrow> length (snd g) < length (snd b) \<or>
    length (snd g) = length (snd b) \<and> fst g \<le> fst b"
  using fold_larger(2)[of gs None b] assms by (auto simp: largest_group_def)

text \<open>The distinct addresses a transaction pays exactly \<open>v\<close>.\<close>

definition paid :: "tx_ctx \<Rightarrow> nat \<Rightarrow> string set" where
  "paid tx v = lg_subject ` {q \<in> set (c_outputs tx). lg_value q = v \<and> 0 < v \<and> not_script q}"

definition payees :: "tx_ctx \<Rightarrow> nat \<Rightarrow> string list" where
  "payees tx v = string_set (map lg_subject (filter (\<lambda>q. lg_value q = v) (filter not_script (positive tx))))"

lemma payees_paid: "set (payees tx v) = paid tx v" "length (payees tx v) = card (paid tx v)"
proof -
  show s: "set (payees tx v) = paid tx v" by (auto simp: payees_def paid_def positive_def)
  show "length (payees tx v) = card (paid tx v)"
    using s[unfolded payees_def] by (simp only: payees_def length_string_set set_string_set)
qed

lemma equal_groups_set:
  "set (equal_groups (filter not_script (positive tx))) = {(v, payees tx v) | v. paid tx v \<noteq> {}}"
  by (auto simp: equal_groups_def subjects_of_def payees_def paid_def positive_def)

lemma coinjoin_group_iff:
  "coinjoin_group tx \<noteq> None \<longleftrightarrow>
     3 \<le> card (lg_subject ` set (c_inputs tx)) \<and> (\<exists>v. 3 \<le> card (paid tx v))"
proof -
  have "(\<exists>g \<in> set (equal_groups (filter not_script (positive tx))). 3 \<le> length (snd g)) \<longleftrightarrow>
      (\<exists>v. 3 \<le> card (paid tx v))"
  proof
    assume "\<exists>v. 3 \<le> card (paid tx v)"
    then obtain v where v: "3 \<le> card (paid tx v)" by blast
    then have "(v, payees tx v) \<in> set (equal_groups (filter not_script (positive tx)))"
      by (auto simp: equal_groups_set)
    with v show "\<exists>g\<in>set (equal_groups (filter not_script (positive tx))). 3 \<le> length (snd g)"
      by (force simp: payees_paid)
  qed (auto simp: equal_groups_set payees_paid)
  then have "largest_group (filter (\<lambda>g. 3 \<le> length (snd g)) (equal_groups (filter not_script (positive tx)))) = None
      \<longleftrightarrow> \<not> (\<exists>v. 3 \<le> card (paid tx v))"
    unfolding largest_group_None filter_empty_conv by blast
  moreover have "length (subjects_of (c_inputs tx)) = card (lg_subject ` set (c_inputs tx))"
    by (simp add: subjects_of_def length_string_set)
  ultimately show ?thesis unfolding coinjoin_group_def by presburger
qed

lemma coinjoin_group_largest:
  assumes "coinjoin_group tx = Some (v, subjects)"
  shows "set subjects = paid tx v \<and> length subjects = card (paid tx v) \<and> 3 \<le> card (paid tx v) \<and>
    (\<forall>w. card (paid tx w) < card (paid tx v) \<or> card (paid tx w) = card (paid tx v) \<and> w \<le> v)"
proof -
  let ?gs = "filter (\<lambda>g. 3 \<le> length (snd g)) (equal_groups (filter not_script (positive tx)))"
  have l: "largest_group ?gs = Some (v, subjects)"
    using assms by (simp add: coinjoin_group_def split: if_splits)
  from largest_group_max(1)[OF this] have m: "subjects = payees tx v" "3 \<le> length subjects"
    by (auto simp: equal_groups_set)
  have "card (paid tx w) < card (paid tx v) \<or> card (paid tx w) = card (paid tx v) \<and> w \<le> v" for w
  proof (cases "3 \<le> card (paid tx w)")
    case True
    then have "(w, payees tx w) \<in> set ?gs" by (auto simp: equal_groups_set payees_paid)
    from largest_group_max(2)[OF l this] m show ?thesis by (simp add: payees_paid)
  qed (use m payees_paid in auto)
  with m show ?thesis by (simp add: payees_paid)
qed

lemma event_fields [simp]:
  "field (event dg kind conf txs details) ''event_type'' = JStr kind"
  "field (event dg kind conf txs details) ''event_id'' =
     JStr (''btc-sem-'' @ dg (JArr [JStr semantics_version, JStr kind, jstrs (map tx_key txs)]))"
  by (simp_all add: event_def Let_def)

definition detected :: "(json \<Rightarrow> string) \<Rightarrow> tx_ctx \<Rightarrow> string \<Rightarrow> bool" where
  "detected dg tx kind \<longleftrightarrow> (\<exists>e \<in> set (detect dg tx). field e ''event_type'' = JStr kind)"

definition eligible :: "tx_ctx \<Rightarrow> bool" where
  "eligible tx \<longleftrightarrow> hd_coinbase (c_head tx) \<noteq> 1 \<and> length (c_inputs tx) + length (c_outputs tx) \<le> max_legs"

lemma peel_eligible: "peel tx \<noteq> None \<Longrightarrow> eligible tx"
  by (auto simp: peel_def eligible_def split: if_split_asm)

lemma detected_cases:
  "detected dg tx ''bitcoin_consolidation_candidate'' \<longleftrightarrow>
     eligible tx \<and> 5 \<le> length (c_inputs tx) \<and> length (positive tx) = 1"
  "detected dg tx ''bitcoin_fan_out_candidate'' \<longleftrightarrow>
     eligible tx \<and> length (c_inputs tx) \<in> {1, 2} \<and> 5 \<le> length (positive tx) \<and>
     3 \<le> card (lg_subject ` set (positive tx))"
  "detected dg tx ''bitcoin_possible_coinjoin'' \<longleftrightarrow> eligible tx \<and> coinjoin_group tx \<noteq> None"
  "detected dg tx ''bitcoin_peel_step_candidate'' \<longleftrightarrow> peel tx \<noteq> None"
proof -
  have i: "(\<exists>e \<in> set (if c then [event dg k conf txs x] else []). field e ''event_type'' = JStr kind) \<longleftrightarrow> c \<and> kind = k"
    for c k conf txs x kind by (cases c) auto
  have q: "(\<exists>e \<in> set (case v of None \<Rightarrow> [] | Some y \<Rightarrow> [event dg k conf txs (f y)]). field e ''event_type'' = JStr kind)
      \<longleftrightarrow> v \<noteq> None \<and> kind = k" for v :: "nat option" and f k conf txs kind by (cases v) auto
  have q2: "(\<exists>e \<in> set (case v of None \<Rightarrow> [] | Some (x, y) \<Rightarrow> [event dg k conf txs (f x y)]). field e ''event_type'' = JStr kind)
      \<longleftrightarrow> v \<noteq> None \<and> kind = k" for v :: "(nat \<times> string list) option" and f k conf txs kind by (cases v) auto
  have d: "detected dg tx kind \<longleftrightarrow> eligible tx \<and>
     (5 \<le> length (c_inputs tx) \<and> length (positive tx) = 1 \<and> kind = ''bitcoin_consolidation_candidate'' \<or>
      (1 \<le> length (c_inputs tx) \<and> length (c_inputs tx) \<le> 2 \<and> 5 \<le> length (positive tx) \<and>
           3 \<le> length (subjects_of (positive tx))) \<and> kind = ''bitcoin_fan_out_candidate'' \<or>
      coinjoin_group tx \<noteq> None \<and> kind = ''bitcoin_possible_coinjoin'' \<or>
      peel tx \<noteq> None \<and> kind = ''bitcoin_peel_step_candidate'')" for kind
  proof (cases "eligible tx")
    case True
    then have n: "\<not> (hd_coinbase (c_head tx) = 1 \<or> max_legs < length (c_inputs tx) + length (c_outputs tx))"
      by (simp add: eligible_def)
    then show ?thesis using True
      unfolding detected_def detect_def if_not_P[OF n] set_append bex_Un i q q2
      by (simp only: simp_thms conj_assoc)
  next
    case False
    then have n: "hd_coinbase (c_head tx) = 1 \<or> max_legs < length (c_inputs tx) + length (c_outputs tx)"
      by (auto simp: eligible_def)
    show ?thesis using False unfolding detected_def detect_def if_P[OF n] by simp
  qed
  have n: "length (c_inputs tx) \<in> {1, 2} \<longleftrightarrow> 1 \<le> length (c_inputs tx) \<and> length (c_inputs tx) \<le> 2" by auto
  show "detected dg tx ''bitcoin_consolidation_candidate'' \<longleftrightarrow>
     eligible tx \<and> 5 \<le> length (c_inputs tx) \<and> length (positive tx) = 1"
    unfolding d by simp
  show "detected dg tx ''bitcoin_fan_out_candidate'' \<longleftrightarrow>
     eligible tx \<and> length (c_inputs tx) \<in> {1, 2} \<and> 5 \<le> length (positive tx) \<and>
     3 \<le> card (lg_subject ` set (positive tx))"
    unfolding d n by (simp add: subjects_of_def length_string_set)
  show "detected dg tx ''bitcoin_possible_coinjoin'' \<longleftrightarrow> eligible tx \<and> coinjoin_group tx \<noteq> None"
    unfolding d by simp
  show "detected dg tx ''bitcoin_peel_step_candidate'' \<longleftrightarrow> peel tx \<noteq> None"
    unfolding d using peel_eligible[of tx] by auto
qed

text \<open>C28: a possible CoinJoin is reported exactly for transactions of at most 256 legs with three
  distinct input subjects and three distinct addresses paid one equal amount; the amount named is one
  paid to the most addresses.\<close>

theorem coinjoin_reported_exactly:
  "(detected dg tx ''bitcoin_possible_coinjoin'' \<longleftrightarrow>
     eligible tx \<and> 3 \<le> card (lg_subject ` set (c_inputs tx)) \<and> (\<exists>v. 3 \<le> card (paid tx v))) \<and>
   (case coinjoin_group tx of None \<Rightarrow> True | Some (v, subjects) \<Rightarrow>
      set subjects = paid tx v \<and> (\<forall>w. card (paid tx w) \<le> card (paid tx v)))"
proof -
  have "(case coinjoin_group tx of None \<Rightarrow> True | Some (v, subjects) \<Rightarrow>
      set subjects = paid tx v \<and> (\<forall>w. card (paid tx w) \<le> card (paid tx v)))"
  proof (cases "coinjoin_group tx")
    case (Some g)
    with coinjoin_group_largest[of tx "fst g" "snd g"] show ?thesis
      by (simp add: split_beta less_imp_le) (metis less_imp_le order_refl)
  qed simp
  then show ?thesis using coinjoin_group_iff[of tx] by (simp add: detected_cases)
qed

text \<open>What a peel is: one input, two positive outputs, the larger at least four times the smaller and
  less than the input.\<close>

definition peels :: "tx_ctx \<Rightarrow> nat \<Rightarrow> bool" where
  "peels tx k \<longleftrightarrow> eligible tx \<and> length (c_inputs tx) = 1 \<and>
     (\<exists>large small. large \<in> set (c_outputs tx) \<and> small \<in> set (c_outputs tx) \<and> lg_index large = k \<and>
        0 < lg_value small \<and> 4 * lg_value small \<le> lg_value large \<and>
        lg_value large < lg_value (c_inputs tx ! 0) \<and>
        (positive tx = [large, small] \<or> positive tx = [small, large]))"

lemma length_two: "length xs = 2 \<longleftrightarrow> (\<exists>a b. xs = [a, b])"
  by (auto simp: numeral_2_eq_2 length_Suc_conv)

lemma peel_peels: "peel tx = Some k \<Longrightarrow> peels tx k"
proof -
  assume p: "peel tx = Some k"
  have e: "eligible tx" using peel_eligible[of tx] p by simp
  from p have i: "length (c_inputs tx) = 1" and l: "length (positive tx) = 2"
    by (auto simp: peel_def split: if_split_asm)
  from l obtain a b where ab: "positive tx = [a, b]" by (auto simp: length_two)
  then have m: "a \<in> set (c_outputs tx)" "b \<in> set (c_outputs tx)" "0 < lg_value a" "0 < lg_value b"
  proof -
    have "a \<in> set (positive tx)" "b \<in> set (positive tx)" using ab by simp_all
    then show "a \<in> set (c_outputs tx)" "b \<in> set (c_outputs tx)" "0 < lg_value a" "0 < lg_value b"
      unfolding positive_def by simp_all
  qed
  have d: "4 \<le> x div y \<longleftrightarrow> 4 * y \<le> x" if "0 < y" for x y :: nat
    using that by (simp add: less_eq_div_iff_mult_less_eq)
  from p show ?thesis
    using e i ab m d by (auto simp: peel_def peels_def Let_def split: if_split_asm)
qed

section \<open>What a chain is\<close>

definition peel_link :: "tx_ctx \<Rightarrow> tx_ctx \<Rightarrow> bool" where
  "peel_link p c \<longleftrightarrow> (\<exists>k. peel p = Some k \<and> spends (c_inputs c ! 0) p k \<and> before (position p) (position c))"

definition peel_chain :: "reader \<Rightarrow> tx_ctx list \<Rightarrow> bool" where
  "peel_chain r txs \<longleftrightarrow> txs \<noteq> [] \<and> successively peel_link txs \<and> (\<forall>t \<in> set txs. peel t \<noteq> None \<and> known r t)"

lemma peel_chain_mono:
  "peel_chain r txs \<Longrightarrow> (\<forall>x. known r x \<longrightarrow> known r' x) \<Longrightarrow> peel_chain r' txs"
  by (auto simp: peel_chain_def)

lemma chain_back_grows:
  assumes "chain_back db n txs r = (Inr ys, r')" "good_reader db r" "peel_chain r txs"
  shows "good_reader db r' \<and> peel_chain r' ys \<and> (\<exists>pre. ys = pre @ txs \<and> length pre \<le> n)"
  using assms
proof (induction n arbitrary: txs r)
  case (Suc n)
  obtain t ts where txs: "txs = t # ts" using Suc.prems(3) by (cases txs) (auto simp: peel_chain_def)
  from Suc.prems(1) obtain q u where p: "previous db t (c_inputs t ! 0) r = (Inr q, u)"
    and rest: "(case q of None \<Rightarrow> io_return txs | Some (parent, index) \<Rightarrow>
         if peel parent \<noteq> Some index then io_return txs else chain_back db n (parent # txs)) u = (Inr ys, r')"
    unfolding chain_back.simps io_then_ok txs nth_Cons_0 by blast
  have gu: "good_reader db u" and k: "\<forall>x. known r x \<longrightarrow> known u x"
    using walk.prior_keeps[OF Suc.prems(2) p] by blast+
  have c: "peel_chain u txs" using peel_chain_mono[OF Suc.prems(3) k] .
  show ?case
  proof (cases q)
    case None
    with rest gu c show ?thesis by (auto simp: io_return_def)
  next
    case (Some pi)
    obtain parent index where pi: "pi = (parent, index)" by (cases pi)
    show ?thesis
    proof (cases "peel parent = Some index")
      case True
      from walk.prior_link[OF Suc.prems(2) p[unfolded Some pi]] True c
      have "peel_chain u (parent # txs)" by (auto simp: peel_chain_def peel_link_def txs)
      from Suc.IH[OF _ gu this] rest True obtain pre where
        "good_reader db r'" "peel_chain r' ys" "ys = pre @ parent # txs" "length pre \<le> n"
        by (auto simp: Some pi)
      then show ?thesis by (auto intro!: exI[of _ "pre @ [parent]"])
    qed (use rest gu c in \<open>auto simp: Some pi io_return_def\<close>)
  qed
qed (auto simp: io_return_def)

lemma chain_forth_grows:
  assumes "chain_forth db txs r = (Inr ys, r')" "good_reader db r" "peel_chain r txs"
  shows "good_reader db r' \<and> peel_chain r' ys \<and> (\<exists>post. ys = txs @ post) \<and> length ys \<le> max max_chain (length txs)"
  using assms
proof (induction db txs arbitrary: r rule: chain_forth.induct)
  case (1 db txs)
  show ?case
  proof (cases "max_chain \<le> length txs")
    case False
    have ne: "txs \<noteq> []" using 1(4) by (simp add: peel_chain_def)
    from 1(2) False obtain i q u where i: "peel (List.last txs) = Some i"
      and p: "spender db (List.last txs) i r = (Inr q, u)"
      and rest: "(case q of None \<Rightarrow> io_return txs | Some (child, input) \<Rightarrow>
         if input \<noteq> 0 \<or> peel child = None then io_return txs else chain_forth db (txs @ [child])) u = (Inr ys, r')"
      unfolding chain_forth.simps[of db txs] if_not_P[OF False] io_need_ok io_then_ok by blast
    have gu: "good_reader db u" and k: "\<forall>x. known r x \<longrightarrow> known u x"
      using walk.later_keeps[OF 1(3) p] by blast+
    have c: "peel_chain u txs" using peel_chain_mono[OF 1(4) k] .
    show ?thesis
    proof (cases q)
      case None
      with rest gu c show ?thesis by (auto simp: io_return_def)
    next
      case (Some ci)
      obtain child input where ci: "ci = (child, input)" by (cases ci)
      show ?thesis
      proof (cases "input = 0 \<and> peel child \<noteq> None")
        case True
        have "known r (List.last txs)" using 1(4) ne by (simp add: peel_chain_def)
        from walk.later_link[OF 1(3) this p[unfolded Some ci]] True c i ne
        have "peel_chain u (txs @ [child])"
          by (auto simp: peel_chain_def peel_link_def successively_append_iff)
        note next_chain = this
        have go: "\<not> (input \<noteq> 0 \<or> peel child = None)" using True by simp
        have run: "chain_forth db (txs @ [child]) u = (Inr ys, r')"
          using rest unfolding Some ci option.case prod.case if_not_P[OF go] .
        note ih = 1(1)[OF False go run gu next_chain]
        then have "\<exists>post. ys = txs @ post" by (elim conjE exE) simp
        with ih False show ?thesis by simp
      qed (use rest gu c in \<open>auto simp: Some ci io_return_def\<close>)
    qed
  qed (use 1 in \<open>auto simp: chain_forth.simps io_return_def\<close>)
qed

text \<open>C27: a chain of peels starts at the root or at most two transactions before it, has at most five
  transactions, and each of its transactions is a peel whose largest output the next one spends.\<close>

theorem peel_chain_follows_spends:
  assumes "good_reader db r" "known r root" "chain db root r = (Inr txs, r')" "txs \<noteq> []"
  shows "length txs \<le> max_chain \<and> root \<in> set (take 3 txs) \<and> (\<forall>t \<in> set txs. peel t \<noteq> None \<and> sound_tx_ctx t) \<and>
    (\<forall>i. Suc i < length txs \<longrightarrow> peel_link (txs ! i) (txs ! Suc i))"
proof -
  have p: "peel root \<noteq> None" and run: "io_then (chain_back db 2 [root]) (chain_forth db) r = (Inr txs, r')"
    using assms(3,4) by (auto simp: chain_def io_return_def split: if_split_asm)
  from run obtain bs u where b: "chain_back db 2 [root] r = (Inr bs, u)"
    and f: "chain_forth db bs u = (Inr txs, r')" unfolding io_then_ok by blast
  have "peel_chain r [root]" using p assms(2) by (simp add: peel_chain_def)
  from chain_back_grows[OF b assms(1) this] obtain pre where g: "good_reader db u" "peel_chain u bs"
    and pre: "bs = pre @ [root]" "length pre \<le> 2" by blast
  from chain_forth_grows[OF f g] obtain post where c: "peel_chain r' txs" "txs = bs @ post"
    "length txs \<le> max max_chain (length bs)" by blast
  have "root \<in> set (take 3 txs)" using c(2) pre by (auto simp: take_Cons' )
  moreover have "length txs \<le> max_chain" using c(3) pre by (simp add: max_chain_def)
  moreover have "\<forall>i. Suc i < length txs \<longrightarrow> peel_link (txs ! i) (txs ! Suc i)"
    using c(1) by (simp add: peel_chain_def successively_conv_nth)
  ultimately show ?thesis using c(1) by (auto simp: peel_chain_def known_def)
qed

lemma sample_chain_runs:
  "case load sample_db (replicate 64 (CHR ''a'')) (replicate 64 (CHR ''3'')) (reader_new 8 64 64) of
     (Inr (Some tx), r) \<Rightarrow> (case chain sample_db tx r of (Inr txs, _) \<Rightarrow> length txs = 3 | _ \<Rightarrow> False) | _ \<Rightarrow> False"
  by code_simp

theorem peel_chain_follows_spends_witness:
  "\<exists>root r txs r'. load sample_db (replicate 64 (CHR ''a'')) (replicate 64 (CHR ''3'')) (reader_new 8 64 64) =
       (Inr (Some root), r) \<and> chain sample_db root r = (Inr txs, r') \<and> length txs = 3 \<and>
     peel_link (txs ! 0) (txs ! 1) \<and> peel_link (txs ! 1) (txs ! 2)"
proof -
  have "answered (fst (load sample_db (replicate 64 (CHR ''a'')) (replicate 64 (CHR ''3'')) (reader_new 8 64 64)))"
    using sample_chain_runs by (auto split: prod.splits sum.splits option.splits)
  from answered_some[OF this] obtain root r where
    l: "load sample_db (replicate 64 (CHR ''a'')) (replicate 64 (CHR ''3'')) (reader_new 8 64 64) = (Inr (Some root), r)"
    by blast
  have g0: "good_reader sample_db (reader_new 8 64 64)"
    by (rule good_reader_new) (simp add: sample_db_def honest_ledger)
  from sample_chain_runs l obtain txs r' where c: "chain sample_db root r = (Inr txs, r')" "length txs = 3"
    by (auto split: prod.splits sum.splits)
  have "good_reader sample_db r" "known r root"
    using good_reads[OF reads_load l g0] load_found[OF l g0] by blast+
  then have "\<forall>i. Suc i < length txs \<longrightarrow> peel_link (txs ! i) (txs ! Suc i)"
    using peel_chain_follows_spends[of sample_db r root txs r'] c by fastforce
  from this[rule_format, of 0] this[rule_format, of 1] c(2) have
    "peel_link (txs ! 0) (txs ! 1) \<and> peel_link (txs ! 1) (txs ! 2)" by (simp add: numeral_2_eq_2)
  with l c show ?thesis by blast
qed

end
