(* ===== verification/Io_Triples.thy ===== *)
theory Io_Triples
  imports Prelude
begin

text \<open>
  What holds after a successful run of code over a store: preconditions, results and
  postconditions, with one rule for every way the code composes steps. Failing runs say
  nothing here; \<open>leads\<close> speaks of those.
\<close>

definition yields :: "('s \<Rightarrow> bool) \<Rightarrow> ('s, 'a) io \<Rightarrow> ('a \<Rightarrow> 's \<Rightarrow> bool) \<Rightarrow> bool" where
  "yields P m Q \<longleftrightarrow> (\<forall>s x t. P s \<longrightarrow> m s = (Inr x, t) \<longrightarrow> Q x t)"

definition io_modify :: "('s \<Rightarrow> 's) \<Rightarrow> ('s, unit) io" where
  "io_modify f s = (Inr (), f s)"

lemma io_modify_ok [io_simps]: "io_modify f s = (r, t) \<longleftrightarrow> r = Inr () \<and> t = f s"
  by (auto simp: io_modify_def)

lemma yieldsD: "yields P m Q \<Longrightarrow> m s = (Inr x, t) \<Longrightarrow> P s \<Longrightarrow> Q x t"
  by (auto simp: yields_def)

lemma yieldsI: "(\<And>s x t. P s \<Longrightarrow> m s = (Inr x, t) \<Longrightarrow> Q x t) \<Longrightarrow> yields P m Q"
  by (auto simp: yields_def)

lemma yields_pre: "yields P m Q \<Longrightarrow> (\<And>s. P' s \<Longrightarrow> P s) \<Longrightarrow> yields P' m Q"
  by (auto simp: yields_def)

lemma yields_post: "yields P m Q \<Longrightarrow> (\<And>x s. Q x s \<Longrightarrow> Q' x s) \<Longrightarrow> yields P m Q'"
  by (auto simp: yields_def)

lemma yields_return: "(\<And>s. P s \<Longrightarrow> Q x s) \<Longrightarrow> yields P (io_return x) Q"
  by (auto simp: yields_def io_simps)

lemma yields_fail: "yields P (io_fail e) Q"
  by (auto simp: yields_def io_simps)

lemma yields_modify: "(\<And>s. P s \<Longrightarrow> Q () (f s)) \<Longrightarrow> yields P (io_modify f) Q"
  by (auto simp: yields_def io_simps)

lemma yields_then: "yields P m R \<Longrightarrow> (\<And>x. yields (R x) (k x) Q) \<Longrightarrow> yields P (io_then m k) Q"
  unfolding yields_def io_then_ok by blast

lemma yields_get: "(\<And>x. yields (\<lambda>s. P s \<and> f s = x) (k x) Q) \<Longrightarrow> yields P (io_get f k) Q"
  unfolding yields_def io_get_ok by blast

lemma yields_attempt: "(\<And>x. r = Inr x \<Longrightarrow> yields P (k x) Q) \<Longrightarrow> yields P (io_attempt r k) Q"
  unfolding yields_def io_attempt_ok by blast

lemma yields_ensure: "(c \<Longrightarrow> yields P k Q) \<Longrightarrow> yields P (io_ensure c msg k) Q"
  unfolding yields_def io_ensure_ok by blast

lemma yields_need: "(\<And>x. v = Some x \<Longrightarrow> yields P (k x) Q) \<Longrightarrow> yields P (io_need v msg k) Q"
  unfolding yields_def io_need_ok by blast

lemma yields_if: "(c \<Longrightarrow> yields P m Q) \<Longrightarrow> (\<not> c \<Longrightarrow> yields P k Q) \<Longrightarrow> yields P (if c then m else k) Q"
  by simp

lemma yields_option:
  "(v = None \<Longrightarrow> yields P m Q) \<Longrightarrow> (\<And>x. v = Some x \<Longrightarrow> yields P (k x) Q) \<Longrightarrow>
   yields P (case v of None \<Rightarrow> m | Some x \<Rightarrow> k x) Q"
  by (cases v) auto

lemma yields_let: "yields P (k x) Q \<Longrightarrow> yields P (let y = x in k y) Q"
  by simp

lemma yields_for: "(\<And>x. x \<in> set xs \<Longrightarrow> yields I (f x) (\<lambda>_. I)) \<Longrightarrow> yields I (io_for f xs) (\<lambda>_. I)"
proof (induction xs)
  case Nil
  show ?case by (auto intro: yields_return)
next
  case (Cons x xs)
  have "yields I (io_for f xs) (\<lambda>_. I)" using Cons.prems by (intro Cons.IH) simp
  then show ?case using Cons.prems[of x] by (auto intro: yields_then)
qed

text \<open>A store inside a larger one.\<close>

definition io_zoom :: "('s \<Rightarrow> 't) \<Rightarrow> ('t \<Rightarrow> 's \<Rightarrow> 's) \<Rightarrow> ('t, 'a) io \<Rightarrow> ('s, 'a) io" where
  "io_zoom get put m s = (case m (get s) of (r, t) \<Rightarrow> (r, put t s))"

lemma io_zoom_ok [io_simps]:
  "io_zoom get put m s = (r, u) \<longleftrightarrow> (\<exists>t. m (get s) = (r, t) \<and> u = put t s)"
  by (auto simp: io_zoom_def split: prod.splits)

lemma yields_zoom:
  "(\<And>s x t. P s \<Longrightarrow> m (get s) = (Inr x, t) \<Longrightarrow> Q x (put t s)) \<Longrightarrow> yields P (io_zoom get put m) Q"
  by (auto simp: yields_def io_simps)

lemma leads_modify: "(\<And>s. R s (f s)) \<Longrightarrow> leads R (io_modify f)"
  by (simp add: leads_def io_modify_def)

lemma leads_zoom: "(\<And>s. R s (put (snd (m (get s))) s)) \<Longrightarrow> leads R (io_zoom get put m)"
  by (simp add: leads_def io_zoom_def split_beta)

lemma leadsD: "leads R m \<Longrightarrow> m s = (r, t) \<Longrightarrow> R s t"
  by (metis leads_def snd_conv)

section \<open>Every outcome\<close>

text \<open>The same, with a postcondition \<open>E\<close> for what a failing run leaves behind.\<close>

definition runs :: "('s \<Rightarrow> bool) \<Rightarrow> ('s, 'a) io \<Rightarrow> ('a \<Rightarrow> 's \<Rightarrow> bool) \<Rightarrow> ('s \<Rightarrow> bool) \<Rightarrow> bool" where
  "runs P m Q E \<longleftrightarrow> (\<forall>s r t. P s \<longrightarrow> m s = (r, t) \<longrightarrow> (case r of Inl e \<Rightarrow> E t | Inr x \<Rightarrow> Q x t))"

lemma runsI:
  "(\<And>s x t. P s \<Longrightarrow> m s = (Inr x, t) \<Longrightarrow> Q x t) \<Longrightarrow> (\<And>s e t. P s \<Longrightarrow> m s = (Inl e, t) \<Longrightarrow> E t) \<Longrightarrow> runs P m Q E"
  by (auto simp: runs_def split: sum.split)

lemma runsD:
  "runs P m Q E \<Longrightarrow> P s \<Longrightarrow> m s = (Inr x, t) \<Longrightarrow> Q x t"
  "runs P m Q E \<Longrightarrow> P s \<Longrightarrow> m s = (Inl e, t) \<Longrightarrow> E t"
  by (force simp: runs_def)+

lemma runs_pre: "runs P m Q E \<Longrightarrow> (\<And>s. P' s \<Longrightarrow> P s) \<Longrightarrow> runs P' m Q E"
  by (auto simp: runs_def)

lemma runs_post: "runs P m Q E \<Longrightarrow> (\<And>x s. Q x s \<Longrightarrow> Q' x s) \<Longrightarrow> runs P m Q' E"
  by (fastforce simp: runs_def split: sum.splits)

lemma runs_err: "runs P m Q E \<Longrightarrow> (\<And>s. E s \<Longrightarrow> E' s) \<Longrightarrow> runs P m Q E'"
  by (fastforce simp: runs_def split: sum.splits)

lemma runs_state:
  assumes "runs P m (\<lambda>_. I) I" "P s" "m s = (r, t)"
  shows "I t"
proof (cases r)
  case (Inl e)
  from runsD(2)[OF assms(1,2) assms(3)[unfolded Inl]] show ?thesis .
next
  case (Inr x)
  from runsD(1)[OF assms(1,2) assms(3)[unfolded Inr]] show ?thesis .
qed

lemma runs_return: "(\<And>s. P s \<Longrightarrow> Q x s) \<Longrightarrow> runs P (io_return x) Q E"
  by (auto simp: runs_def io_return_def)

lemma runs_fail: "(\<And>s. P s \<Longrightarrow> E s) \<Longrightarrow> runs P (io_fail e) Q E"
  by (auto simp: runs_def io_fail_def)

lemma runs_modify: "(\<And>s. P s \<Longrightarrow> Q () (f s)) \<Longrightarrow> runs P (io_modify f) Q E"
  by (auto simp: runs_def io_modify_def)

lemma runs_then: "runs P m R E \<Longrightarrow> (\<And>x. runs (R x) (k x) Q E) \<Longrightarrow> runs P (io_then m k) Q E"
  unfolding runs_def io_then_def by (fastforce split: prod.splits sum.splits)

lemma runs_catch:
  assumes "runs P m Q R" "\<And>e. runs R (h e) Q E"
  shows "runs P (io_catch m h) Q E"
proof (rule runsI)
  fix s x t
  assume s: "P s" and run: "io_catch m h s = (Inr x, t)"
  obtain r u where m: "m s = (r, u)" by (cases "m s")
  show "Q x t"
  proof (cases r)
    case (Inl e)
    from runsD(1)[OF assms(2) runsD(2)[OF assms(1) s m[unfolded Inl]]] run m Inl show ?thesis
      by (simp add: io_catch_def)
  next
    case (Inr y)
    from runsD(1)[OF assms(1) s m[unfolded Inr]] run m Inr show ?thesis by (simp add: io_catch_def)
  qed
next
  fix s e t
  assume s: "P s" and run: "io_catch m h s = (Inl e, t)"
  obtain r u where m: "m s = (r, u)" by (cases "m s")
  show "E t"
  proof (cases r)
    case (Inl e')
    from runsD(2)[OF assms(2) runsD(2)[OF assms(1) s m[unfolded Inl]]] run m Inl show ?thesis
      by (simp add: io_catch_def)
  next
    case (Inr y)
    with run m show ?thesis by (simp add: io_catch_def)
  qed
qed

lemma runs_get: "(\<And>x. runs (\<lambda>s. P s \<and> f s = x) (k x) Q E) \<Longrightarrow> runs P (io_get f k) Q E"
  unfolding runs_def io_get_ok by blast

lemma runs_attempt:
  "(\<And>x. r = Inr x \<Longrightarrow> runs P (k x) Q E) \<Longrightarrow> (\<And>s. P s \<Longrightarrow> E s) \<Longrightarrow> runs P (io_attempt r k) Q E"
  by (cases r) (auto simp: runs_def io_attempt_def)

lemma runs_ensure: "(c \<Longrightarrow> runs P k Q E) \<Longrightarrow> (\<And>s. P s \<Longrightarrow> E s) \<Longrightarrow> runs P (io_ensure c msg k) Q E"
  by (cases c) (auto simp: runs_def io_ensure_def)

lemma runs_need:
  "(\<And>x. v = Some x \<Longrightarrow> runs P (k x) Q E) \<Longrightarrow> (\<And>s. P s \<Longrightarrow> E s) \<Longrightarrow> runs P (io_need v msg k) Q E"
  by (cases v) (auto simp: runs_def io_need_def)

lemma runs_if: "(c \<Longrightarrow> runs P m Q E) \<Longrightarrow> (\<not> c \<Longrightarrow> runs P k Q E) \<Longrightarrow> runs P (if c then m else k) Q E"
  by simp

lemma runs_option:
  "(v = None \<Longrightarrow> runs P m Q E) \<Longrightarrow> (\<And>x. v = Some x \<Longrightarrow> runs P (k x) Q E) \<Longrightarrow>
   runs P (case v of None \<Rightarrow> m | Some x \<Rightarrow> k x) Q E"
  by (cases v) auto

lemma runs_for: "(\<And>x. x \<in> set xs \<Longrightarrow> runs I (f x) (\<lambda>_. I) E) \<Longrightarrow> runs I (io_for f xs) (\<lambda>_. I) E"
proof (induction xs)
  case Nil
  show ?case by (auto intro: runs_return)
next
  case (Cons x xs)
  have "runs I (io_for f xs) (\<lambda>_. I) E" using Cons.prems by (intro Cons.IH) simp
  then show ?case using Cons.prems[of x] by (auto intro: runs_then)
qed

text \<open>A loop whose invariant counts its rounds.\<close>

lemma runs_for_counted:
  assumes "\<And>n x. x \<in> set xs \<Longrightarrow> n < k + length xs \<Longrightarrow> runs (I n) (f x) (\<lambda>_. I (Suc n)) E"
  shows "runs (I k) (io_for f xs) (\<lambda>_. I (k + length xs)) E"
  using assms
proof (induction xs arbitrary: k)
  case Nil
  show ?case by (auto intro: runs_return)
next
  case (Cons x xs)
  have "runs (I (Suc k)) (io_for f xs) (\<lambda>_. I (Suc k + length xs)) E"
    using Cons.prems by (intro Cons.IH) simp
  then show ?case using Cons.prems[of x k] by (auto intro: runs_then)
qed

text \<open>Results as values, and facts that do not depend on the state.\<close>

definition io_try :: "('s, 'a) io \<Rightarrow> ('s, 'a res) io" where
  "io_try m s = (case m s of (r, t) \<Rightarrow> (Inr r, t))"

lemma runs_try:
  assumes "runs P m Q E"
  shows "runs P (io_try m) (\<lambda>r w. case r of Inl e \<Rightarrow> E w | Inr x \<Rightarrow> Q x w) X"
proof (rule runsI)
  fix s r t
  assume s: "P s" and run: "io_try m s = (Inr r, t)"
  obtain v u where m: "m s = (v, u)" by (cases "m s")
  with run have e: "v = r" "u = t" by (simp_all add: io_try_def)
  show "case r of Inl e \<Rightarrow> E t | Inr x \<Rightarrow> Q x t"
    using runsD[OF assms s] m e by (cases r) auto
next
  fix s e t
  assume "io_try m s = (Inl e, t)"
  then show "X t" by (simp add: io_try_def split: prod.splits)
qed

lemma runs_pure: "(A \<Longrightarrow> runs P m Q E) \<Longrightarrow> runs (\<lambda>w. P w \<and> A) m Q E"
  by (cases A) (auto simp: runs_def)

lemma runs_ex: "(\<And>u. runs (P u) m Q E) \<Longrightarrow> runs (\<lambda>w. \<exists>u. P u w) m Q E"
  unfolding runs_def by blast

lemma runs_sum:
  "(\<And>e. r = Inl e \<Longrightarrow> runs P (h e) Q E) \<Longrightarrow> (\<And>x. r = Inr x \<Longrightarrow> runs P (k x) Q E) \<Longrightarrow>
   runs P (case r of Inl e \<Rightarrow> h e | Inr x \<Rightarrow> k x) Q E"
  by (cases r) auto

lemma runs_weaken:
  "runs P m Q E \<Longrightarrow> (\<And>x s. Q x s \<Longrightarrow> Q' x s) \<Longrightarrow> (\<And>s. E s \<Longrightarrow> E' s) \<Longrightarrow> runs P m Q' E'"
  by (rule runs_err[OF runs_post])

end
