(* ===== verification/Exposure.thy ===== *)
theory Exposure
  imports Tx_Context Io_Triples "HOL-Library.List_Lexorder" "HOL-Library.Char_ord" "HOL-Library.Multiset"
begin

text \<open>
  Exposure over unspent outputs (\<open>dockerizd_bitcoin/src/exposure/bounds.rs\<close>,
  \<open>trace.rs\<close> and the limits of \<open>mod.rs\<close>): the tight bounds on the satoshis of a tagged
  amount one output can carry, their composition along a route of actual spends, and the
  bounded walk that finds the routes. Attribution answers, digests, document sizes and the
  floating-point scores are the parameters \<open>exposure_env\<close>.
\<close>

section \<open>Bounds of one output\<close>

definition allocate :: "nat \<Rightarrow> nat \<Rightarrow> nat \<Rightarrow> nat \<Rightarrow> (nat \<times> nat) res" where
  "allocate lower upper whole output =
     ensure (lower \<le> upper \<and> upper \<le> whole \<and> output \<le> whole \<and> whole \<le> btc_supply)
       ''invalid UTXO allocation bounds''
       (Inr (saturating_sub lower (whole - output), min upper output))"

text \<open>Of \<open>t\<close> tagged satoshis among the inputs, \<open>x\<close> can reach an output of value \<open>out\<close> when
  the rest fits into the other outputs and the fee.\<close>

definition carries :: "nat \<Rightarrow> nat \<Rightarrow> nat \<Rightarrow> nat \<Rightarrow> bool" where
  "carries whole out t x \<longleftrightarrow> x \<le> t \<and> x \<le> out \<and> t - x \<le> whole - out"

lemma allocate_tight:
  assumes "allocate l u whole out = Inr (lo, hi)"
  shows "{x. \<exists>t. l \<le> t \<and> t \<le> u \<and> carries whole out t x} = {lo..hi} \<and> lo \<le> hi \<and> hi \<le> out"
proof -
  from assms have b: "l \<le> u" "u \<le> whole" "out \<le> whole" "lo = l - (whole - out)" "hi = min u out"
    by (auto simp: allocate_def ok_simps saturating_sub_def)
  have "\<exists>t. l \<le> t \<and> t \<le> u \<and> carries whole out t x" if "lo \<le> x" "x \<le> hi" for x
    using that b by (intro exI[of _ "max l x"]) (auto simp: carries_def)
  then show ?thesis using b by (auto simp: carries_def)
qed

text \<open>The interval given to an output is exact: it holds the amounts the output can carry for some
  admissible tagged input, and no others; inconsistent bounds are refused.\<close>

theorem allocate_exact:
  "case allocate l u whole out of
     Inl _ \<Rightarrow> \<not> (l \<le> u \<and> u \<le> whole \<and> out \<le> whole \<and> whole \<le> btc_supply)
   | Inr (lo, hi) \<Rightarrow> {x. \<exists>t. l \<le> t \<and> t \<le> u \<and> carries whole out t x} = {lo..hi} \<and> lo \<le> hi \<and> hi \<le> out"
proof (cases "allocate l u whole out")
  case (Inl e)
  then show ?thesis by (simp add: allocate_def ensure_def split: if_split_asm)
next
  case (Inr b)
  then show ?thesis using allocate_tight[of l u whole out "fst b" "snd b"] by (simp add: split_beta)
qed

section \<open>Routes\<close>

record hop =
  hp_tx :: tx_ctx
  hp_ins :: "nat list"
  hp_out :: nat

abbreviation hop_output :: "hop \<Rightarrow> leg" where
  "hop_output h \<equiv> c_outputs (hp_tx h) ! hp_out h"

abbreviation hop_input :: "hop \<Rightarrow> leg" where
  "hop_input h \<equiv> c_inputs (hp_tx h) ! (hp_ins h ! 0)"

definition follows :: "hop \<Rightarrow> hop \<Rightarrow> bool" where
  "follows prior hop \<longleftrightarrow> length (hp_ins hop) = 1 \<and>
     lg_prev_tx (hop_input hop) = Some (hd_tx (c_head (hp_tx prior))) \<and>
     lg_prev_index (hop_input hop) = Some (u32_cast (hp_out prior)) \<and>
     lg_value (hop_input hop) = lg_value (hop_output prior) \<and>
     lg_subject (hop_input hop) = lg_subject (hop_output prior) \<and>
     before (position (hp_tx prior)) (position (hp_tx hop))"

record alloc_step =
  as_lower :: nat
  as_upper :: nat
  as_out_lower :: nat
  as_out_upper :: nat

text \<open>The loop of \<open>make_path\<close>: each hop must spend the output of the one before it, and narrows
  the interval.\<close>

fun route_steps :: "hop option \<Rightarrow> nat \<times> nat \<Rightarrow> hop list \<Rightarrow> alloc_step list res" where
  "route_steps prior b [] = Inr []"
| "route_steps prior (lower, upper) (h # hs) =
     ensure (case prior of None \<Rightarrow> True | Some p \<Rightarrow> follows p h)
       ''exposure route does not follow an actual spent outpoint''
     (attempt (allocate lower upper (c_total (hp_tx h)) (lg_value (hop_output h))) (\<lambda>(lo, hi).
      attempt (route_steps (Some h) (lo, hi) hs) (\<lambda>rest.
      Inr (\<lparr>as_lower = lower, as_upper = upper, as_out_lower = lo, as_out_upper = hi\<rparr> # rest))))"

definition origin_amount :: "hop \<Rightarrow> nat res" where
  "origin_amount h =
     foldE (\<lambda>i n. need (checked_add64 n (lg_value (c_inputs (hp_tx h) ! i))) ''origin amount overflow'' Inr) (hp_ins h) 0"

definition route_bounds :: "hop list \<Rightarrow> (alloc_step list \<times> nat \<times> nat) res" where
  "route_bounds path =
     attempt (origin_amount (path ! 0)) (\<lambda>n.
     attempt (route_steps None (n, n) path) (\<lambda>steps.
     Inr (steps, as_out_lower (List.last steps), as_out_upper (List.last steps))))"

text \<open>What a tagged amount at the start of a route can amount to at its end.\<close>

fun flow :: "hop list \<Rightarrow> nat \<Rightarrow> nat \<Rightarrow> bool" where
  "flow [] t x \<longleftrightarrow> x = t"
| "flow (h # hs) t x \<longleftrightarrow> (\<exists>y. carries (c_total (hp_tx h)) (lg_value (hop_output h)) t y \<and> flow hs y x)"

lemma route_steps_tight:
  assumes "route_steps prior (l, u) hs = Inr steps" "hs \<noteq> []"
  shows "length steps = length hs \<and>
    {x. \<exists>t. l \<le> t \<and> t \<le> u \<and> flow hs t x} = {as_out_lower (List.last steps)..as_out_upper (List.last steps)} \<and>
    as_out_lower (List.last steps) \<le> as_out_upper (List.last steps) \<and>
    as_out_upper (List.last steps) \<le> lg_value (hop_output (List.last hs))"
  using assms
proof (induction hs arbitrary: prior l u steps)
  case (Cons h hs)
  from Cons.prems(1) obtain lo hi rest where
    a: "allocate l u (c_total (hp_tx h)) (lg_value (hop_output h)) = Inr (lo, hi)"
    and r: "route_steps (Some h) (lo, hi) hs = Inr rest"
    and steps: "steps = \<lparr>as_lower = l, as_upper = u, as_out_lower = lo, as_out_upper = hi\<rparr> # rest"
    by (auto simp: ok_simps)
  note t = allocate_tight[OF a]
  have e: "{x. \<exists>t. l \<le> t \<and> t \<le> u \<and> flow (h # hs) t x} = {x. \<exists>y. lo \<le> y \<and> y \<le> hi \<and> flow hs y x}"
  proof -
    have "(\<exists>t. l \<le> t \<and> t \<le> u \<and> flow (h # hs) t x) \<longleftrightarrow>
        (\<exists>y \<in> {x. \<exists>t. l \<le> t \<and> t \<le> u \<and> carries (c_total (hp_tx h)) (lg_value (hop_output h)) t x}. flow hs y x)" for x
      by auto
    then show ?thesis using t by auto
  qed
  show ?case
  proof (cases "hs = []")
    case True
    with r have "rest = []" by simp
    moreover have "{x. \<exists>y. lo \<le> y \<and> y \<le> hi \<and> flow hs y x} = {lo..hi}" using True by auto
    ultimately show ?thesis using e t steps True by simp
  next
    case False
    from Cons.IH[OF r False] have ih: "length rest = length hs \<and>
      {x. \<exists>t. lo \<le> t \<and> t \<le> hi \<and> flow hs t x} = {as_out_lower (List.last rest)..as_out_upper (List.last rest)} \<and>
      as_out_lower (List.last rest) \<le> as_out_upper (List.last rest) \<and>
      as_out_upper (List.last rest) \<le> lg_value (hop_output (List.last hs))" .
    then have "rest \<noteq> []" using False by auto
    then show ?thesis using ih False e unfolding steps by simp
  qed
qed simp

lemma origin_amount_ok: "origin_amount h = Inr n \<Longrightarrow> n = sum_list (map (\<lambda>i. lg_value (c_inputs (hp_tx h) ! i)) (hp_ins h))"
proof -
  have "foldE (\<lambda>i n. need (checked_add64 n (lg_value (c_inputs (hp_tx h) ! i))) ''origin amount overflow'' Inr) js m = Inr n
      \<Longrightarrow> n = m + sum_list (map (\<lambda>i. lg_value (c_inputs (hp_tx h) ! i)) js)" for js m
    by (induction js arbitrary: m) (fastforce simp: ok_simps)+
  from this[of "hp_ins h" 0] show "origin_amount h = Inr n \<Longrightarrow>
      n = sum_list (map (\<lambda>i. lg_value (c_inputs (hp_tx h) ! i)) (hp_ins h))" by (simp add: origin_amount_def)
qed

text \<open>A route the walk may build: hops over sound transactions, within their legs, each spending
  the output of the one before.\<close>

definition hop_ok :: "hop \<Rightarrow> bool" where
  "hop_ok h \<longleftrightarrow> sound_tx_ctx (hp_tx h) \<and> hd_coinbase (c_head (hp_tx h)) \<noteq> 1 \<and> hp_ins h \<noteq> [] \<and> distinct (hp_ins h) \<and>
     (\<forall>i \<in> set (hp_ins h). i < length (c_inputs (hp_tx h))) \<and> hp_out h < length (c_outputs (hp_tx h))"

definition route_ok :: "hop list \<Rightarrow> bool" where
  "route_ok hs \<longleftrightarrow> hs \<noteq> [] \<and> list_all hop_ok hs \<and> successively follows hs"

lemma sum_distinct_indices:
  assumes "distinct js" "\<forall>i \<in> set js. i < length xs"
  shows "sum_list (map (\<lambda>i. f (xs ! i)) js) \<le> sum_list (map f xs :: nat list)"
proof -
  have "sum_list (map (\<lambda>i. f (xs ! i)) js) = sum (\<lambda>i. f (xs ! i)) (set js)"
    using assms(1) by (simp add: sum_list_distinct_conv_sum_set)
  also have "\<dots> \<le> sum (\<lambda>i. f (xs ! i)) {0..<length xs}"
    using assms(2) by (intro sum_mono2) auto
  also have "\<dots> = sum_list (map f xs)" by (simp add: sum_list_sum_nth)
  finally show ?thesis .
qed

lemma nth_le_sum: "i < length xs \<Longrightarrow> f (xs ! i) \<le> sum_list (map f xs :: nat list)"
  by (rule member_le_sum_list) simp_all

lemma hop_ok_amounts:
  assumes "hop_ok h"
  shows "lg_value (hop_output h) \<le> c_total (hp_tx h)" "c_total (hp_tx h) \<le> btc_supply"
    "sum_list (map (\<lambda>i. lg_value (c_inputs (hp_tx h) ! i)) (hp_ins h)) \<le> c_total (hp_tx h)"
    "lg_value (hop_input h) \<le> c_total (hp_tx h)"
proof -
  have t: "c_total (hp_tx h) = sum_list (map lg_value (c_inputs (hp_tx h)))"
    "sum_list (map lg_value (c_outputs (hp_tx h))) \<le> c_total (hp_tx h)" "c_total (hp_tx h) \<le> btc_supply"
    using assms by (auto simp: hop_ok_def sound_tx_ctx_def)
  show "lg_value (hop_output h) \<le> c_total (hp_tx h)"
    using nth_le_sum[of "hp_out h" "c_outputs (hp_tx h)" lg_value] t assms by (simp add: hop_ok_def)
  show "c_total (hp_tx h) \<le> btc_supply" by (rule t(3))
  show "sum_list (map (\<lambda>i. lg_value (c_inputs (hp_tx h) ! i)) (hp_ins h)) \<le> c_total (hp_tx h)"
    using sum_distinct_indices[of "hp_ins h" "c_inputs (hp_tx h)" lg_value] assms t by (simp add: hop_ok_def)
  have "hp_ins h ! 0 < length (c_inputs (hp_tx h))" using assms by (simp add: hop_ok_def)
  from nth_le_sum[OF this, of lg_value] show "lg_value (hop_input h) \<le> c_total (hp_tx h)" using t by simp
qed

lemma route_steps_run:
  assumes "successively follows hs" "list_all hop_ok hs" "l \<le> u" "hs \<noteq> [] \<Longrightarrow> u \<le> c_total (hp_tx (hs ! 0))"
    and "case prior of None \<Rightarrow> True | Some p \<Rightarrow> hs \<noteq> [] \<longrightarrow> follows p (hs ! 0)"
  shows "is_ok (route_steps prior (l, u) hs)"
  using assms
proof (induction hs arbitrary: prior l u)
  case (Cons h hs)
  have b: "lg_value (hop_output h) \<le> c_total (hp_tx h)" "c_total (hp_tx h) \<le> btc_supply"
    using hop_ok_amounts Cons.prems(2) by auto
  then obtain lo hi where a: "allocate l u (c_total (hp_tx h)) (lg_value (hop_output h)) = Inr (lo, hi)"
    using Cons.prems(3,4) by (auto simp: allocate_def)
  have t: "lo \<le> hi" "hi \<le> lg_value (hop_output h)" using allocate_tight[OF a] by auto
  have n: "hs \<noteq> [] \<Longrightarrow> follows h (hs ! 0)" using Cons.prems(1) by (cases hs) auto
  have "hi \<le> c_total (hp_tx (hs ! 0))" if "hs \<noteq> []"
  proof -
    have "lg_value (hop_input (hs ! 0)) \<le> c_total (hp_tx (hs ! 0))"
      using hop_ok_amounts(4) that Cons.prems(2) by (cases hs) auto
    then show ?thesis using n[OF that] t(2) by (simp add: follows_def)
  qed
  moreover have "successively follows hs" using Cons.prems(1) by (cases hs) auto
  ultimately have "is_ok (route_steps (Some h) (lo, hi) hs)"
    using Cons.prems(2) t n by (intro Cons.IH) auto
  moreover have "case prior of None \<Rightarrow> True | Some p \<Rightarrow> follows p h"
    using Cons.prems(5) by (simp split: option.splits)
  ultimately show ?case using a by (auto simp: is_ok_iff ok_simps split: option.splits)
qed simp

lemma origin_runs:
  assumes "hop_ok h"
  shows "origin_amount h = Inr (sum_list (map (\<lambda>i. lg_value (c_inputs (hp_tx h) ! i)) (hp_ins h)))"
proof -
  have "foldE (\<lambda>i n. need (checked_add64 n (lg_value (c_inputs (hp_tx h) ! i))) ''origin amount overflow'' Inr) js m =
      Inr (m + sum_list (map (\<lambda>i. lg_value (c_inputs (hp_tx h) ! i)) js))"
    if "m + sum_list (map (\<lambda>i. lg_value (c_inputs (hp_tx h) ! i)) js) < u64_lim" for js m
    using that by (induction js arbitrary: m) (auto simp: checked_add64_def add.assoc)
  moreover have "sum_list (map (\<lambda>i. lg_value (c_inputs (hp_tx h) ! i)) (hp_ins h)) < u64_lim"
    using hop_ok_amounts(2,3)[OF assms] by (simp add: btc_supply_def u64_lim_val)
  ultimately show ?thesis by (simp add: origin_amount_def)
qed

text \<open>Along a route of actual spends over balanced transactions the bounds never fail, and the
  final interval holds exactly the amounts the origin's satoshis can amount to at the last output.\<close>

theorem route_bounds_exact:
  assumes "route_ok hs"
  shows "\<exists>steps lo hi. route_bounds hs = Inr (steps, lo, hi) \<and> length steps = length hs \<and> lo \<le> hi \<and>
    hi \<le> lg_value (hop_output (List.last hs)) \<and>
    {x. flow hs (sum_list (map (\<lambda>i. lg_value (c_inputs (hp_tx (hs ! 0)) ! i)) (hp_ins (hs ! 0)))) x} = {lo..hi}"
proof -
  let ?n = "sum_list (map (\<lambda>i. lg_value (c_inputs (hp_tx (hs ! 0)) ! i)) (hp_ins (hs ! 0)))"
  have h: "hop_ok (hs ! 0)" "hs \<noteq> []" using assms by (cases hs; auto simp: route_ok_def)+
  have o: "origin_amount (hs ! 0) = Inr ?n" using origin_runs[OF h(1)] .
  have "is_ok (route_steps None (?n, ?n) hs)"
    using assms hop_ok_amounts(3)[OF h(1)] by (intro route_steps_run) (auto simp: route_ok_def)
  then obtain steps where s: "route_steps None (?n, ?n) hs = Inr steps" by (auto simp: is_ok_iff)
  have "{x. \<exists>t. ?n \<le> t \<and> t \<le> ?n \<and> flow hs t x} = {x. flow hs ?n x}" by auto
  with route_steps_tight[OF s h(2)] show ?thesis by (simp add: route_bounds_def o s)
qed

section \<open>Path documents\<close>

record exposure_env =
  xe_db :: chain_db
  xe_read :: "string \<Rightarrow> (json list \<times> json) res"       \<comment> \<open>claims of an address, and their snapshot\<close>
  xe_roots :: "string \<Rightarrow> nat \<Rightarrow> json list"           \<comment> \<open>latest occurrences of an address, limited\<close>
  xe_hash :: "json \<Rightarrow> string"                      \<comment> \<open>SHA-256 of the document, lower-case hex\<close>
  xe_size :: "json \<Rightarrow> nat"                         \<comment> \<open>bytes of the document\<close>
  xe_share :: "nat \<Rightarrow> nat \<Rightarrow> string"
  xe_weight :: "nat \<Rightarrow> string"
  xe_strength :: "json \<Rightarrow> nat \<Rightarrow> nat \<Rightarrow> nat \<Rightarrow> nat \<Rightarrow> string"

definition exposure_policy :: string where "exposure_policy = ''bitcoin_utxo_bounds_v1''"

definition service_types :: "string list" where
  "service_types = [''exchange'', ''custodian'', ''bridge'', ''dex'', ''mixer'']"

definition service :: "json list \<Rightarrow> bool" where
  "service labels \<longleftrightarrow> (\<exists>v \<in> set labels. ascii_lower (text_of (field v ''entity_type'')) \<in> set service_types)"

definition seed :: "json \<Rightarrow> nat \<Rightarrow> bool" where
  "seed claim at \<longleftrightarrow> field claim ''is_exposure_seed'' = JBool True \<and>
     (case as_u64 (field claim ''risk_level'') of None \<Rightarrow> False | Some v \<Rightarrow> 0 < v) \<and>
     (case as_u64 (field claim ''valid_from_unix_ms'') of None \<Rightarrow> False | Some v \<Rightarrow> v \<le> at) \<and>
     (field claim ''valid_to_unix_ms'' = JNull \<or>
      (case as_u64 (field claim ''valid_to_unix_ms'') of None \<Rightarrow> False | Some v \<Rightarrow> at < v))"

definition leg_doc :: "leg \<Rightarrow> json" where
  "leg_doc l = JObj [(''index'', jnat (lg_index l)), (''subject'', JStr (lg_subject l)), (''value'', jnat (lg_value l)),
     (''relationship_id'', JStr (lg_rel l)), (''prev_tx_hash'', jopt JStr (lg_prev_tx l)),
     (''prev_output_index'', jopt jnat (lg_prev_index l))]"

definition step_doc :: "hop \<Rightarrow> alloc_step \<Rightarrow> json" where
  "step_doc h a = JObj [(''lower_input_sats'', jtext (as_lower a)), (''upper_input_sats'', jtext (as_upper a)),
     (''total_input_sats'', jtext (c_total (hp_tx h))), (''output_sats'', jtext (lg_value (hop_output h))),
     (''fee_sats'', jtext (c_fee (hp_tx h))), (''lower_output_sats'', jtext (as_out_lower a)),
     (''upper_output_sats'', jtext (as_out_upper a))]"

definition hop_inputs :: "hop \<Rightarrow> leg list" where
  "hop_inputs h = map (\<lambda>i. c_inputs (hp_tx h) ! i) (hp_ins h)"

definition hop_doc :: "hop \<Rightarrow> json" where
  "hop_doc h = (let t = c_head (hp_tx h) in JObj [(''tx_hash'', JStr (hd_tx t)), (''block_hash'', JStr (hd_block t)),
     (''block_number'', jnat (hd_number t)), (''transaction_index'', jnat (hd_index t)),
     (''timestamp_unix_ms'', jnat (hd_time t)), (''commit_id'', JStr (hd_commit t)), (''revision'', jtext (hd_revision t)),
     (''inputs'', JArr (map leg_doc (hop_inputs h))), (''output'', leg_doc (hop_output h))])"

definition hop_ids :: "hop \<Rightarrow> string list" where
  "hop_ids h = map lg_rel (hop_inputs h) @ [lg_rel (hop_output h)]"

definition hop_refs :: "hop \<Rightarrow> json list" where
  "hop_refs h = [JStr (''tx:'' @ hd_tx (c_head (hp_tx h))),
     JStr (''outpoint:'' @ hd_tx (c_head (hp_tx h)) @ '':'' @ show_nat (hp_out h))]"

definition path_id :: "exposure_env \<Rightarrow> string \<Rightarrow> bool \<Rightarrow> json \<Rightarrow> string list \<Rightarrow> string" where
  "path_id env address incoming claim ids =
     xe_hash env (JArr [JStr address, JBool incoming, field claim ''claim_id'', jstrs ids])"

definition make_path ::
  "exposure_env \<Rightarrow> string \<Rightarrow> bool \<Rightarrow> hop list \<Rightarrow> json \<Rightarrow> json \<Rightarrow> bool \<Rightarrow> nat \<Rightarrow> json option res" where
  "make_path env address incoming path claim snapshot mediated at =
     attempt (route_bounds path) (\<lambda>(steps, lower, upper).
     if upper = 0 then Inr None else
     (let final = List.last path; at_end = hd_time (c_head (hp_tx final)); age = saturating_sub at at_end;
          subjects = jstrs (lg_subject (hop_input (path ! 0)) # map (\<lambda>h. lg_subject (hop_output h)) path);
          ids = concat (map hop_ids path) in
      need (as_array (field claim ''evidence_refs'')) ''seed evidence missing'' (\<lambda>refs.
      Inr (Some (JObj
       [(''network_id'', JStr (network_id Bitcoin)), (''path_id'', JStr (path_id env address incoming claim ids)),
        (''run_id'', JStr []), (''subject_id'', JStr address),
        (''seed_id'', JStr (''btc-seed-'' @ xe_hash env (JArr [field claim ''claim_id'', snapshot]))),
        (''seed_address'', field claim ''address''), (''seed_claim'', claim), (''seed_snapshot'', snapshot),
        (''direction'', JStr (if incoming then ''RECEIVED_FROM_SEED'' else ''SENT_TO_SEED'')),
        (''hop_count'', jnat (length path)), (''asset_id'', JStr ''native:BTC''), (''amount_raw'', jtext lower),
        (''amount_share'', JNum (xe_share env lower (max (lg_value (hop_output final)) 1))),
        (''exposure_score'', JNum (if mediated then ''0.0''
           else xe_strength env claim lower (max (lg_value (hop_output final)) 1) (length path) age)),
        (''score_eligible'', JBool (0 < lower \<and> \<not> mediated)), (''attribution_method'', JStr exposure_policy),
        (''fund_continuity_claimed'', JBool False), (''ownership_claimed'', JBool False),
        (''service_mediated'', JBool mediated),
        (''continuity_type'', JStr ''exact_outpoints_with_conservative_value_bounds''),
        (''path_subjects'', subjects), (''path_addresses'', subjects),
        (''tx_hashes'', jstrs (map (\<lambda>h. hd_tx (c_head (hp_tx h))) path)), (''relationship_ids'', jstrs ids),
        (''evidence_refs'', JArr (refs @ concat (map hop_refs path))), (''hops'', JArr (map hop_doc path)),
        (''time_weight'', JNum (xe_weight env age)), (''hop_decay'', JNum ''0.65''),
        (''first_transfer_unix_ms'', jnat (hd_time (c_head (hp_tx (path ! 0))))),
        (''last_transfer_unix_ms'', jnat at_end),
        (''allocation'', JObj [(''method'', JStr exposure_policy), (''minimum_sats'', jtext lower),
           (''maximum_sats'', jtext upper), (''amount_basis'', JStr ''lower_bound''),
           (''paths_additive'', JBool False), (''steps'', JArr (map2 step_doc path steps))])])))))"

section \<open>The walk\<close>

record work =
  wk_tx :: tx_ctx
  wk_indices :: "nat list"
  wk_path :: "hop list"
  wk_incoming :: bool

record scan_st =
  sc_reader :: reader
  sc_labels :: "(string \<times> json list \<times> json) list"
  sc_truncated :: bool
  sc_boundaries :: nat
  sc_queue :: "work list"
  sc_paths :: "(string \<times> json) list"
  sc_states :: nat
  sc_bytes :: nat

record exposure_options =
  xo_max_hops :: nat
  xo_max_transactions :: nat
  xo_max_paths :: nat

definition default_options :: exposure_options where
  "default_options = \<lparr>xo_max_hops = 3, xo_max_transactions = 100, xo_max_paths = 50\<rparr>"

definition validate_options :: "exposure_options \<Rightarrow> unit res" where
  "validate_options p =
     ensure (1 \<le> xo_max_hops p \<and> xo_max_hops p \<le> 5 \<and> 1 \<le> xo_max_transactions p \<and> xo_max_transactions p \<le> 200 \<and>
             1 \<le> xo_max_paths p \<and> xo_max_paths p \<le> 100)
       ''exposure limits: hops 1..5, transactions 1..200, paths 1..100'' (Inr ())"

definition cut :: "(scan_st, unit) io" where
  "cut = io_modify (\<lambda>s. s\<lparr>sc_truncated := True\<rparr>)"

text \<open>The reader's operations, recording its truncation.\<close>

definition with_reader :: "(reader, 'a) io \<Rightarrow> (scan_st, 'a) io" where
  "with_reader = io_zoom sc_reader (\<lambda>r s. s\<lparr>sc_reader := r, sc_truncated := sc_truncated s \<or> rd_truncated r\<rparr>)"

definition max_labels :: nat where "max_labels = 64"

definition max_work :: nat where "max_work = 1000"

definition max_path_bytes :: nat where "max_path_bytes = 4 * 1024 * 1024"

definition labels :: "exposure_env \<Rightarrow> string \<Rightarrow> (scan_st, json list) io" where
  "labels env subject =
     (if starts_with subject ''script:'' then io_return []
      else io_get (\<lambda>s. map_of (sc_labels s) subject) (\<lambda>hit. case hit of Some a \<Rightarrow> io_return (fst a)
      | None \<Rightarrow> io_get (\<lambda>s. max_labels \<le> length (sc_labels s)) (\<lambda>full.
          if full then io_then cut (\<lambda>_. io_return [])
          else io_attempt (xe_read env subject) (\<lambda>a.
            io_then (io_modify (\<lambda>s. s\<lparr>sc_labels := (subject, a) # sc_labels s\<rparr>)) (\<lambda>_. io_return (fst a))))))"

definition enqueue :: "work \<Rightarrow> (scan_st, unit) io" where
  "enqueue w = io_get (\<lambda>s. max_work \<le> length (sc_queue s)) (\<lambda>full.
     if full then cut else io_modify (\<lambda>s. s\<lparr>sc_queue := sc_queue s @ [w]\<rparr>))"

definition indices_where :: "(leg \<Rightarrow> bool) \<Rightarrow> leg list \<Rightarrow> nat list" where
  "indices_where p ls = filter (\<lambda>i. p (ls ! i)) [0..<length ls]"

text \<open>The first hops of a root: one for each output it pays the address, one for all it spends.\<close>

definition root_work :: "string \<Rightarrow> tx_ctx \<Rightarrow> (scan_st, unit) io" where
  "root_work address tx =
     io_then (io_for (\<lambda>i. enqueue \<lparr>wk_tx = tx, wk_indices = [i], wk_path = [], wk_incoming = True\<rparr>)
       (indices_where (\<lambda>q. lg_subject q = address \<and> 0 < lg_value q) (c_outputs tx))) (\<lambda>_.
     (let ins = indices_where (\<lambda>l. lg_subject l = address) (c_inputs tx) in
      if ins = [] then io_return ()
      else enqueue \<lparr>wk_tx = tx, wk_indices = ins, wk_path = [], wk_incoming = False\<rparr>))"

definition read_root :: "exposure_env \<Rightarrow> string \<Rightarrow> json \<Rightarrow> (scan_st, unit) io" where
  "read_root env address row =
     io_attempt (text_field row ''block_hash'') (\<lambda>block.
     io_attempt (text_field row ''tx_hash'') (\<lambda>hash.
     io_then (with_reader (load (xe_db env) block hash)) (\<lambda>found. case found of None \<Rightarrow> io_return ()
     | Some tx \<Rightarrow> if hd_coinbase (c_head tx) = 1 then io_return () else root_work address tx)))"

definition work_legs :: "work \<Rightarrow> leg list" where
  "work_legs w = (if wk_incoming w then c_inputs (wk_tx w) else c_outputs (wk_tx w))"

definition extend_route :: "work \<Rightarrow> nat \<Rightarrow> hop list" where
  "extend_route w index =
     (let hop = \<lparr>hp_tx = wk_tx w, hp_ins = (if wk_incoming w then [index] else wk_indices w),
                 hp_out = (if wk_incoming w then wk_indices w ! 0 else index)\<rparr>
      in if wk_incoming w then hop # wk_path w else wk_path w @ [hop])"

text \<open>A claim's route starts from every input of the labelled subject.\<close>

definition claim_route :: "work \<Rightarrow> leg \<Rightarrow> hop list \<Rightarrow> hop list" where
  "claim_route w l path =
     (if wk_incoming w then (hd path)\<lparr>hp_ins := indices_where (\<lambda>v. lg_subject v = lg_subject l) (c_inputs (wk_tx w))\<rparr> # tl path
      else path)"

definition add_path :: "exposure_env \<Rightarrow> nat \<Rightarrow> json \<Rightarrow> (scan_st, unit) io" where
  "add_path env max_paths p =
     io_need (as_str (field p ''path_id'')) ''called Option::unwrap() on a None value'' (\<lambda>key.
     io_get (\<lambda>s. map_of (sc_paths s) key = None) (\<lambda>fresh. if \<not> fresh then io_return () else
     io_get (\<lambda>s. max_paths \<le> length (sc_paths s) \<or> max_path_bytes < sc_bytes s + xe_size env p) (\<lambda>full.
     if full then cut
     else io_modify (\<lambda>s. s\<lparr>sc_bytes := sc_bytes s + xe_size env p, sc_paths := sc_paths s @ [(key, p)]\<rparr>))))"

definition add_claim ::
  "exposure_env \<Rightarrow> exposure_options \<Rightarrow> string \<Rightarrow> bool \<Rightarrow> nat \<Rightarrow> work \<Rightarrow> leg \<Rightarrow> hop list \<Rightarrow> json \<Rightarrow> (scan_st, unit) io" where
  "add_claim env opts address mediated at w l path claim =
     io_get (\<lambda>s. map_of (sc_labels s) (lg_subject l)) (\<lambda>a. io_need a ''no entry found for key'' (\<lambda>a.
     io_attempt (make_path env address (wk_incoming w) (claim_route w l path) claim (snd a) mediated at) (\<lambda>p.
     case p of None \<Rightarrow> io_return () | Some p \<Rightarrow> add_path env (xo_max_paths opts) p)))"

text \<open>One choice of a work item. True stops the walk.\<close>

definition visit ::
  "exposure_env \<Rightarrow> exposure_options \<Rightarrow> string \<Rightarrow> bool \<Rightarrow> nat \<Rightarrow> work \<Rightarrow> nat \<Rightarrow> (scan_st, bool) io" where
  "visit env opts address subject_service at w index =
     io_then (io_modify (\<lambda>s. s\<lparr>sc_states := sc_states s + 1\<rparr>)) (\<lambda>_.
     io_get (\<lambda>s. max_work < sc_states s) (\<lambda>full. if full then io_then cut (\<lambda>_. io_return True) else
     (let l = work_legs w ! index; path = extend_route w index in
      io_then (labels env (lg_subject l)) (\<lambda>ls.
      (let boundary = service ls;
           claims = filter (\<lambda>c. field c ''address'' \<noteq> JStr address \<and> seed c (hd_time (c_head (wk_tx w)))) ls in
       io_then (io_for (add_claim env opts address (subject_service \<or> boundary) at w l path) claims) (\<lambda>_.
       io_then (if boundary then io_modify (\<lambda>s. s\<lparr>sc_boundaries := sc_boundaries s + 1\<rparr>) else io_return ()) (\<lambda>_.
       if claims \<noteq> [] \<or> boundary \<or> subject_service \<or> xo_max_hops opts \<le> length path then io_return False else
       io_then (with_reader (if wk_incoming w then previous (xe_db env) (wk_tx w) l else spender (xe_db env) (wk_tx w) index)) (\<lambda>found.
       case found of None \<Rightarrow> io_return False | Some (tx, i) \<Rightarrow>
         if hd_coinbase (c_head tx) = 1 then io_return False
         else io_then (enqueue \<lparr>wk_tx = tx, wk_indices = [i], wk_path = path, wk_incoming = wk_incoming w\<rparr>) (\<lambda>_.
              io_return False)))))))))"

fun visit_all ::
  "exposure_env \<Rightarrow> exposure_options \<Rightarrow> string \<Rightarrow> bool \<Rightarrow> nat \<Rightarrow> work \<Rightarrow> nat list \<Rightarrow> (scan_st, bool) io" where
  "visit_all env opts address sv at w [] = io_return False"
| "visit_all env opts address sv at w (i # js) =
     io_then (visit env opts address sv at w i) (\<lambda>stop.
     if stop then io_return True else visit_all env opts address sv at w js)"

text \<open>Every visit counts, and nothing else does.\<close>

definition same_count :: "scan_st \<Rightarrow> scan_st \<Rightarrow> bool" where
  "same_count s t \<longleftrightarrow> sc_states t = sc_states s"

interpretation count: effect_order same_count
  by unfold_locales (simp_all add: same_count_def)

lemma counts:
  "leads same_count cut" "leads same_count (with_reader m)" "leads same_count (enqueue w)"
  "leads same_count (labels env subject)" "leads same_count (add_path env n p)"
  unfolding cut_def with_reader_def enqueue_def labels_def add_path_def
  by (auto intro!: leads_modify leads_zoom count.leads_steps split: option.split simp: same_count_def)

lemma count_claim: "leads same_count (add_claim env opts address m at w l path c)"
  unfolding add_claim_def by (auto intro!: count.leads_steps counts split: option.split)

lemma visit_counts:
  assumes "visit env opts address sv at w i s = (r, t)"
  shows "sc_states t = sc_states s + 1 \<and> (r = Inr False \<longrightarrow> sc_states t \<le> max_work)"
proof -
  let ?u = "s\<lparr>sc_states := sc_states s + 1\<rparr>"
  obtain k where k: "visit env opts address sv at w i s = (if max_work < sc_states ?u then io_then cut (\<lambda>_. io_return True) else k) ?u"
    and c: "leads same_count k"
    by (rule that, simp add: visit_def io_modify_def io_then_def io_get_def,
      auto simp: Let_def intro!: count.leads_steps leads_modify counts count_claim split: option.split)
      (simp_all add: same_count_def)
  show ?thesis
  proof (cases "max_work < sc_states ?u")
    case True
    with assms k show ?thesis by (auto simp: cut_def io_then_def io_modify_def io_return_def)
  next
    case False
    with assms k have "k ?u = (r, t)" by simp
    from leadsD[OF c this] False show ?thesis by (simp add: same_count_def)
  qed
qed

lemma visit_all_counts:
  assumes "visit_all env opts address sv at w js s = (Inr False, t)"
  shows "sc_states t = sc_states s + length js \<and> (js \<noteq> [] \<longrightarrow> sc_states t \<le> max_work) \<and> (js = [] \<longrightarrow> t = s)"
  using assms
proof (induction js arbitrary: s)
  case (Cons i js)
  from Cons.prems obtain stop u where v: "visit env opts address sv at w i s = (Inr stop, u)"
    and r: "(if stop then io_return True else visit_all env opts address sv at w js) u = (Inr False, t)"
    by (auto simp: io_then_ok)
  from r have stop: "\<not> stop" by (auto simp: io_return_def)
  with r have "visit_all env opts address sv at w js u = (Inr False, t)" by simp
  from Cons.IH[OF this] visit_counts[OF v] stop show ?case by (cases js) auto
qed (simp add: io_return_def)

text \<open>The queue is worked off front to back. Every item with a choice counts a state, and the
  thousandth stops the walk.\<close>

function walk :: "exposure_env \<Rightarrow> exposure_options \<Rightarrow> string \<Rightarrow> bool \<Rightarrow> nat \<Rightarrow> (scan_st, unit) io" where
  "walk env opts address sv at s =
     (case sc_queue s of [] \<Rightarrow> (Inr (), s)
      | w # rest \<Rightarrow>
          (case visit_all env opts address sv at w [0..<length (work_legs w)] (s\<lparr>sc_queue := rest\<rparr>) of
             (Inl e, t) \<Rightarrow> (Inl e, t)
           | (Inr stop, t) \<Rightarrow> if stop then (Inr (), t) else walk env opts address sv at t))"
  by pat_completeness auto
termination
proof (relation "measures [\<lambda>(env, opts, address, sv, at, s). Suc max_work - sc_states s,
    \<lambda>(env, opts, address, sv, at, s). length (sc_queue s)]", goal_cases)
  case prems: (2 env opts address sv at s w rest q t stop)
  then have v: "visit_all env opts address sv at w [0..<length (work_legs w)] (s\<lparr>sc_queue := rest\<rparr>) = (Inr False, t)"
    and q: "sc_queue s = w # rest" by auto
  show ?case
  proof (cases "work_legs w = []")
    case True
    with visit_all_counts[OF v] q show ?thesis by simp
  next
    case False
    then have "0 < length (work_legs w)" by simp
    with visit_all_counts[OF v] have "sc_states s < sc_states t" "sc_states t \<le> max_work" by auto
    then have "Suc max_work - sc_states t < Suc max_work - sc_states s" by arith
    then show ?thesis by simp
  qed
qed simp

declare walk.simps [simp del]

record scan_result =
  sr_paths :: "json list"
  sr_dependencies :: "(string \<times> json) list"
  sr_truncated :: bool
  sr_transactions :: nat
  sr_states :: nat
  sr_missing :: nat
  sr_boundaries :: nat

definition scan_start :: "exposure_options \<Rightarrow> scan_st" where
  "scan_start opts = \<lparr>sc_reader = reader_new (xo_max_transactions opts) 4000 2000, sc_labels = [], sc_truncated = False,
     sc_boundaries = 0, sc_queue = [], sc_paths = [], sc_states = 0, sc_bytes = 0\<rparr>"

definition scan_steps :: "exposure_env \<Rightarrow> string \<Rightarrow> exposure_options \<Rightarrow> nat \<Rightarrow> (scan_st, unit) io" where
  "scan_steps env address opts at =
     io_then (labels env address) (\<lambda>ls.
     (let roots = xe_roots env address (xo_max_transactions opts + 1) in
      io_then (if xo_max_transactions opts < length roots then cut else io_return ()) (\<lambda>_.
      io_then (io_for (read_root env address) (take (xo_max_transactions opts) roots)) (\<lambda>_.
      walk env opts address (service ls) at))))"

definition scan :: "exposure_env \<Rightarrow> string \<Rightarrow> exposure_options \<Rightarrow> nat \<Rightarrow> scan_result res" where
  "scan env address opts at =
     (case scan_steps env address opts at (scan_start opts) of (Inl e, _) \<Rightarrow> Inl e
      | (Inr _, s) \<Rightarrow> Inr \<lparr>sr_paths = map snd (sort_key fst (sc_paths s)),
          sr_dependencies = sort_key fst (map (\<lambda>(a, v). (a, snd v)) (sc_labels s)), sr_truncated = sc_truncated s,
          sr_transactions = length (rd_cache (sc_reader s)), sr_states = sc_states s,
          sr_missing = rd_missing (sc_reader s), sr_boundaries = sc_boundaries s\<rparr>)"

section \<open>What the walk maintains\<close>

definition work_ok :: "exposure_options \<Rightarrow> reader \<Rightarrow> work \<Rightarrow> bool" where
  "work_ok opts r w \<longleftrightarrow> known r (wk_tx w) \<and> hd_coinbase (c_head (wk_tx w)) \<noteq> 1 \<and>
     length (wk_path w) < xo_max_hops opts \<and> list_all hop_ok (wk_path w) \<and> successively follows (wk_path w) \<and>
     (if wk_incoming w then
        length (wk_indices w) = 1 \<and> wk_indices w ! 0 < length (c_outputs (wk_tx w)) \<and>
        (wk_path w \<noteq> [] \<longrightarrow> (\<forall>ins. follows \<lparr>hp_tx = wk_tx w, hp_ins = ins, hp_out = wk_indices w ! 0\<rparr> (hd (wk_path w))))
      else wk_indices w \<noteq> [] \<and> distinct (wk_indices w) \<and> (\<forall>i \<in> set (wk_indices w). i < length (c_inputs (wk_tx w))) \<and>
        (wk_path w \<noteq> [] \<longrightarrow> (\<forall>i. follows (List.last (wk_path w)) \<lparr>hp_tx = wk_tx w, hp_ins = wk_indices w, hp_out = i\<rparr>)))"

definition path_ok :: "exposure_env \<Rightarrow> exposure_options \<Rightarrow> string \<Rightarrow> nat \<Rightarrow> json \<Rightarrow> bool" where
  "path_ok env opts address at p \<longleftrightarrow> (\<exists>hs incoming claim snapshot mediated.
     route_ok hs \<and> length hs \<le> xo_max_hops opts \<and>
     make_path env address incoming hs claim snapshot mediated at = Inr (Some p))"

definition scan_inv :: "exposure_env \<Rightarrow> exposure_options \<Rightarrow> string \<Rightarrow> nat \<Rightarrow> scan_st \<Rightarrow> bool" where
  "scan_inv env opts address at s \<longleftrightarrow> good_reader (xe_db env) (sc_reader s) \<and> rd_max_legs (sc_reader s) = 4000 \<and>
     rd_max_transactions (sc_reader s) = xo_max_transactions opts \<and>
     (\<forall>w \<in> set (sc_queue s). work_ok opts (sc_reader s) w) \<and> length (sc_queue s) \<le> max_work \<and>
     (\<forall>(k, p) \<in> set (sc_paths s). path_ok env opts address at p) \<and> length (sc_paths s) \<le> xo_max_paths opts \<and>
     sc_bytes s = sum_list (map (\<lambda>x. xe_size env (snd x)) (sc_paths s)) \<and> sc_bytes s \<le> max_path_bytes \<and>
     length (sc_labels s) \<le> max_labels \<and> sc_states s \<le> Suc max_work"

text \<open>An item extended by one of its legs is a route.\<close>

lemma extend_route_ok:
  assumes "work_ok opts r w" "good_reader db r" "i < length (work_legs w)"
  shows "route_ok (extend_route w i)" "length (extend_route w i) \<le> xo_max_hops opts"
proof -
  have s: "sound_tx_ctx (wk_tx w)" using assms(1) by (simp add: work_ok_def known_def)
  let ?h = "\<lparr>hp_tx = wk_tx w, hp_ins = (if wk_incoming w then [i] else wk_indices w),
              hp_out = (if wk_incoming w then wk_indices w ! 0 else i)\<rparr>"
  have h: "hop_ok ?h"
    using assms(1,3) s by (auto simp: hop_ok_def work_ok_def work_legs_def split: if_split_asm)
  have n: "extend_route w i \<noteq> []" by (simp add: extend_route_def Let_def)
  show "length (extend_route w i) \<le> xo_max_hops opts"
    using assms(1) by (auto simp: extend_route_def Let_def work_ok_def)
  show "route_ok (extend_route w i)"
  proof (cases "wk_incoming w")
    case True
    then have e: "extend_route w i = ?h # wk_path w" by (simp add: extend_route_def)
    have "successively follows (?h # wk_path w)"
      using assms(1) True by (cases "wk_path w") (auto simp: work_ok_def)
    then show ?thesis unfolding route_ok_def e using h assms(1) by (simp add: work_ok_def)
  next
    case False
    then have e: "extend_route w i = wk_path w @ [?h]" by (simp add: extend_route_def)
    have "successively follows (wk_path w @ [?h])"
      using assms(1) False by (auto simp: work_ok_def successively_append_iff)
    then show ?thesis unfolding route_ok_def e using h assms(1) by (simp add: work_ok_def)
  qed
qed

lemma scan_reader_ok:
  assumes "scan_inv env opts address at s" "leads (reads (xe_db env)) m" "m (sc_reader s) = (q, r)"
  shows "scan_inv env opts address at (s\<lparr>sc_reader := r, sc_truncated := b\<rparr>)"
proof -
  have rd: "reads (xe_db env) (sc_reader s) r" using leadsD[OF assms(2,3)] .
  have g: "good_reader (xe_db env) r" using good_reads[OF assms(2,3)] assms(1) by (simp add: scan_inv_def)
  have "\<And>tx. known (sc_reader s) tx \<Longrightarrow> known r tx" using known_reads[OF assms(2,3)] .
  then have "\<And>w. work_ok opts (sc_reader s) w \<Longrightarrow> work_ok opts r w" by (simp add: work_ok_def)
  with assms(1) g rd show ?thesis by (simp add: scan_inv_def reads_def)
qed

abbreviation keeps_inv :: "exposure_env \<Rightarrow> exposure_options \<Rightarrow> string \<Rightarrow> nat \<Rightarrow> (scan_st, 'a) io \<Rightarrow> bool" where
  "keeps_inv env opts address at m \<equiv>
     yields (scan_inv env opts address at) m (\<lambda>_. scan_inv env opts address at)"

lemma keeps_cut: "keeps_inv env opts address at cut"
  unfolding cut_def by (rule yields_modify) (simp add: scan_inv_def)

lemma keeps_labels: "keeps_inv env opts address at (labels env subject)"
  unfolding labels_def
  by (intro yields_if yields_return yields_get yields_option yields_attempt yields_then[OF yields_pre[OF keeps_cut]]
      yields_then[OF yields_modify[where Q = "\<lambda>_. scan_inv env opts address at"]])
    (auto simp: scan_inv_def)

lemma enqueue_ok:
  "yields (\<lambda>s. scan_inv env opts address at s \<and> work_ok opts (sc_reader s) w) (enqueue w)
     (\<lambda>_ t. scan_inv env opts address at t \<and> work_ok opts (sc_reader t) w)"
  unfolding enqueue_def cut_def
  by (intro yields_get yields_if yields_modify) (auto simp: scan_inv_def)

lemma keeps_add_path:
  assumes "path_ok env opts address at p"
  shows "keeps_inv env opts address at (add_path env (xo_max_paths opts) p)"
  unfolding add_path_def cut_def using assms
  by (intro yields_need yields_get yields_if yields_modify yields_return) (auto simp: scan_inv_def)

text \<open>The cache only grows, so what the walk knows stays known.\<close>

definition grows :: "scan_st \<Rightarrow> scan_st \<Rightarrow> bool" where
  "grows s t \<longleftrightarrow> set (rd_cache (sc_reader s)) \<subseteq> set (rd_cache (sc_reader t))"

interpretation grow: effect_order grows
  by unfold_locales (auto simp: grows_def)

lemma grow_reader: "leads (reads db) m \<Longrightarrow> leads grows (with_reader m)"
  unfolding with_reader_def by (rule leads_zoom) (auto simp: grows_def leads_def reads_def)

lemma grow_parts:
  "leads grows cut" "leads grows (labels env subject)" "leads grows (add_path env n p)" "leads grows (enqueue w)"
  unfolding cut_def labels_def add_path_def enqueue_def
  by (auto intro!: leads_modify grow.leads_steps split: option.split simp: grows_def)

lemma grow_claim: "leads grows (add_claim env opts address m at w l path c)"
  unfolding add_claim_def by (auto intro!: grow.leads_steps grow_parts split: option.split)

lemma work_ok_grows: "grows s t \<Longrightarrow> work_ok opts (sc_reader s) w \<Longrightarrow> work_ok opts (sc_reader t) w"
  by (auto simp: grows_def work_ok_def known_def)

abbreviation holding :: "exposure_env \<Rightarrow> exposure_options \<Rightarrow> string \<Rightarrow> nat \<Rightarrow> work \<Rightarrow> scan_st \<Rightarrow> bool" where
  "holding env opts address at w s \<equiv> scan_inv env opts address at s \<and> work_ok opts (sc_reader s) w"

lemma keeps_holding:
  assumes "keeps_inv env opts address at m" "leads grows m"
  shows "yields (holding env opts address at w) m (\<lambda>_. holding env opts address at w)"
  using assms work_ok_grows unfolding yields_def by (metis leadsD)

lemma claim_route_ok:
  assumes "work_ok opts r w" "good_reader db r" "i < length (work_legs w)"
  shows "route_ok (claim_route w (work_legs w ! i) (extend_route w i))"
    "length (claim_route w (work_legs w ! i) (extend_route w i)) \<le> xo_max_hops opts"
proof -
  note e = extend_route_ok[OF assms]
  show "length (claim_route w (work_legs w ! i) (extend_route w i)) \<le> xo_max_hops opts"
    using e by (cases "extend_route w i") (auto simp: claim_route_def route_ok_def)
  show "route_ok (claim_route w (work_legs w ! i) (extend_route w i))"
  proof (cases "wk_incoming w")
    case True
    let ?ins = "indices_where (\<lambda>v. lg_subject v = lg_subject (work_legs w ! i)) (c_inputs (wk_tx w))"
    have "i \<in> set ?ins" using assms(3) True by (simp add: indices_where_def work_legs_def)
    then have "?ins \<noteq> []" by auto
    moreover have "distinct ?ins" "\<forall>j \<in> set ?ins. j < length (c_inputs (wk_tx w))" by (auto simp: indices_where_def)
    ultimately show ?thesis
      using e(1) True by (cases "wk_path w")
        (auto simp: claim_route_def extend_route_def route_ok_def hop_ok_def follows_def)
  qed (use e in \<open>simp add: claim_route_def\<close>)
qed

lemma keeps_claim:
  assumes "i < length (work_legs w)"
  shows "yields (holding env opts address at w)
    (add_claim env opts address m at w (work_legs w ! i) (extend_route w i) c) (\<lambda>_. holding env opts address at w)"
proof -
  have "yields (\<lambda>s. holding env opts address at w s) (add_claim env opts address m at w (work_legs w ! i) (extend_route w i) c)
      (\<lambda>_. scan_inv env opts address at)"
  proof (rule yieldsI)
    fix s x t
    assume h: "holding env opts address at w s"
      and run: "add_claim env opts address m at w (work_legs w ! i) (extend_route w i) c s = (Inr x, t)"
    from run obtain a :: "json list \<times> json" and q where
      p: "make_path env address (wk_incoming w) (claim_route w (work_legs w ! i) (extend_route w i)) c (snd a) m at = Inr q"
      and k: "(case q of None \<Rightarrow> io_return () | Some p \<Rightarrow> add_path env (xo_max_paths opts) p) s = (Inr x, t)"
      unfolding add_claim_def io_get_ok io_need_ok io_attempt_ok by (elim exE conjE) (rule that)
    show "scan_inv env opts address at t"
    proof (cases q)
      case None
      with k h show ?thesis by (simp add: io_return_def)
    next
      case (Some v)
      have "good_reader (xe_db env) (sc_reader s)" "work_ok opts (sc_reader s) w"
        using h by (simp_all add: scan_inv_def)
      from claim_route_ok[OF this(2,1) assms] p Some have "path_ok env opts address at v"
        unfolding path_ok_def by blast
      from yieldsD[OF keeps_add_path[OF this]] k h Some show ?thesis by simp
    qed
  qed
  then show ?thesis using grow_claim work_ok_grows unfolding yields_def by (metis leadsD)
qed

text \<open>The next item of the walk continues the route over an actual spend.\<close>

lemma next_work_ok:
  assumes "scan_inv env opts address at s" "work_ok opts (sc_reader s) w" "i < length (work_legs w)"
    and run: "with_reader (if wk_incoming w then previous (xe_db env) (wk_tx w) (work_legs w ! i)
        else spender (xe_db env) (wk_tx w) i) s = (Inr (Some (tx, j)), t)"
    and len: "length (extend_route w i) < xo_max_hops opts" and cb: "hd_coinbase (c_head tx) \<noteq> 1"
  shows "work_ok opts (sc_reader t) \<lparr>wk_tx = tx, wk_indices = [j], wk_path = extend_route w i, wk_incoming = wk_incoming w\<rparr>"
proof -
  have g: "good_reader (xe_db env) (sc_reader s)" and lim: "rd_max_legs (sc_reader s) = 4000"
    using assms(1) by (simp_all add: scan_inv_def)
  note e = extend_route_ok[OF assms(2) g assms(3)]
  have k: "known (sc_reader s) (wk_tx w)" using assms(2) by (simp add: work_ok_def)
  have legs: "length (c_outputs x) \<le> 4000" if "known r x" "good_reader (xe_db env) r" "rd_max_legs r = 4000" for r x
  proof -
    have "length (c_inputs x) + length (c_outputs x) \<le>
        sum_list (map (\<lambda>(k, tx). length (c_inputs tx) + length (c_outputs tx)) (rd_cache r))"
      using that(1) by (intro member_le_sum_list) (force simp: known_def)+
    then show ?thesis using that by (simp add: good_reader_def reader_ok_def)
  qed
  have cast: "u32_cast n = n" if "n < 4000" for n using that by (simp add: u32_cast_def u32_lim_val)
  show ?thesis
  proof (cases "wk_incoming w")
    case True
    from run True obtain r where p: "previous (xe_db env) (wk_tx w) (work_legs w ! i) (sc_reader s) = (Inr (Some (tx, j)), r)"
      and t: "sc_reader t = r" by (auto simp: with_reader_def io_simps)
    from previous_link[OF p g] have l: "spends (work_legs w ! i) tx j" "before (position tx) (position (wk_tx w))" "known r tx"
      by blast+
    have "rd_max_legs r = 4000" using leadsD[OF reads_previous p] lim by (simp add: reads_def)
    then have "j < 4000" using legs[OF l(3) good_reads[OF reads_previous p g]] l(1) by (simp add: spends_def)
    with l e True len cb show ?thesis unfolding t
      by (simp add: work_ok_def route_ok_def extend_route_def follows_def spends_def work_legs_def cast)
  next
    case False
    from run False obtain r where p: "spender (xe_db env) (wk_tx w) i (sc_reader s) = (Inr (Some (tx, j)), r)"
      and t: "sc_reader t = r" by (auto simp: with_reader_def io_simps)
    from spender_link[OF p g k] have l: "j < length (c_inputs tx)" "spends (c_inputs tx ! j) (wk_tx w) i"
      "before (position (wk_tx w)) (position tx)" "known r tx" by blast+
    have "i < 4000" using legs[OF k g lim] assms(3) False by (simp add: work_legs_def)
    with l e False len cb show ?thesis unfolding t
      by (simp add: work_ok_def route_ok_def extend_route_def follows_def spends_def cast)
  qed
qed

lemma keeps_visit:
  assumes "i < length (work_legs w)"
  shows "yields (\<lambda>s. holding env opts address at w s \<and> sc_states s \<le> max_work)
    (visit env opts address sv at w i) (\<lambda>_. holding env opts address at w)"
  unfolding visit_def
proof (rule yields_then[OF yields_modify[where Q = "\<lambda>_. holding env opts address at w"]], goal_cases)
  case (2 u)
  let ?H = "holding env opts address at w"
  have cut: "yields ?H cut (\<lambda>_. ?H)" by (rule keeps_holding[OF keeps_cut grow_parts(1)])
  have lab: "yields ?H (labels env x) (\<lambda>_. ?H)" for x by (rule keeps_holding[OF keeps_labels grow_parts(2)])
  have bump: "yields ?H (if c then io_modify (\<lambda>s. s\<lparr>sc_boundaries := sc_boundaries s + 1\<rparr>) else io_return ()) (\<lambda>_. ?H)" for c
    by (intro yields_if yields_modify yields_return) (auto simp: scan_inv_def)
  have fut: "yields ?H (io_then (with_reader (if wk_incoming w then previous (xe_db env) (wk_tx w) (work_legs w ! i)
      else spender (xe_db env) (wk_tx w) i)) (\<lambda>found. case found of None \<Rightarrow> io_return False | Some (tx, j) \<Rightarrow>
         if hd_coinbase (c_head tx) = 1 then io_return False
         else io_then (enqueue \<lparr>wk_tx = tx, wk_indices = [j], wk_path = extend_route w i, wk_incoming = wk_incoming w\<rparr>)
           (\<lambda>_. io_return False))) (\<lambda>_. ?H)" if len: "\<not> xo_max_hops opts \<le> length (extend_route w i)"
  proof (rule yieldsI)
    fix s x t
    let ?m = "with_reader (if wk_incoming w then previous (xe_db env) (wk_tx w) (work_legs w ! i) else spender (xe_db env) (wk_tx w) i)"
    assume h: "?H s" and run: "io_then ?m (\<lambda>found. case found of None \<Rightarrow> io_return False | Some (tx, j) \<Rightarrow>
         if hd_coinbase (c_head tx) = 1 then io_return False
         else io_then (enqueue \<lparr>wk_tx = tx, wk_indices = [j], wk_path = extend_route w i, wk_incoming = wk_incoming w\<rparr>)
           (\<lambda>_. io_return False)) s = (Inr x, t)"
    from run obtain q v where m: "?m s = (Inr q, v)" and k: "(case q of None \<Rightarrow> io_return False | Some (tx, j) \<Rightarrow>
         if hd_coinbase (c_head tx) = 1 then io_return False
         else io_then (enqueue \<lparr>wk_tx = tx, wk_indices = [j], wk_path = extend_route w i, wk_incoming = wk_incoming w\<rparr>)
           (\<lambda>_. io_return False)) v = (Inr x, t)" unfolding io_then_ok by (elim exE conjE) (rule that)
    have rd: "leads (reads (xe_db env)) (if wk_incoming w then previous (xe_db env) (wk_tx w) (work_legs w ! i)
        else spender (xe_db env) (wk_tx w) i)" by (auto intro: reads_previous reads_spender)
    from m obtain r where mr: "(if wk_incoming w then previous (xe_db env) (wk_tx w) (work_legs w ! i)
        else spender (xe_db env) (wk_tx w) i) (sc_reader s) = (Inr q, r)"
      and v: "v = s\<lparr>sc_reader := r, sc_truncated := sc_truncated s \<or> rd_truncated r\<rparr>"
      unfolding with_reader_def io_zoom_ok by blast
    have "scan_inv env opts address at v" using scan_reader_ok[OF _ rd mr] h v by simp
    moreover have "work_ok opts (sc_reader v) w"
      using work_ok_grows[OF leadsD[OF grow_reader[OF rd] m]] h by blast
    ultimately have hv: "?H v" by blast
    show "?H t"
    proof (cases q)
      case None
      with k hv show ?thesis by (simp add: io_return_def)
    next
      case (Some tj)
      obtain tx j where tj: "tj = (tx, j)" by (cases tj)
      show ?thesis
      proof (cases "hd_coinbase (c_head tx) = 1")
        case True
        with k hv show ?thesis by (simp add: Some tj io_return_def)
      next
        case False
        let ?w = "\<lparr>wk_tx = tx, wk_indices = [j], wk_path = extend_route w i, wk_incoming = wk_incoming w\<rparr>"
        have len': "length (extend_route w i) < xo_max_hops opts" using len by simp
        have "scan_inv env opts address at s" "work_ok opts (sc_reader s) w" using h by blast+
        from next_work_ok[OF this assms m[unfolded Some tj] len' False] have wo: "work_ok opts (sc_reader v) ?w" .
        from k False have e: "enqueue ?w v = (Inr (), t)" by (auto simp: Some tj io_then_ok io_return_def)
        have "scan_inv env opts address at t" using yieldsD[OF enqueue_ok e] hv wo by blast
        moreover have "work_ok opts (sc_reader t) w" using work_ok_grows[OF leadsD[OF grow_parts(4) e]] hv by blast
        ultimately show ?thesis by blast
      qed
    qed
  qed
  show ?case
    unfolding Let_def
    by (intro yields_get yields_if yields_then[OF yields_pre[OF cut]] yields_then[OF yields_pre[OF lab]]
        yields_then[OF yields_for] yields_then[OF bump] yields_return yields_pre[OF fut] keeps_claim assms) auto
qed (auto simp: scan_inv_def)

lemma keeps_visit_all:
  assumes "\<forall>i \<in> set js. i < length (work_legs w)"
    and "visit_all env opts address sv at w js s = (Inr stop, t)"
    and "holding env opts address at w s" "sc_states s \<le> max_work"
  shows "scan_inv env opts address at t \<and> (\<not> stop \<longrightarrow> sc_states t \<le> max_work)"
  using assms
proof (induction js arbitrary: s)
  case (Cons i js)
  from Cons.prems(2) obtain b u where v: "visit env opts address sv at w i s = (Inr b, u)"
    and r: "(if b then io_return True else visit_all env opts address sv at w js) u = (Inr stop, t)"
    by (auto simp: io_then_ok)
  have h: "holding env opts address at w u"
    using yieldsD[OF keeps_visit v] Cons.prems by simp
  show ?case
  proof (cases b)
    case True
    with r h show ?thesis by (auto simp: io_return_def)
  next
    case False
    then have "sc_states u \<le> max_work" using visit_counts[OF v] by simp
    from Cons.IH[OF _ _ h this] r False Cons.prems(1) show ?thesis by simp
  qed
qed (auto simp: io_return_def)

lemma keeps_walk:
  assumes "walk env opts address sv at s = (Inr (), t)" "scan_inv env opts address at s" "sc_states s \<le> max_work"
  shows "scan_inv env opts address at t"
  using assms
proof (induction env opts address sv at s rule: walk.induct)
  case (1 env opts address sv at s)
  show ?case
  proof (cases "sc_queue s")
    case Nil
    with 1(2,3) show ?thesis by (simp add: walk.simps)
  next
    case (Cons w rest)
    let ?s = "s\<lparr>sc_queue := rest\<rparr>"
    have h: "holding env opts address at w ?s" using 1(3) Cons by (auto simp: scan_inv_def)
    from 1(2) Cons obtain stop u where v: "visit_all env opts address sv at w [0..<length (work_legs w)] ?s = (Inr stop, u)"
      and r: "(if stop then (Inr (), u) else walk env opts address sv at u) = (Inr (), t)"
      by (auto simp: walk.simps[of env opts address sv at s] split: prod.splits sum.splits)
    have "\<forall>i \<in> set [0..<length (work_legs w)]. i < length (work_legs w)" by simp
    from keeps_visit_all[OF this v h] 1(4) have i: "scan_inv env opts address at u" "\<not> stop \<longrightarrow> sc_states u \<le> max_work"
      by simp_all
    show ?thesis
    proof (cases stop)
      case True
      with r i show ?thesis by simp
    next
      case False
      from 1(1)[OF Cons v[symmetric] refl False] r False i show ?thesis by simp
    qed
  qed
qed

lemma keeps_root_work:
  assumes "1 \<le> xo_max_hops opts" "hd_coinbase (c_head tx) \<noteq> 1"
  shows "yields (\<lambda>s. scan_inv env opts address at s \<and> known (sc_reader s) tx) (root_work address tx)
    (\<lambda>_ s. scan_inv env opts address at s \<and> known (sc_reader s) tx)"
proof -
  have e: "yields (\<lambda>s. scan_inv env opts address at s \<and> known (sc_reader s) tx) (enqueue w)
      (\<lambda>_ s. scan_inv env opts address at s \<and> known (sc_reader s) tx)"
    if "\<And>r. known r tx \<Longrightarrow> work_ok opts r w" for w
  proof (rule yieldsI)
    fix s x t
    assume h: "scan_inv env opts address at s \<and> known (sc_reader s) tx" and run: "enqueue w s = (Inr x, t)"
    from yieldsD[OF enqueue_ok run] that h have "scan_inv env opts address at t" by blast
    moreover have "known (sc_reader t) tx"
      using leadsD[OF grow_parts(4) run] h by (auto simp: grows_def known_def)
    ultimately show "scan_inv env opts address at t \<and> known (sc_reader t) tx" by blast
  qed
  show ?thesis
    unfolding root_work_def Let_def
    by (intro yields_then[OF yields_for] yields_if yields_return e)
      (use assms in \<open>auto simp: work_ok_def indices_where_def\<close>)
qed

lemma keeps_root:
  assumes "1 \<le> xo_max_hops opts"
  shows "keeps_inv env opts address at (read_root env address row)"
  unfolding read_root_def
proof (intro yields_attempt yields_then[where R = "\<lambda>q s. scan_inv env opts address at s \<and>
    (case q of None \<Rightarrow> True | Some tx \<Rightarrow> known (sc_reader s) tx)"], goal_cases)
  case (1 block hash)
  show ?case
  proof (rule yieldsI)
    fix s q t
    assume h: "scan_inv env opts address at s" and run: "with_reader (load (xe_db env) block hash) s = (Inr q, t)"
    from run obtain r where l: "load (xe_db env) block hash (sc_reader s) = (Inr q, r)"
      and t: "t = s\<lparr>sc_reader := r, sc_truncated := sc_truncated s \<or> rd_truncated r\<rparr>"
      unfolding with_reader_def io_zoom_ok by blast
    have "scan_inv env opts address at t" using scan_reader_ok[OF h reads_load l] t by simp
    moreover have "\<And>tx. q = Some tx \<Longrightarrow> known r tx"
      using load_found[of "xe_db env" block hash "sc_reader s" _ r] l h by (simp add: scan_inv_def)
    ultimately show "scan_inv env opts address at t \<and> (case q of None \<Rightarrow> True | Some tx \<Rightarrow> known (sc_reader t) tx)"
      using t by (simp split: option.split)
  qed
next
  case (2 block hash q)
  show ?case
    by (intro yields_option yields_if yields_return yields_post[OF yields_pre[OF keeps_root_work[OF assms]]])
      (auto split: option.splits)
qed

lemma scan_steps_inv:
  assumes "honest_db (xe_db env)" "validate_options opts = Inr ()"
    and "scan_steps env address opts at (scan_start opts) = (Inr (), t)"
  shows "scan_inv env opts address at t"
proof -
  have b: "1 \<le> xo_max_hops opts" "1 \<le> xo_max_paths opts" using assms(2) by (auto simp: validate_options_def ok_simps)
  let ?I = "\<lambda>s. scan_inv env opts address at s \<and> sc_states s = 0"
  have z: "yields ?I m (\<lambda>_. ?I)" if "keeps_inv env opts address at m" "leads same_count m" for m :: "(scan_st, 'a) io"
    using that unfolding yields_def by (metis leadsD same_count_def)
  have root: "leads same_count (read_root env address row)" for row
    unfolding read_root_def root_work_def
    by (auto intro!: count.leads_steps count.leads_for counts simp: Let_def split: option.split)
  have c: "yields ?I (if p then cut else io_return ()) (\<lambda>_. ?I)" for p
    by (intro yields_if z[OF keeps_cut counts(1)] yields_return) auto
  have w: "yields ?I (walk env opts address sv at) (\<lambda>_. scan_inv env opts address at)" for sv
    by (rule yieldsI) (use keeps_walk in auto)
  have "yields ?I (scan_steps env address opts at) (\<lambda>_. scan_inv env opts address at)"
    unfolding scan_steps_def Let_def
    by (intro yields_then[OF z[OF keeps_labels counts(4)]] yields_then[OF c]
        yields_then[OF yields_for[OF z[OF keeps_root[OF b(1)] root]]] w)
  moreover have "?I (scan_start opts)"
    using good_reader_new[OF assms(1)] b
    by (simp add: scan_inv_def scan_start_def reader_new_def max_work_def max_path_bytes_def)
  ultimately show ?thesis using assms(3) yieldsD by fastforce
qed

text \<open>C29: a completed walk stays within its limits, and each path it reports is the document of a
  route of at most \<open>max_hops\<close> actual spends over balanced transactions.\<close>

theorem scan_reports_actual_routes:
  assumes "honest_db (xe_db env)" "validate_options opts = Inr ()" "scan env address opts at = Inr res"
  shows "sr_states res \<le> Suc max_work \<and> sr_transactions res \<le> xo_max_transactions opts \<and>
    length (sr_paths res) \<le> xo_max_paths opts \<and> sum_list (map (xe_size env) (sr_paths res)) \<le> max_path_bytes \<and>
    length (sr_dependencies res) \<le> max_labels \<and>
    (\<forall>p \<in> set (sr_paths res). \<exists>hs incoming claim snapshot mediated. route_ok hs \<and> length hs \<le> xo_max_hops opts \<and>
       make_path env address incoming hs claim snapshot mediated at = Inr (Some p))"
proof -
  from assms(3) obtain t where run: "scan_steps env address opts at (scan_start opts) = (Inr (), t)"
    and res: "sr_paths res = map snd (sort_key fst (sc_paths t))"
      "sr_dependencies res = sort_key fst (map (\<lambda>(a, v). (a, snd v)) (sc_labels t))"
      "sr_states res = sc_states t" "sr_transactions res = length (rd_cache (sc_reader t))"
    by (auto simp: scan_def split: prod.splits sum.splits)
  from scan_steps_inv[OF assms(1,2) run] have i: "scan_inv env opts address at t" .
  have "mset (map (xe_size env) (sr_paths res)) = mset (map (\<lambda>x. xe_size env (snd x)) (sc_paths t))"
    by (simp add: res(1) comp_def split_beta multiset.map_comp)
  then have "sum_list (map (xe_size env) (sr_paths res)) = sum_list (map (\<lambda>x. xe_size env (snd x)) (sc_paths t))"
    by (metis sum_mset_sum_list)
  moreover have "\<forall>p \<in> set (sr_paths res). path_ok env opts address at p"
    using i by (auto simp: res scan_inv_def)
  ultimately show ?thesis
    using i by (auto simp: res scan_inv_def good_reader_def reader_ok_def path_ok_def)
qed

section \<open>A sample walk\<close>

definition sample_claim :: json where
  "sample_claim = JObj [(''address'', JStr ''2''), (''claim_id'', JStr ''c''), (''entity_type'', JStr ''Ransomware''),
     (''is_exposure_seed'', JBool True), (''risk_level'', JNum ''50''), (''valid_from_unix_ms'', JNum ''0''),
     (''valid_to_unix_ms'', JNull), (''evidence_refs'', JArr [])]"

definition sample_read :: "string \<Rightarrow> (json list \<times> json) res" where
  "sample_read a = Inr (if a = ''2'' then [sample_claim] else [], JNull)"

definition sample_roots :: "string \<Rightarrow> nat \<Rightarrow> json list" where
  "sample_roots a n = [occurrence_row (sample_tx 4 (CHR ''4'') (Some (CHR ''3'')) 600 [500, 100]) []]"

definition sample_env :: exposure_env where
  "sample_env = \<lparr>xe_db = sample_db, xe_read = sample_read, xe_roots = sample_roots, xe_hash = (\<lambda>_. ''h''),
     xe_size = (\<lambda>_. 1), xe_share = (\<lambda>_ _. ''0.5''), xe_weight = (\<lambda>_. ''1''), xe_strength = (\<lambda>_ _ _ _ _. ''0.1'')\<rparr>"

definition sample_route :: "hop list" where
  "sample_route = [\<lparr>hp_tx = spend_tx, hp_ins = [0], hp_out = 0\<rparr>,
     \<lparr>hp_tx = sample_tx 3 (CHR ''3'') (Some (CHR ''2'')) 800 [600, 100], hp_ins = [0], hp_out = 0\<rparr>]"

lemma sample_route_ok: "route_ok sample_route"
  by code_simp

theorem route_bounds_exact_witness:
  "\<exists>steps lo hi. route_bounds sample_route = Inr (steps, lo, hi) \<and> length steps = 2 \<and> lo \<le> hi \<and> hi \<le> 600"
  using route_bounds_exact[OF sample_route_ok] by (auto simp: sample_route_def sample_tx_def Let_def)

lemma sample_scan_runs:
  "case scan sample_env ''4'' default_options 9 of Inl _ \<Rightarrow> False | Inr res \<Rightarrow> length (sr_paths res) = 1"
  by code_simp

theorem scan_reports_actual_routes_witness:
  "\<exists>res hs. scan sample_env ''4'' default_options 9 = Inr res \<and> sr_paths res \<noteq> [] \<and> route_ok hs \<and> length hs \<le> 3"
proof -
  obtain res where r: "scan sample_env ''4'' default_options 9 = Inr res" and l: "length (sr_paths res) = 1"
    using sample_scan_runs by (auto split: sum.splits)
  have h: "honest_db (xe_db sample_env)" by (simp add: sample_env_def sample_db_def honest_ledger)
  have v: "validate_options default_options = Inr ()" by code_simp
  from scan_reports_actual_routes[OF h v r] l obtain hs where "route_ok hs" "length hs \<le> 3"
    by (cases "sr_paths res") (auto simp: default_options_def)
  with r l show ?thesis by (metis length_0_conv zero_neq_one)
qed

end
