(* ===== verification/Clusters.thy ===== *)
theory Clusters
  imports Patterns
begin

text \<open>
  Clustering leads (\<open>dockerizd_bitcoin/src/clustering\<close>): the detectors of \<open>detect.rs\<close>, and
  from \<open>store.rs\<close> the identifiers, the validation of a review, the frame that binds a
  published doc to its evidence, and the application of a review to a lead. The digest of
  a document is the parameter \<open>dg\<close>.
\<close>

section \<open>Configuration\<close>

definition cluster_version :: string where "cluster_version = ''bitcoin_cluster_leads_v1''"

definition max_members :: nat where "max_members = 16"

definition cluster_max_roots :: nat where "cluster_max_roots = 25"

definition cluster_definition :: json where
  "cluster_definition = JObj [(''detector_version'', JStr cluster_version),
     (''common_input'', JObj [(''minimum_distinct_addresses'', jnat 2), (''maximum_distinct_addresses'', jnat max_members),
        (''confidence'', JNum ''0.5''), (''transitive_union'', JBool False)]),
     (''change'', JObj [(''single_input'', JBool True), (''positive_outputs'', jnat 2),
        (''unique_matching_address_encoding_family'', JBool True), (''both_outputs_different_from_input'', JBool True),
        (''confidence'', JNum ''0.3'')]),
     (''collaboration_guard'', JObj [(''minimum_distinct_input_addresses'', jnat 2),
        (''equal_positive_outputs_to_distinct_addresses'', jnat 2), (''action'', JStr ''suppress_leads'')]),
     (''limits'', JObj [(''roots'', jnat cluster_max_roots), (''legs_per_transaction'', jnat 256),
        (''total_legs'', jnat 4096), (''evidence_bytes'', jnat (512 * 1024))]),
     (''ownership_claimed'', JBool False), (''score_eligible'', JBool False), (''automatic_approval'', JBool False),
     (''limitations'', jstrs
       [''These project heuristics are investigative leads, not ownership or crime probabilities.'',
        ''The collaboration guard does not identify every CoinJoin or PayJoin; every lead remains uncertain.'',
        ''A change candidate is a narrow address-encoding-family heuristic, not a proven change output.'',
        ''Review accepts or rejects a lead only; it cannot create an entity, seed, transfer allocation or risk signal.'',
        ''There is no transitive address merging and no whole-chain clustering claim.''])]"

definition cluster_config :: "(json \<Rightarrow> string) \<Rightarrow> json" where
  "cluster_config dg = JObj [(''contract'', JStr ''bitcoin_clustering_config_v1''),
     (''network_id'', JStr (network_id Bitcoin)), (''detector_version'', JStr cluster_version),
     (''definition_hash'', JStr (dg cluster_definition)), (''definition'', cluster_definition)]"

section \<open>Detectors\<close>

definition family :: "string \<Rightarrow> string" where
  "family a =
     (if starts_with a ''1'' then ''p2pkh''
      else if starts_with a ''3'' then ''p2sh''
      else if starts_with a ''bc1p'' then ''taproot''
      else if starts_with a ''bc1q'' \<and> length a = 42 then ''p2wpkh''
      else if starts_with a ''bc1q'' \<and> length a = 62 then ''p2wsh''
      else ''other'')"

definition leg_witness :: "leg \<Rightarrow> json" where
  "leg_witness l = JObj [(''index'', jnat (lg_index l)), (''subject_id'', JStr (lg_subject l)),
     (''value_sats'', jtext (lg_value l)), (''relationship_id'', JStr (native_relationship_id l)),
     (''prev_tx_hash'', jopt JStr (lg_prev_tx l)), (''prev_output_index'', jopt jnat (lg_prev_index l))]"

definition lead_refs :: "tx_ctx \<Rightarrow> string list" where
  "lead_refs tx = string_set ([''tx:'' @ hd_tx (c_head tx), ''block:'' @ hd_block (c_head tx)] @
     concat (map leg_refs (c_inputs tx @ c_outputs tx)))"

definition lead_evidence :: "tx_ctx \<Rightarrow> json \<Rightarrow> json" where
  "lead_evidence tx detail = JObj [(''block_number'', jnat (hd_number (c_head tx))),
     (''block_hash'', JStr (hd_block (c_head tx))), (''tx_hash'', JStr (hd_tx (c_head tx))),
     (''transaction_index'', jnat (hd_index (c_head tx))), (''block_timestamp_unix_ms'', jnat (hd_time (c_head tx))),
     (''commit_id'', JStr (hd_commit (c_head tx))), (''revision'', jtext (hd_revision (c_head tx))),
     (''inputs'', JArr (map leg_witness (c_inputs tx))), (''outputs'', JArr (map leg_witness (c_outputs tx))),
     (''fee_sats'', jtext (c_fee tx)), (''match'', detail)]"

definition lead :: "(json \<Rightarrow> string) \<Rightarrow> tx_ctx \<Rightarrow> string \<Rightarrow> string list \<Rightarrow> string \<Rightarrow> json \<Rightarrow> json" where
  "lead dg tx heuristic members confidence detail =
     JObj [(''cluster_id'', JStr (''btc-cluster-'' @
        dg (JArr [JStr cluster_version, JStr heuristic, JStr (tx_key tx), jstrs members]))),
       (''cluster_type'', JStr ''investigation_lead''), (''heuristic'', JStr heuristic), (''members'', jstrs members),
       (''confidence'', JNum confidence),
       (''confidence_semantics'', JStr ''heuristic_match_strength_not_ownership_or_crime_probability''),
       (''detector_version'', JStr cluster_version), (''definition_hash'', field (cluster_config dg) ''definition_hash''),
       (''evidence_refs'', jstrs (lead_refs tx)), (''evidence'', lead_evidence tx detail),
       (''evidence_hash'', JStr (dg (lead_evidence tx detail))), (''review_status'', JStr ''pending''), (''review'', JNull),
       (''ownership_claimed'', JBool False), (''same_entity'', JNull), (''score_eligible'', JBool False),
       (''is_exposure_seed'', JBool False), (''transitive_union'', JBool False)]"

definition collaborative :: "tx_ctx \<Rightarrow> bool" where
  "collaborative tx \<longleftrightarrow> 2 \<le> length (subjects_of (c_inputs tx)) \<and>
     (\<exists>g \<in> set (equal_groups (positive tx)). 2 \<le> length (snd g))"

definition obscured :: "tx_ctx \<Rightarrow> bool" where
  "obscured tx \<longleftrightarrow> (\<exists>l \<in> set (c_inputs tx). lg_value l = 0 \<or> \<not> not_script l) \<or>
     (\<exists>q \<in> set (c_outputs tx). 0 < lg_value q \<and> \<not> not_script q)"

definition change_leads :: "(json \<Rightarrow> string) \<Rightarrow> tx_ctx \<Rightarrow> json list" where
  "change_leads dg tx =
     (if length (c_inputs tx) = 1 \<and> length (positive tx) = 2 \<and>
         lg_subject (positive tx ! 0) \<noteq> lg_subject (positive tx ! 1) \<and>
         (\<forall>q \<in> set (positive tx). lg_subject q \<noteq> lg_subject (c_inputs tx ! 0))
      then (let spent = lg_subject (c_inputs tx ! 0);
                matches = filter (\<lambda>q. family (lg_subject q) = family spent) (positive tx)
            in if family spent \<noteq> ''other'' \<and> length matches = 1
               then [lead dg tx ''change_candidate'' (string_set [spent, lg_subject (matches ! 0)]) ''0.3''
                 (JObj [(''candidate_output_index'', jnat (lg_index (matches ! 0))),
                   (''matching_address_family'', JStr (family spent)), (''change_identified'', JBool False)])]
               else [])
      else [])"

definition detect_leads :: "(json \<Rightarrow> string) \<Rightarrow> tx_ctx \<Rightarrow> json list \<times> string option" where
  "detect_leads dg tx =
     (if hd_coinbase (c_head tx) = 1 then ([], None)
      else if obscured tx then ([], Some ''script_or_zero_input_context'')
      else if collaborative tx then ([], Some ''possible_collaborative_transaction'')
      else if max_members < length (subjects_of (c_inputs tx)) then ([], Some ''member_limit'')
      else if 2 \<le> length (subjects_of (c_inputs tx))
           then ([lead dg tx ''common_input_candidate'' (subjects_of (c_inputs tx)) ''0.5''
             (JObj [(''distinct_input_addresses'', JBool True), (''control_not_proven'', JBool True)])], None)
      else (change_leads dg tx, None))"

section \<open>What a lead says\<close>

definition lead_members :: "json \<Rightarrow> string set" where
  "lead_members l = {s. \<exists>xs. field l ''members'' = jstrs xs \<and> s \<in> set xs}"

lemma lead_fields [simp]:
  "field (lead dg tx h ms c d) ''members'' = jstrs ms"
  "field (lead dg tx h ms c d) ''heuristic'' = JStr h"
  "field (lead dg tx h ms c d) ''evidence_hash'' = JStr (dg (lead_evidence tx d))"
  by (simp_all add: lead_def)

lemma jstrs_eq [simp]: "jstrs xs = jstrs ys \<longleftrightarrow> xs = ys"
  by (auto simp: jstrs_def inj_map_eq_map inj_def)

lemma lead_members_lead [simp]: "lead_members (lead dg tx h ms c d) = set ms"
  by (auto simp: lead_members_def)

text \<open>The distinct subjects paid exactly \<open>v\<close>, scripts included.\<close>

definition paid_any :: "tx_ctx \<Rightarrow> nat \<Rightarrow> string set" where
  "paid_any tx v = lg_subject ` {q \<in> set (c_outputs tx). lg_value q = v \<and> 0 < v}"

lemma collaborative_iff:
  "collaborative tx \<longleftrightarrow> 2 \<le> card (lg_subject ` set (c_inputs tx)) \<and> (\<exists>v. 2 \<le> card (paid_any tx v))"
proof -
  let ?g = "\<lambda>v. subjects_of (filter (\<lambda>q. lg_value q = v) (positive tx))"
  have s: "length (?g v) = card (paid_any tx v)" for v
  proof -
    have "set (map lg_subject (filter (\<lambda>q. lg_value q = v) (positive tx))) = paid_any tx v"
      by (auto simp: paid_any_def positive_def)
    then show ?thesis by (simp only: subjects_of_def length_string_set)
  qed
  have "set (equal_groups (positive tx)) = {(v, ?g v) | v. v \<in> lg_value ` set (positive tx)}"
    by (auto simp: equal_groups_def)
  then have "(\<exists>g \<in> set (equal_groups (positive tx)). 2 \<le> length (snd g)) \<longleftrightarrow>
      (\<exists>v \<in> lg_value ` set (positive tx). 2 \<le> card (paid_any tx v))"
    using s by auto
  also have "\<dots> \<longleftrightarrow> (\<exists>v. 2 \<le> card (paid_any tx v))"
  proof
    assume "\<exists>v. 2 \<le> card (paid_any tx v)"
    then obtain v where v: "2 \<le> card (paid_any tx v)" by blast
    then have "paid_any tx v \<noteq> {}" by auto
    then have "v \<in> lg_value ` set (positive tx)" by (auto simp: paid_any_def positive_def)
    with v show "\<exists>v \<in> lg_value ` set (positive tx). 2 \<le> card (paid_any tx v)" by blast
  qed blast
  finally show ?thesis
    by (simp add: collaborative_def subjects_of_def length_string_set)
qed

text \<open>C35: at most one lead comes from a transaction, and none from one that could be collaborative: with
  two distinct input subjects no amount is paid to two subjects. A common-input lead names exactly the
  input subjects, two to sixteen of them; a change lead the spent address and one output of its family.\<close>

theorem leads_respect_guards:
  "case detect_leads dg tx of (ls, reason) \<Rightarrow> ls = [] \<or> (\<exists>l. ls = [l] \<and> reason = None \<and> hd_coinbase (c_head tx) \<noteq> 1 \<and>
     (\<forall>i \<in> set (c_inputs tx). 0 < lg_value i \<and> not_script i) \<and>
     ((field l ''heuristic'' = JStr ''common_input_candidate'' \<and> lead_members l = lg_subject ` set (c_inputs tx) \<and>
       card (lead_members l) \<in> {2..max_members} \<and> (\<forall>v. card (paid_any tx v) < 2)) \<or>
      (field l ''heuristic'' = JStr ''change_candidate'' \<and> (\<exists>i q. c_inputs tx = [i] \<and> q \<in> set (c_outputs tx) \<and>
         lead_members l = {lg_subject i, lg_subject q} \<and> lg_subject q \<noteq> lg_subject i \<and> 0 < lg_value q \<and>
         family (lg_subject q) = family (lg_subject i)))))"
proof (cases "detect_leads dg tx")
  case (Pair ls reason)
  show ?thesis
  proof (cases "ls = []")
    case False
    have g: "hd_coinbase (c_head tx) \<noteq> 1" "\<not> obscured tx" "\<not> collaborative tx" "reason = None"
      "\<not> max_members < length (subjects_of (c_inputs tx))"
      using Pair False by (auto simp: detect_leads_def split: if_split_asm)
    then have i: "\<forall>i \<in> set (c_inputs tx). 0 < lg_value i \<and> not_script i" by (auto simp: obscured_def)
    have n: "length (subjects_of (c_inputs tx)) = card (lg_subject ` set (c_inputs tx))"
      by (simp add: subjects_of_def length_string_set)
    show ?thesis
    proof (cases "2 \<le> length (subjects_of (c_inputs tx))")
      case True
      then have l: "ls = [lead dg tx ''common_input_candidate'' (subjects_of (c_inputs tx)) ''0.5''
             (JObj [(''distinct_input_addresses'', JBool True), (''control_not_proven'', JBool True)])]"
        using Pair g by (simp add: detect_leads_def)
      have "\<forall>v. card (paid_any tx v) < 2" using g(3) True n by (simp add: collaborative_iff not_le)
      then show ?thesis using Pair l g i True n by (simp add: subjects_of_def)
    next
      case False
      then have l: "ls = change_leads dg tx" using Pair g by (simp add: detect_leads_def)
      let ?s = "lg_subject (c_inputs tx ! 0)"
      let ?m = "filter (\<lambda>q. family (lg_subject q) = family ?s) (positive tx)"
      from l \<open>ls \<noteq> []\<close> obtain d where c: "length (c_inputs tx) = 1" "\<forall>q \<in> set (positive tx). lg_subject q \<noteq> ?s"
        and m: "length ?m = 1" and ls: "ls = [lead dg tx ''change_candidate'' (string_set [?s, lg_subject (?m ! 0)]) ''0.3'' d]"
        by (auto simp: change_leads_def Let_def split: if_split_asm)
      from m have q: "?m ! 0 \<in> set ?m" by (metis nth_mem zero_less_one)
      then have "?m ! 0 \<in> set (positive tx)" "family (lg_subject (?m ! 0)) = family ?s" by simp_all
      then have q: "?m ! 0 \<in> set (c_outputs tx)" "0 < lg_value (?m ! 0)" "lg_subject (?m ! 0) \<noteq> ?s"
        "family (lg_subject (?m ! 0)) = family ?s" using c(2) by (simp_all add: positive_def)
      from c(1) have i1: "c_inputs tx = [c_inputs tx ! 0]" by (cases "c_inputs tx") auto
      have "\<exists>i q. c_inputs tx = [i] \<and> q \<in> set (c_outputs tx) \<and>
         lead_members (hd ls) = {lg_subject i, lg_subject q} \<and> lg_subject q \<noteq> lg_subject i \<and> 0 < lg_value q \<and>
         family (lg_subject q) = family (lg_subject i)"
        using q i1 by (intro exI[of _ "c_inputs tx ! 0"] exI[of _ "?m ! 0"]) (simp add: ls)
      then show ?thesis using Pair g i by (simp add: ls)
    qed
  qed (simp add: Pair)
qed

definition pair_leg :: "nat \<Rightarrow> string \<Rightarrow> leg" where
  "pair_leg i a = \<lparr>lg_index = i, lg_subject = a, lg_value = 30, lg_rel = ''r'', lg_prev_tx = Some ''p'', lg_prev_index = Some i\<rparr>"

definition pair_tx :: tx_ctx where
  "pair_tx = spend_tx\<lparr>c_inputs := [pair_leg 0 ''1a'', pair_leg 1 ''1b''], c_outputs := [pair_leg 0 ''1c'']\<rparr>"

theorem leads_respect_guards_witness:
  "\<exists>l. detect_leads (\<lambda>_. ''h'') pair_tx = ([l], None) \<and> card (lead_members l) \<in> {2..16}"
proof -
  have "case detect_leads (\<lambda>_. ''h'') pair_tx of ([l], None) \<Rightarrow> field l ''heuristic'' = JStr ''common_input_candidate'' | _ \<Rightarrow> False"
    by code_simp
  then obtain l where l: "detect_leads (\<lambda>_. ''h'') pair_tx = ([l], None)"
    "field l ''heuristic'' = JStr ''common_input_candidate''"
    by (auto split: prod.splits list.splits option.splits)
  with leads_respect_guards[where dg = "\<lambda>_. ''h''" and tx = pair_tx] show ?thesis by (auto simp: max_members_def)
qed

section \<open>Reviews\<close>

definition is_blank :: "char \<Rightarrow> bool" where
  "is_blank c \<longleftrightarrow> (let n = of_char c :: nat in n = 32 \<or> 9 \<le> n \<and> n \<le> 13)"

definition is_control :: "char \<Rightarrow> bool" where
  "is_control c \<longleftrightarrow> (let n = of_char c :: nat in n < 32 \<or> n = 127)"

text \<open>\<open>text\<close> on ASCII strings.\<close>

definition review_text :: "string \<Rightarrow> nat \<Rightarrow> unit res" where
  "review_text v n =
     ensure (\<not> list_all is_blank v \<and> length v \<le> n \<and> \<not> list_ex is_control v)
       ''invalid empty, oversized or control-containing review field'' (Inr ())"

definition hex_id :: "string \<Rightarrow> string \<Rightarrow> bool" where
  "hex_id prefix v \<longleftrightarrow> (case strip_prefix prefix v of None \<Rightarrow> False | Some h \<Rightarrow> length h = 64 \<and> list_all is_hexdigit h)"

definition validate_cluster_id :: "string \<Rightarrow> unit res" where
  "validate_cluster_id v =
     ensure (hex_id ''btc-cluster-'' v \<or> hex_id ''btc-clrun-'' v) ''invalid clustering identifier'' (Inr ())"

record review =
  rv_network :: string
  rv_run :: string
  rv_cluster :: string
  rv_expected :: string
  rv_decision :: string
  rv_by :: string
  rv_reason :: string
  rv_refs :: "string list"

definition validate_review :: "review \<Rightarrow> unit res" where
  "validate_review r =
     ensure (rv_network r = network_id Bitcoin) ''review network mismatch''
     (attempt (forE validate_cluster_id [rv_run r, rv_cluster r, rv_expected r]) (\<lambda>_.
      ensure (starts_with (rv_run r) ''btc-clrun-'' \<and> rv_expected r = rv_run r \<and> starts_with (rv_cluster r) ''btc-cluster-'')
        ''review must name the exact candidate version''
      (ensure (rv_decision r \<in> {''approved'', ''rejected'', ''revoked''}) ''decision must be approved, rejected or revoked''
      (attempt (review_text (rv_by r) 128) (\<lambda>_. attempt (review_text (rv_reason r) 2000) (\<lambda>_.
       ensure (rv_refs r \<noteq> [] \<and> length (rv_refs r) \<le> 20) ''review requires 1..20 evidence references''
       (forE (\<lambda>v. review_text v 512) (rv_refs r))))))))"

section \<open>The frame of a doc\<close>

fun remove_keys :: "string list \<Rightarrow> json \<Rightarrow> json" where
  "remove_keys ks (JObj kvs) = JObj (filter (\<lambda>kv. fst kv \<notin> set ks) kvs)"
| "remove_keys ks v = v"

fun set_key :: "string \<Rightarrow> json \<Rightarrow> json \<Rightarrow> json" where
  "set_key k v (JObj kvs) =
     (if k \<in> fst ` set kvs then JObj (map (\<lambda>kv. if fst kv = k then (k, v) else kv) kvs) else JObj (kvs @ [(k, v)]))"
| "set_key k v w = w"

definition frame_fields :: "(json \<Rightarrow> string) \<Rightarrow> json \<Rightarrow> json" where
  "frame_fields dg b =
     (let persisted = (field (field b ''cluster_coverage'') ''persisted'' = JBool True) in
      JObj [(''contract'', JStr ''bitcoin_clustering_v1''), (''network_id'', JStr (network_id Bitcoin)),
        (''address'', field b ''address''), (''run_id'', field b ''run_id''),
        (''source_snapshot_id'', field (field b ''source_snapshot'') ''snapshot_id''),
        (''detector_version'', JStr cluster_version), (''definition_hash'', field (cluster_config dg) ''definition_hash''),
        (''clusters_hash'', JStr (dg (field b ''clusters''))), (''coverage_hash'', JStr (dg (field b ''cluster_coverage''))),
        (''body_hash'', JStr (dg b)), (''audit_only'', JBool (\<not> persisted)),
        (''source_current'', JBool True), (''current'', JBool persisted)])"

text \<open>Signs the doc without any earlier frame; a doc that is no object panics.\<close>

definition frame :: "(json \<Rightarrow> string) \<Rightarrow> json \<Rightarrow> json res" where
  "frame dg doc =
     ensure (is_object doc) ''called Option::unwrap() on a None value''
     (let b = remove_keys [''cluster_snapshot''] doc;
          f = frame_fields dg b;
          signed = set_key ''snapshot_id'' (JStr (dg (remove_keys [''current'', ''source_current''] f))) f
      in Inr (set_key ''cluster_snapshot'' signed b))"

definition verify_frame :: "(json \<Rightarrow> string) \<Rightarrow> json \<Rightarrow> unit res" where
  "verify_frame dg doc =
     ensure (is_object doc) ''invalid cluster bundle''
     (need (member doc ''cluster_snapshot'') ''cluster frame missing'' (\<lambda>f.
      ensure (is_object f) ''invalid cluster frame''
      (let body = remove_keys [''cluster_snapshot''] doc;
           unsigned = remove_keys [''snapshot_id'', ''current'', ''source_current''] f
       in ensure (field f ''contract'' = JStr ''bitcoin_clustering_v1'' \<and> field f ''network_id'' = JStr (network_id Bitcoin) \<and>
            field f ''address'' = field doc ''address'' \<and> field f ''run_id'' = field doc ''run_id'' \<and>
            field f ''source_snapshot_id'' = field (field doc ''source_snapshot'') ''snapshot_id'' \<and>
            field f ''snapshot_id'' = JStr (dg unsigned) \<and> field f ''body_hash'' = JStr (dg body) \<and>
            field f ''clusters_hash'' = JStr (dg (field doc ''clusters'')) \<and>
            field f ''coverage_hash'' = JStr (dg (field doc ''cluster_coverage'')))
          ''cluster evidence binding mismatch'' (Inr ()))))"

lemma field_set_key: "is_object b \<Longrightarrow> field (set_key k v b) k' = (if k' = k then v else field b k')"
proof (cases b)
  case (JObj kvs)
  have "map_of (map (\<lambda>kv. if fst kv = k then (k, v) else kv) kvs) k' =
      (if k' = k then (if k \<in> fst ` set kvs then Some v else None) else map_of kvs k')" for kvs
    by (induction kvs) force+
  moreover have "map_of (kvs @ [(k, v)]) k' = (case map_of kvs k' of Some x \<Rightarrow> Some x | None \<Rightarrow> if k' = k then Some v else None)"
    for kvs by (induction kvs) auto
  moreover have "k \<notin> fst ` set kvs \<Longrightarrow> map_of kvs k = None" by (simp add: map_of_eq_None_iff)
  ultimately show ?thesis using JObj
    by (cases "k \<in> fst ` set kvs"; cases "k' = k"; cases "map_of kvs k'") simp_all
qed simp_all

lemma field_remove_keys: "field (remove_keys ks b) k = (if k \<in> set ks then JNull else field b k)"
proof (cases b)
  case (JObj kvs)
  have "map_of (filter (\<lambda>kv. fst kv \<notin> set ks) kvs) k = (if k \<in> set ks then None else map_of kvs k)"
    by (induction kvs) auto
  then show ?thesis using JObj by simp
qed (simp_all add: field_def)

lemma remove_keys_twice [simp]: "remove_keys ks (remove_keys ks b) = remove_keys ks b"
  by (cases b) simp_all

lemma remove_set_key: "k \<in> set ks \<Longrightarrow> remove_keys ks (set_key k v b) = remove_keys ks b"
proof (cases b)
  case (JObj kvs)
  assume "k \<in> set ks"
  then have "filter (\<lambda>kv. fst kv \<notin> set ks) (map (\<lambda>kv. if fst kv = k then (k, v) else kv) kvs) =
      filter (\<lambda>kv. fst kv \<notin> set ks) kvs" for kvs :: "(string \<times> json) list"
    by (induction kvs) auto
  with JObj \<open>k \<in> set ks\<close> show ?thesis by simp
qed simp_all

lemma is_object_keys [simp]: "is_object (set_key k v b) = is_object b" "is_object (remove_keys ks b) = is_object b"
  by (cases b; simp)+

lemma member_field: "field b k \<noteq> JNull \<Longrightarrow> member b k = Some (field b k)"
  by (auto simp: field_def split: option.splits)

lemma frame_ok:
  "frame dg doc = Inr v \<longleftrightarrow> is_object doc \<and>
     (let b = remove_keys [''cluster_snapshot''] doc; f = frame_fields dg b
      in v = set_key ''cluster_snapshot'' (set_key ''snapshot_id''
           (JStr (dg (remove_keys [''current'', ''source_current''] f))) f) b)"
  by (auto simp: frame_def ok_simps)

text \<open>A framed doc passes the check of its frame, whatever \<open>current\<close> and \<open>source_current\<close> are
  set to afterwards.\<close>

theorem frame_verifies:
  "case frame dg doc of Inl e \<Rightarrow> doc \<notin> range JObj
   | Inr v \<Rightarrow> verify_frame dg v = Inr () \<and>
       verify_frame dg (set_key ''cluster_snapshot'' (set_key ''current'' (JBool x) (set_key ''source_current'' (JBool y)
         (field v ''cluster_snapshot''))) v) = Inr ()"
proof (cases "frame dg doc")
  case (Inl e)
  then show ?thesis by (cases "doc") (auto simp: frame_def Let_def)
next
  case (Inr v)
  define b where "b = remove_keys [''cluster_snapshot''] doc"
  define f where "f = frame_fields dg b"
  define sid where "sid = JStr (dg (remove_keys [''current'', ''source_current''] f))"
  have ob: "is_object b" "is_object f" and v: "v = set_key ''cluster_snapshot'' (set_key ''snapshot_id'' sid f) b"
    using Inr by (simp_all add: frame_ok b_def f_def sid_def Let_def frame_fields_def)
  have rb: "remove_keys [''cluster_snapshot''] b = b" by (simp add: b_def)
  have nosid: "remove_keys [''snapshot_id'', ''current'', ''source_current''] f = remove_keys [''current'', ''source_current''] f"
    by (simp add: f_def frame_fields_def Let_def)
  have check: "verify_frame dg (set_key ''cluster_snapshot'' g b) = Inr ()"
    if g: "is_object g" "remove_keys [''snapshot_id'', ''current'', ''source_current''] g =
        remove_keys [''current'', ''source_current''] f"
      "\<And>k. k \<notin> {''snapshot_id'', ''current'', ''source_current''} \<Longrightarrow> field g k = field f k" "field g ''snapshot_id'' = sid" for g
  proof -
    have "field (set_key ''cluster_snapshot'' g b) ''cluster_snapshot'' = g" using ob by (simp add: field_set_key)
    moreover from this g have "member (set_key ''cluster_snapshot'' g b) ''cluster_snapshot'' = Some g"
      using member_field[of "set_key ''cluster_snapshot'' g b" "''cluster_snapshot''"] by (cases g) auto
    ultimately show ?thesis
      using g ob by (simp add: verify_frame_def ensure_def remove_set_key rb field_set_key sid_def)
        (simp add: f_def frame_fields_def Let_def)
  qed
  have g: "verify_frame dg v = Inr ()" unfolding v
    by (rule check) (use ob in \<open>auto simp: remove_set_key nosid field_set_key\<close>)
  have "field v ''cluster_snapshot'' = set_key ''snapshot_id'' sid f" using ob by (simp add: v field_set_key)
  moreover have "set_key ''cluster_snapshot'' g' (set_key ''cluster_snapshot'' g b) = set_key ''cluster_snapshot'' g' b" for g g'
  proof -
    have "''cluster_snapshot'' \<notin> fst ` set kvs" if "b = JObj kvs" for kvs
      using rb that by (cases "doc") (auto simp: b_def)
    then show ?thesis using ob(1) by (cases b) (force intro!: map_idI)+
  qed
  moreover have "verify_frame dg (set_key ''cluster_snapshot'' (set_key ''current'' (JBool x)
      (set_key ''source_current'' (JBool y) (set_key ''snapshot_id'' sid f))) b) = Inr ()"
    by (rule check) (use ob in \<open>auto simp: remove_set_key nosid field_set_key\<close>)
  ultimately show ?thesis using g Inr by (simp add: v)
qed


definition sample_bundle :: json where
  "sample_bundle = JObj [(''address'', JStr ''a''), (''run_id'', JStr ''r''), (''clusters'', JArr []),
     (''cluster_coverage'', JObj [(''persisted'', JBool True)])]"


section \<open>Applying a review\<close>

text \<open>The lead the decision names gets the review; every lead moves to the new version. \<open>run\<close> and
  \<open>now\<close> are the fresh run identity and the clock.\<close>

fun update_first :: "('a \<Rightarrow> bool) \<Rightarrow> ('a \<Rightarrow> 'a) \<Rightarrow> 'a list \<Rightarrow> 'a list" where
  "update_first p f [] = []"
| "update_first p f (x # xs) = (if p x then f x # xs else x # update_first p f xs)"

definition review_json :: "review \<Rightarrow> json" where
  "review_json d = JObj [(''network_id'', JStr (rv_network d)), (''run_id'', JStr (rv_run d)), (''cluster_id'', JStr (rv_cluster d)),
     (''expected_version'', JStr (rv_expected d)), (''decision'', JStr (rv_decision d)), (''reviewed_by'', JStr (rv_by d)),
     (''reason'', JStr (rv_reason d)), (''evidence_refs'', jstrs (rv_refs d))]"

definition review_revision :: "nat \<Rightarrow> json \<Rightarrow> nat" where
  "review_revision now c =
     max (max now ((case as_u64 (field (field c ''review'') ''revision'') of None \<Rightarrow> 0 | Some n \<Rightarrow> n) + 1)) 1"

definition reviewed_lead :: "(json \<Rightarrow> string) \<Rightarrow> string \<Rightarrow> nat \<Rightarrow> review \<Rightarrow> json \<Rightarrow> json \<Rightarrow> json" where
  "reviewed_lead dg run now d source_id c =
     set_key ''review_status'' (JStr (rv_decision d)) (set_key ''review'' (JObj
       [(''review_id'', JStr (''btc-clreview-'' @ dg (JArr [JStr run, review_json d]))), (''origin_run_id'', JStr run),
        (''previous_version'', JStr (rv_run d)), (''previous_review_id'', field (field c ''review'') ''review_id''),
        (''decision'', JStr (rv_decision d)), (''reviewed_by'', JStr (rv_by d)), (''reason'', JStr (rv_reason d)),
        (''evidence_refs'', jstrs (rv_refs d)), (''revision'', jnat (review_revision now c)),
        (''evidence_hash'', field c ''evidence_hash''), (''definition_hash'', field (cluster_config dg) ''definition_hash''),
        (''source_snapshot_id'', source_id), (''accepts_lead_only'', JBool True)]) c)"

definition named :: "review \<Rightarrow> json \<Rightarrow> bool" where
  "named d c \<longleftrightarrow> field c ''cluster_id'' = JStr (rv_cluster d)"

definition apply_review :: "(json \<Rightarrow> string) \<Rightarrow> string \<Rightarrow> nat \<Rightarrow> review \<Rightarrow> json \<Rightarrow> json res" where
  "apply_review dg run now d value =
     attempt (validate_review d) (\<lambda>_.
     ensure (field (field value ''cluster_snapshot'') ''current'' = JBool True)
       ''Cluster review changed; reload the candidate version before reviewing''
     (need (as_array (field value ''clusters'')) ''called Option::unwrap() on a None value'' (\<lambda>cs.
      ensure (\<exists>c \<in> set cs. named d c) ''candidate not present in this run''
      (let leads = update_first (named d) (reviewed_lead dg run now d (field (field value ''source_snapshot'') ''snapshot_id'')) cs
       in Inr (set_key ''clusters'' (JArr (map (set_key ''cluster_version'' (JStr run)) leads))
            (set_key ''run_id'' (JStr run) value))))))"

lemma update_first_nth:
  "length (update_first p f xs) = length xs"
  "i < length xs \<Longrightarrow> update_first p f xs ! i = xs ! i \<or> p (xs ! i) \<and> update_first p f xs ! i = f (xs ! i)"
proof -
  show "length (update_first p f xs) = length xs" by (induction xs) auto
  show "i < length xs \<Longrightarrow> update_first p f xs ! i = xs ! i \<or> p (xs ! i) \<and> update_first p f xs ! i = f (xs ! i)"
    by (induction xs arbitrary: i) (auto simp: nth_Cons split: nat.splits)
qed

text \<open>C37: a review changes nothing of a lead but its review, its status and its version, and only the lead
  it names gets the decision: it confers no ownership, seed or score.\<close>

theorem review_touches_review_only:
  assumes "apply_review dg run now d value = Inr v" "is_object value"
    and "field value ''clusters'' = JArr cs" "list_all is_object cs"
  shows "\<exists>cs'. field v ''clusters'' = JArr cs' \<and> length cs' = length cs \<and>
    (\<forall>i < length cs. \<forall>k. k \<notin> {''review'', ''review_status'', ''cluster_version''} \<longrightarrow> field (cs' ! i) k = field (cs ! i) k) \<and>
    (\<forall>i < length cs. field (cs' ! i) ''review_status'' \<noteq> field (cs ! i) ''review_status'' \<longrightarrow>
       field (cs ! i) ''cluster_id'' = JStr (rv_cluster d) \<and> field (cs' ! i) ''review_status'' = JStr (rv_decision d))"
proof -
  let ?f = "reviewed_lead dg run now d (field (field value ''source_snapshot'') ''snapshot_id'')"
  let ?u = "update_first (named d) ?f cs"
  have "v = set_key ''clusters'' (JArr (map (set_key ''cluster_version'' (JStr run)) ?u)) (set_key ''run_id'' (JStr run) value)"
    using assms(1,3) by (auto simp: apply_review_def ok_simps)
  then have c: "field v ''clusters'' = JArr (map (set_key ''cluster_version'' (JStr run)) ?u)"
    using assms(2) by (simp add: field_set_key)
  have o: "is_object (cs ! i)" if "i < length cs" for i using assms(4) that by (simp add: list_all_length)
  have "is_object (?u ! i)" if "i < length cs" for i
    using update_first_nth(2)[OF that, of "named d" ?f] o[OF that] by (auto simp: reviewed_lead_def)
  then have n: "field (map (set_key ''cluster_version'' (JStr run)) ?u ! i) k =
      (if k = ''cluster_version'' then JStr run else field (?u ! i) k)" if "i < length cs" for i k
    using that by (simp add: update_first_nth(1) field_set_key)
  have f: "field (?f x) k = field x k" if "is_object x" "k \<noteq> ''review''" "k \<noteq> ''review_status''" for x k
    using that by (simp add: reviewed_lead_def field_set_key)
  have r: "field (?f x) ''review_status'' = JStr (rv_decision d)" if "is_object x" for x
    using that by (simp add: reviewed_lead_def field_set_key)
  show ?thesis
  proof (intro exI[of _ "map (set_key ''cluster_version'' (JStr run)) ?u"] conjI allI impI)
    fix i k
    assume i: "i < length cs" and k: "k \<notin> {''review'', ''review_status'', ''cluster_version''}"
    show "field (map (set_key ''cluster_version'' (JStr run)) ?u ! i) k = field (cs ! i) k"
      using update_first_nth(2)[OF i, of "named d" ?f] n[OF i, of k] f[OF o[OF i], of k] k by auto
  next
    fix i
    assume i: "i < length cs"
      and d: "field (map (set_key ''cluster_version'' (JStr run)) ?u ! i) ''review_status'' \<noteq> field (cs ! i) ''review_status''"
    then have "?u ! i \<noteq> cs ! i" using n[OF i, of "''review_status''"] by auto
    then have u: "named d (cs ! i)" "?u ! i = ?f (cs ! i)" using update_first_nth(2)[OF i, of "named d" ?f] by auto
    show "field (cs ! i) ''cluster_id'' = JStr (rv_cluster d)" using u by (simp add: named_def)
    show "field (map (set_key ''cluster_version'' (JStr run)) ?u ! i) ''review_status'' = JStr (rv_decision d)"
      using n[OF i, of "''review_status''"] u r[OF o[OF i]] by simp
  qed (simp_all add: c update_first_nth(1))
qed

definition sample_review :: review where
  "sample_review = \<lparr>rv_network = network_id Bitcoin, rv_run = ''btc-clrun-'' @ replicate 64 (CHR ''a''),
     rv_cluster = ''btc-cluster-'' @ replicate 64 (CHR ''b''), rv_expected = ''btc-clrun-'' @ replicate 64 (CHR ''a''),
     rv_decision = ''approved'', rv_by = ''me'', rv_reason = ''seen'', rv_refs = [''tx:1'']\<rparr>"

definition sample_leads :: json where
  "sample_leads = JObj [(''cluster_snapshot'', JObj [(''current'', JBool True)]),
     (''clusters'', JArr [JObj [(''cluster_id'', JStr (rv_cluster sample_review)), (''review_status'', JStr ''pending'')]])]"

theorem review_touches_review_only_witness:
  "\<exists>v cs'. apply_review (\<lambda>_. ''h'') ''r'' 1 sample_review sample_leads = Inr v \<and>
     field v ''clusters'' = JArr cs' \<and> length cs' = 1"
proof -
  have "is_ok (apply_review (\<lambda>_. ''h'') ''r'' 1 sample_review sample_leads)" by code_simp
  then obtain v where v: "apply_review (\<lambda>_. ''h'') ''r'' 1 sample_review sample_leads = Inr v" by (auto simp: is_ok_iff)
  have s: "is_object sample_leads"
    "field sample_leads ''clusters'' = JArr [JObj [(''cluster_id'', JStr (rv_cluster sample_review)), (''review_status'', JStr ''pending'')]]"
    "list_all is_object [JObj [(''cluster_id'', JStr (rv_cluster sample_review)), (''review_status'', JStr ''pending'')]]"
    by (simp_all add: sample_leads_def)
  from review_touches_review_only[OF v s] v show ?thesis by auto
qed

end
