(* ===== verification/Analytics.thy ===== *)
theory Analytics
  imports Clusters Exposure
begin

text \<open>
  The analytics worker (\<open>dockerizd_bitcoin/src/analytics\<close>): its queue of address jobs, the
  checkpoint file it resumes from, and one cycle of sweeping, attempting and waiting. The
  clock and the outcomes of checkpoint writes are consumed from lists in the store; the
  database's answers during a cycle and the digest and sizes of documents are parameters.
\<close>

section \<open>Configuration\<close>

definition worker_version :: string where "worker_version = ''bitcoin_analytics_worker_v1''"

definition max_queue :: nat where "max_queue = 128"

definition max_recent :: nat where "max_recent = 16"

definition heartbeat_seconds :: nat where "heartbeat_seconds = 5"

definition max_checkpoint :: nat where "max_checkpoint = 1024 * 1024"

record worker_config =
  cf_directory :: string
  cf_page :: nat
  cf_poll :: nat
  cf_refresh :: nat
  cf_timeout :: nat
  cf_retry :: nat
  cf_attempts :: nat

definition between :: "nat \<Rightarrow> nat \<Rightarrow> nat \<Rightarrow> bool" where
  "between lo hi n \<longleftrightarrow> lo \<le> n \<and> n \<le> hi"

definition validate_config :: "worker_config \<Rightarrow> unit res" where
  "validate_config c =
     ensure (starts_with (cf_directory c) ''/'') ''analytics state directory must be absolute''
     (ensure (between 1 100 (cf_page c) \<and> between 1 60 (cf_poll c) \<and> between 10 86400 (cf_refresh c) \<and>
              between 1 600 (cf_timeout c) \<and> between 1 3600 (cf_retry c) \<and> between 1 20 (cf_attempts c))
        ''invalid analytics resource limits'' (Inr ()))"

record worker_lib =
  wl_digest :: "json \<Rightarrow> string"
  wl_size :: "json \<Rightarrow> nat"                 \<comment> \<open>bytes of the document\<close>
  wl_address :: "string \<Rightarrow> string res"     \<comment> \<open>\<open>model::address\<close>\<close>
  wl_risk :: json                        \<comment> \<open>the compiled risk policy\<close>

definition config_definition :: "worker_lib \<Rightarrow> worker_config \<Rightarrow> json" where
  "config_definition lib c = JObj [(''worker_version'', JStr worker_version), (''network_id'', JStr (network_id Bitcoin)),
     (''page_size'', jnat (cf_page c)), (''poll_seconds'', jnat (cf_poll c)), (''refresh_seconds'', jnat (cf_refresh c)),
     (''job_timeout_seconds'', jnat (cf_timeout c)), (''retry_seconds'', jnat (cf_retry c)), (''max_attempts'', jnat (cf_attempts c)),
     (''queue_limit'', jnat max_queue), (''recent_receipts_limit'', jnat max_recent), (''concurrency'', jnat 1),
     (''activity_roots'', jnat 25), (''heartbeat_seconds'', jnat heartbeat_seconds),
     (''heartbeat_max_age_seconds'', jnat (max (cf_poll c * 3 + 15) 30)),
     (''semantic_config'', semantics_config (wl_digest lib)), (''cluster_config'', cluster_config (wl_digest lib)),
     (''exposure_policy'', JStr exposure_policy), (''risk_policy'', wl_risk lib),
     (''automatic_approval'', JBool False), (''whole_chain_analysis_claimed'', JBool False)]"

definition config_hash :: "worker_lib \<Rightarrow> worker_config \<Rightarrow> string" where
  "config_hash lib c = wl_digest lib (config_definition lib c)"

section \<open>State\<close>

record job =
  jb_id :: string
  jb_address :: string
  jb_status :: string
  jb_attempts :: nat
  jb_next_ms :: nat
  jb_error :: string

record sweep =
  sw_height :: nat
  sw_hash :: string
  sw_start :: nat
  sw_after :: string
  sw_exhausted :: bool

record worker_state =
  ws_contract :: string
  ws_network :: string
  ws_database :: string
  ws_definition :: json
  ws_hash :: string
  ws_generation :: nat
  ws_pass :: nat
  ws_phase :: string
  ws_reason :: string
  ws_heartbeat :: nat
  ws_next_sweep :: nat
  ws_sweep :: "sweep option"
  ws_queue :: "job list"
  ws_recent :: "json list"
  ws_succeeded :: nat
  ws_failures :: nat
  ws_abandoned :: nat

definition worker_new :: "worker_lib \<Rightarrow> string \<Rightarrow> worker_config \<Rightarrow> worker_state" where
  "worker_new lib database c = \<lparr>ws_contract = worker_version, ws_network = network_id Bitcoin, ws_database = database,
     ws_definition = config_definition lib c, ws_hash = config_hash lib c, ws_generation = 0, ws_pass = 0,
     ws_phase = ''waiting'', ws_reason = ''starting'', ws_heartbeat = 0, ws_next_sweep = 0, ws_sweep = None,
     ws_queue = [], ws_recent = [], ws_succeeded = 0, ws_failures = 0, ws_abandoned = 0\<rparr>"

text \<open>The index of the job to attempt next: fresh jobs first, then by due time, then by position.\<close>

definition waits :: "job \<Rightarrow> bool" where
  "waits j \<longleftrightarrow> jb_status j = ''pending'' \<or> jb_status j = ''retry''"

definition due_before :: "job list \<Rightarrow> nat \<Rightarrow> nat \<Rightarrow> bool" where
  "due_before q i k \<longleftrightarrow>
     (let a = q ! i; b = q ! k in
      jb_attempts a = 0 \<and> 0 < jb_attempts b \<or>
      (0 < jb_attempts a \<longleftrightarrow> 0 < jb_attempts b) \<and>
        (jb_next_ms a < jb_next_ms b \<or> jb_next_ms a = jb_next_ms b \<and> i < k))"

definition ready :: "worker_state \<Rightarrow> nat \<Rightarrow> nat list" where
  "ready s now = filter (\<lambda>i. waits (ws_queue s ! i) \<and> jb_next_ms (ws_queue s ! i) \<le> now) [0..<length (ws_queue s)]"

definition due :: "worker_state \<Rightarrow> nat \<Rightarrow> nat option" where
  "due s now = (case ready s now of [] \<Rightarrow> None
     | i # js \<Rightarrow> Some (fold (\<lambda>k best. if due_before (ws_queue s) k best then k else best) js i))"

definition retry_delay :: "worker_config \<Rightarrow> nat \<Rightarrow> nat" where
  "retry_delay c attempts = min (saturating_mul64 (cf_retry c) (2 ^ min attempts 10)) 3600"

definition interrupt_status :: "worker_config \<Rightarrow> job \<Rightarrow> string" where
  "interrupt_status c j = (if cf_attempts c \<le> jb_attempts j then ''failed'' else ''retry'')"

definition remove_nth :: "nat \<Rightarrow> 'a list \<Rightarrow> 'a list" where
  "remove_nth i xs = take i xs @ drop (Suc i) xs"

definition receipt :: "job \<Rightarrow> nat \<Rightarrow> json \<Rightarrow> json" where
  "receipt j now value = JObj [(''job_id'', JStr (jb_id j)), (''address'', JStr (jb_address j)),
     (''attempts'', jnat (jb_attempts j)), (''completed_at_unix_ms'', jnat now), (''result'', value)]"

definition finish :: "worker_config \<Rightarrow> nat \<Rightarrow> json res \<Rightarrow> nat \<Rightarrow> worker_state \<Rightarrow> worker_state" where
  "finish c index outcome now s =
     (let j = ws_queue s ! index in
      case outcome of
        Inr value \<Rightarrow>
          (let recent = ws_recent s @ [receipt j now value] in
           s\<lparr>ws_queue := remove_nth index (ws_queue s), ws_succeeded := saturating_add64 (ws_succeeded s) 1,
             ws_recent := (if max_recent < length recent then tl recent else recent),
             ws_phase := ''idle'', ws_reason := ''job_completed''\<rparr>)
      | Inl e \<Rightarrow>
          s\<lparr>ws_queue := (ws_queue s)[index := j\<lparr>jb_status := interrupt_status c j,
               jb_error := take 256 (filter (\<lambda>ch. \<not> is_control ch) e),
               jb_next_ms := saturating_add64 now (retry_delay c (jb_attempts j) * 1000)\<rparr>],
             ws_failures := saturating_add64 (ws_failures s) 1, ws_phase := ''failed'',
             ws_reason := ''job_failed_other_jobs_continue''\<rparr>)"

section \<open>The checkpoint document\<close>

definition job_json :: "job \<Rightarrow> json" where
  "job_json j = JObj [(''id'', JStr (jb_id j)), (''address'', JStr (jb_address j)), (''status'', JStr (jb_status j)),
     (''attempts'', jnat (jb_attempts j)), (''next_attempt_unix_ms'', jnat (jb_next_ms j)), (''last_error'', JStr (jb_error j))]"

definition sweep_json :: "sweep \<Rightarrow> json" where
  "sweep_json w = JObj [(''height'', jnat (sw_height w)), (''hash'', JStr (sw_hash w)), (''start'', jnat (sw_start w)),
     (''after_address'', JStr (sw_after w)), (''exhausted'', JBool (sw_exhausted w))]"

definition state_json :: "worker_state \<Rightarrow> json" where
  "state_json s = JObj [(''contract'', JStr (ws_contract s)), (''network_id'', JStr (ws_network s)),
     (''database'', JStr (ws_database s)), (''definition'', ws_definition s), (''definition_hash'', JStr (ws_hash s)),
     (''generation'', jnat (ws_generation s)), (''pass'', jnat (ws_pass s)), (''phase'', JStr (ws_phase s)),
     (''reason'', JStr (ws_reason s)), (''heartbeat_unix_ms'', jnat (ws_heartbeat s)),
     (''next_sweep_unix_ms'', jnat (ws_next_sweep s)), (''scan'', jopt sweep_json (ws_sweep s)),
     (''queue'', JArr (map job_json (ws_queue s))), (''recent'', JArr (ws_recent s)), (''succeeded'', jnat (ws_succeeded s)),
     (''failures'', jnat (ws_failures s)), (''abandoned'', jnat (ws_abandoned s))]"

text \<open>Reading a document back, member by member; unknown members are refused.\<close>

definition only_keys :: "string list \<Rightarrow> json \<Rightarrow> bool" where
  "only_keys ks v = (case v of JObj kvs \<Rightarrow> fst ` set kvs \<subseteq> set ks | _ \<Rightarrow> False)"

definition text_at :: "json \<Rightarrow> string \<Rightarrow> (string \<Rightarrow> 'a res) \<Rightarrow> 'a res" where
  "text_at v k f = need (as_str (field v k)) ''invalid type: expected a string'' f"

definition nat_at :: "nat \<Rightarrow> json \<Rightarrow> string \<Rightarrow> (nat \<Rightarrow> 'a res) \<Rightarrow> 'a res" where
  "nat_at lim v k f = need (as_u64 (field v k)) ''invalid type: expected an integer''
     (\<lambda>n. ensure (n < lim) ''invalid value: integer out of range'' (f n))"

definition bool_at :: "json \<Rightarrow> string \<Rightarrow> (bool \<Rightarrow> 'a res) \<Rightarrow> 'a res" where
  "bool_at v k f = (case field v k of JBool b \<Rightarrow> f b | _ \<Rightarrow> Inl ''invalid type: expected a boolean'')"

definition array_at :: "json \<Rightarrow> string \<Rightarrow> (json list \<Rightarrow> 'a res) \<Rightarrow> 'a res" where
  "array_at v k f = need (as_array (field v k)) ''invalid type: expected a sequence'' f"

definition job_of_json :: "json \<Rightarrow> job res" where
  "job_of_json v =
     ensure (only_keys [''id'', ''address'', ''status'', ''attempts'', ''next_attempt_unix_ms'', ''last_error''] v) ''unknown field''
     (text_at v ''id'' (\<lambda>i. text_at v ''address'' (\<lambda>a. text_at v ''status'' (\<lambda>st.
      nat_at u32_lim v ''attempts'' (\<lambda>n. nat_at u64_lim v ''next_attempt_unix_ms'' (\<lambda>t. text_at v ''last_error'' (\<lambda>e.
      Inr \<lparr>jb_id = i, jb_address = a, jb_status = st, jb_attempts = n, jb_next_ms = t, jb_error = e\<rparr>)))))))"

definition sweep_of_json :: "json \<Rightarrow> sweep res" where
  "sweep_of_json v =
     ensure (only_keys [''height'', ''hash'', ''start'', ''after_address'', ''exhausted''] v) ''unknown field''
     (nat_at u64_lim v ''height'' (\<lambda>h. text_at v ''hash'' (\<lambda>b. nat_at u64_lim v ''start'' (\<lambda>st.
      text_at v ''after_address'' (\<lambda>a. bool_at v ''exhausted'' (\<lambda>x.
      Inr \<lparr>sw_height = h, sw_hash = b, sw_start = st, sw_after = a, sw_exhausted = x\<rparr>))))))"

definition state_keys :: "string list" where
  "state_keys = [''contract'', ''network_id'', ''database'', ''definition'', ''definition_hash'', ''generation'', ''pass'',
     ''phase'', ''reason'', ''heartbeat_unix_ms'', ''next_sweep_unix_ms'', ''scan'', ''queue'', ''recent'', ''succeeded'',
     ''failures'', ''abandoned'']"

definition state_of_json :: "json \<Rightarrow> worker_state res" where
  "state_of_json v =
     ensure (only_keys state_keys v) ''unknown field''
     (text_at v ''contract'' (\<lambda>ct. text_at v ''network_id'' (\<lambda>net. text_at v ''database'' (\<lambda>db.
      need (member v ''definition'') ''missing field'' (\<lambda>df. text_at v ''definition_hash'' (\<lambda>dh.
      nat_at u64_lim v ''generation'' (\<lambda>gn. nat_at u64_lim v ''pass'' (\<lambda>ps. text_at v ''phase'' (\<lambda>ph. text_at v ''reason'' (\<lambda>rs.
      nat_at u64_lim v ''heartbeat_unix_ms'' (\<lambda>hb. nat_at u64_lim v ''next_sweep_unix_ms'' (\<lambda>ns.
      attempt (case field v ''scan'' of JNull \<Rightarrow> Inr None | w \<Rightarrow> attempt (sweep_of_json w) (\<lambda>x. Inr (Some x))) (\<lambda>sw.
      array_at v ''queue'' (\<lambda>q. attempt (mapE job_of_json q) (\<lambda>jobs. array_at v ''recent'' (\<lambda>rc.
      nat_at u64_lim v ''succeeded'' (\<lambda>su. nat_at u64_lim v ''failures'' (\<lambda>fl. nat_at u64_lim v ''abandoned'' (\<lambda>ab.
      Inr \<lparr>ws_contract = ct, ws_network = net, ws_database = db, ws_definition = df, ws_hash = dh, ws_generation = gn,
           ws_pass = ps, ws_phase = ph, ws_reason = rs, ws_heartbeat = hb, ws_next_sweep = ns, ws_sweep = sw,
           ws_queue = jobs, ws_recent = rc, ws_succeeded = su, ws_failures = fl, ws_abandoned = ab\<rparr>)))))))))))))))))))"

definition frame_doc :: "worker_lib \<Rightarrow> worker_state \<Rightarrow> json" where
  "frame_doc lib s = JObj [(''checksum'', JStr (wl_digest lib (state_json s))), (''state'', state_json s)]"

definition sql_identifier :: "string \<Rightarrow> unit res" where
  "sql_identifier v =
     ensure (v \<noteq> [] \<and> length v \<le> 128 \<and> list_all (\<lambda>c. is_alnum c \<or> c = CHR ''_'') v \<and> \<not> is_digit (hd v))
       ''unsafe SQL identifier'' (Inr ())"

definition phases :: "string list" where
  "phases = [''waiting'', ''running'', ''idle'', ''failed'']"

definition statuses :: "string list" where
  "statuses = [''pending'', ''running'', ''retry'', ''failed'']"

definition check_job :: "worker_lib \<Rightarrow> job \<Rightarrow> string set \<Rightarrow> string set res" where
  "check_job lib j ids =
     attempt (wl_address lib (jb_address j)) (\<lambda>_.
     ensure (jb_id j \<notin> ids \<and> jb_status j \<in> set statuses \<and> jb_attempts j \<le> 20) ''invalid analytics job''
     (Inr (insert (jb_id j) ids)))"

definition check_state :: "worker_lib \<Rightarrow> string \<Rightarrow> worker_state \<Rightarrow> worker_state res" where
  "check_state lib database s =
     ensure (ws_contract s = worker_version \<and> ws_network s = network_id Bitcoin \<and> ws_database s = database)
       ''analytics checkpoint identity mismatch''
     (ensure (length (ws_queue s) \<le> max_queue \<and> length (ws_recent s) \<le> max_recent \<and>
              ws_hash s = wl_digest lib (ws_definition s)) ''invalid analytics checkpoint limits/configuration''
     (ensure (ws_phase s \<in> set phases) ''invalid analytics phase''
     (attempt (foldE (check_job lib) (ws_queue s) {}) (\<lambda>_. Inr s))))"

definition load_frame :: "worker_lib \<Rightarrow> string \<Rightarrow> json \<Rightarrow> worker_state res" where
  "load_frame lib database doc =
     ensure (wl_size lib doc \<le> max_checkpoint) ''analytics checkpoint exceeds size cap''
     (ensure (field doc ''checksum'' = JStr (wl_digest lib (field doc ''state''))) ''analytics checkpoint checksum mismatch''
     (attempt (state_of_json (field doc ''state'')) (check_state lib database)))"

section \<open>The worker\<close>

text \<open>How a write of the checkpoint ends: stored, in place but not synced and so an error, or lost.\<close>

datatype disk_write = Stored | Unsynced | Lost

record worker =
  wk_state :: worker_state
  wk_file :: "json option"
  wk_clock :: "nat list"
  wk_disk :: "disk_write list"

definition tick :: "(worker, nat) io" where
  "tick s = (case wk_clock s of [] \<Rightarrow> (Inr 0, s) | t # ts \<Rightarrow> (Inr t, s\<lparr>wk_clock := ts\<rparr>))"

definition commit_doc :: "json \<Rightarrow> (worker, unit) io" where
  "commit_doc doc s = (case wk_disk s of
       [] \<Rightarrow> (Inr (), s\<lparr>wk_file := Some doc\<rparr>)
     | Stored # ds \<Rightarrow> (Inr (), s\<lparr>wk_file := Some doc, wk_disk := ds\<rparr>)
     | Unsynced # ds \<Rightarrow> (Inl ''cannot sync analytics checkpoint'', s\<lparr>wk_file := Some doc, wk_disk := ds\<rparr>)
     | Lost # ds \<Rightarrow> (Inl ''cannot commit analytics checkpoint'', s\<lparr>wk_disk := ds\<rparr>))"

definition update :: "(worker_state \<Rightarrow> worker_state) \<Rightarrow> (worker, unit) io" where
  "update f = io_modify (\<lambda>s. s\<lparr>wk_state := f (wk_state s)\<rparr>)"

definition inspect :: "(worker_state \<Rightarrow> 'a) \<Rightarrow> ('a \<Rightarrow> (worker, 'b) io) \<Rightarrow> (worker, 'b) io" where
  "inspect f = io_get (\<lambda>s. f (wk_state s))"

definition save :: "worker_lib \<Rightarrow> (worker, unit) io" where
  "save lib =
     io_then tick (\<lambda>now.
     inspect (\<lambda>w. checked_add64 (ws_generation w) 1) (\<lambda>g. io_need g ''analytics generation exhausted'' (\<lambda>g.
     io_then (update (\<lambda>w. w\<lparr>ws_generation := g, ws_heartbeat := now\<rparr>)) (\<lambda>_.
     inspect (frame_doc lib) (\<lambda>doc.
     io_ensure (wl_size lib doc \<le> max_checkpoint) ''analytics checkpoint exceeds size cap''
     (inspect (\<lambda>w. sql_identifier (ws_database w)) (\<lambda>ok. io_attempt ok (\<lambda>_. commit_doc doc))))))))"

definition interrupt :: "worker_config \<Rightarrow> string \<Rightarrow> job \<Rightarrow> job" where
  "interrupt c msg j =
     (if jb_status j = ''running''
      then j\<lparr>jb_status := interrupt_status c j, jb_next_ms := 0, jb_error := msg\<rparr> else j)"

definition drop_queue :: "worker_state \<Rightarrow> worker_state" where
  "drop_queue w = w\<lparr>ws_abandoned := saturating_add64 (ws_abandoned w) (length (ws_queue w)), ws_queue := []\<rparr>"

definition resume :: "worker_lib \<Rightarrow> worker_config \<Rightarrow> worker_state \<Rightarrow> worker_state" where
  "resume lib c w0 =
     (let w = (if ws_hash w0 = config_hash lib c then w0
               else (drop_queue w0)\<lparr>ws_sweep := None, ws_next_sweep := 0, ws_definition := config_definition lib c,
                                   ws_hash := config_hash lib c\<rparr>)
      in w\<lparr>ws_queue := map (interrupt c ''interrupted attempt; publication must be revalidated'') (ws_queue w),
           ws_phase := ''waiting'', ws_reason := ''started_or_resumed''\<rparr>)"

definition open_worker :: "worker_lib \<Rightarrow> string \<Rightarrow> worker_config \<Rightarrow> (worker, unit) io" where
  "open_worker lib database c =
     io_attempt (validate_config c) (\<lambda>_.
     io_attempt (sql_identifier database) (\<lambda>_.
     io_get wk_file (\<lambda>file.
     io_attempt (case file of None \<Rightarrow> Inr (worker_new lib database c) | Some doc \<Rightarrow> load_frame lib database doc) (\<lambda>w.
     io_then (update (\<lambda>_. resume lib c w)) (\<lambda>_. save lib)))))"

definition pause :: "worker_lib \<Rightarrow> worker_config \<Rightarrow> (worker, unit) io" where
  "pause lib c =
     io_then (update (\<lambda>w. w\<lparr>ws_queue := map (interrupt c ''interrupted by shutdown'') (ws_queue w),
       ws_phase := ''waiting'', ws_reason := ''stopped''\<rparr>)) (\<lambda>_. save lib)"

definition retry :: "worker_lib \<Rightarrow> string \<Rightarrow> (worker, unit) io" where
  "retry lib i =
     inspect (\<lambda>w. \<exists>j \<in> set (ws_queue w). jb_id j = i \<and> jb_status j = ''failed'') (\<lambda>found.
     io_ensure found ''failed analytics job not found; pause worker before retry''
     (io_then (update (\<lambda>w. w\<lparr>ws_queue := update_first (\<lambda>j. jb_id j = i \<and> jb_status j = ''failed'')
         (\<lambda>j. j\<lparr>jb_attempts := 0, jb_status := ''pending'', jb_next_ms := 0\<rparr>) (ws_queue w),
         ws_reason := ''manual_retry_queued''\<rparr>)) (\<lambda>_. save lib)))"

section \<open>One cycle\<close>

record source =
  so_initialized :: nat
  so_tip :: nat
  so_hash :: string
  so_start :: nat
  so_revision :: nat

text \<open>The answers of the database and of the analysis during one cycle, and the heartbeats that pass
  while it runs.\<close>

record answers =
  an_source :: "source res"
  an_block :: "nat \<Rightarrow> string option res"
  an_page :: "nat \<Rightarrow> string \<Rightarrow> nat \<Rightarrow> json list res"
  an_again :: "nat res"
  an_beats :: nat
  an_result :: "string \<Rightarrow> json res"

definition begin_pass :: "source \<Rightarrow> (worker, unit) io" where
  "begin_pass src =
     inspect (\<lambda>w. checked_add64 (ws_pass w) 1) (\<lambda>p. io_need p ''analytics pass exhausted'' (\<lambda>p.
     update (\<lambda>w. w\<lparr>ws_pass := p, ws_next_sweep := 0, ws_reason := ''sweeping_canonical_addresses'',
       ws_sweep := Some \<lparr>sw_height = so_tip src, sw_hash = so_hash src, sw_start = so_start src,
                         sw_after = [], sw_exhausted = False\<rparr>\<rparr>)))"

definition job_id :: "worker_lib \<Rightarrow> worker_state \<Rightarrow> string \<Rightarrow> string" where
  "job_id lib w address =
     ''btc-job-'' @ wl_digest lib (JArr [JStr (ws_database w), JStr (ws_hash w), jnat (ws_pass w), JStr address])"

definition new_job :: "worker_lib \<Rightarrow> worker_state \<Rightarrow> string \<Rightarrow> job" where
  "new_job lib w address = \<lparr>jb_id = job_id lib w address, jb_address = address, jb_status = ''pending'',
     jb_attempts = 0, jb_next_ms = 0, jb_error = []\<rparr>"

definition add_address :: "worker_lib \<Rightarrow> string \<Rightarrow> worker_state \<Rightarrow> worker_state" where
  "add_address lib address w =
     w\<lparr>ws_queue := (if \<exists>j \<in> set (ws_queue w). jb_address j = address then ws_queue w
                     else ws_queue w @ [new_job lib w address]),
       ws_sweep := map_option (\<lambda>x. x\<lparr>sw_after := address\<rparr>) (ws_sweep w)\<rparr>"

definition add_row :: "worker_lib \<Rightarrow> json \<Rightarrow> (worker, unit) io" where
  "add_row lib row =
     io_need (as_str (field row ''address'')) ''canonical address missing'' (\<lambda>raw.
     io_attempt (wl_address lib raw) (\<lambda>a. update (add_address lib a)))"

definition discover :: "worker_lib \<Rightarrow> worker_config \<Rightarrow> answers \<Rightarrow> source \<Rightarrow> (worker, unit) io" where
  "discover lib c an src =
     inspect (\<lambda>w. (ws_sweep w, length (ws_queue w))) (\<lambda>(sweep, n).
     io_need sweep ''analytics scan missing'' (\<lambda>x.
     if sw_exhausted x \<or> max_queue \<le> n then io_return () else
     (let count = min (cf_page c) (max_queue - n) in
      io_attempt (an_page an (sw_height x) (sw_after x) (count + 1)) (\<lambda>rows.
      io_attempt (an_again an) (\<lambda>ver.
      io_ensure (ver = so_revision src) ''source changed during analytics discovery; cursor retained''
      (io_then (io_for (add_row lib) (take count rows)) (\<lambda>_.
       io_then (update (\<lambda>w. w\<lparr>ws_sweep := map_option (\<lambda>x. x\<lparr>sw_exhausted := length rows \<le> count\<rparr>) (ws_sweep w)\<rparr>)) (\<lambda>_.
       save lib))))))))"

definition active :: "worker_state \<Rightarrow> bool" where
  "active w \<longleftrightarrow> (\<exists>j \<in> set (ws_queue w). jb_status j \<noteq> ''failed'')"

definition swept :: "worker_state \<Rightarrow> bool" where
  "swept w \<longleftrightarrow> (case ws_sweep w of None \<Rightarrow> False | Some x \<Rightarrow> sw_exhausted x)"

text \<open>Whether the sweep's branch is gone.\<close>

definition branch_changed :: "answers \<Rightarrow> source \<Rightarrow> sweep option \<Rightarrow> bool res" where
  "branch_changed an src sweep = (case sweep of None \<Rightarrow> Inr False
     | Some x \<Rightarrow> if so_start src \<noteq> sw_start x \<or> so_tip src < sw_height x then Inr True
        else attempt (an_block an (sw_height x)) (\<lambda>b. Inr (b \<noteq> Some (sw_hash x))))"

definition reset :: "worker_lib \<Rightarrow> source \<Rightarrow> (worker, unit) io" where
  "reset lib src =
     io_then (update drop_queue) (\<lambda>_. io_then (begin_pass src) (\<lambda>_.
     io_then (update (\<lambda>w. w\<lparr>ws_reason := ''source_branch_changed_resweep''\<rparr>)) (\<lambda>_. save lib)))"

definition idle :: "worker_config \<Rightarrow> nat \<Rightarrow> worker_state \<Rightarrow> worker_state" where
  "idle c now w =
     w\<lparr>ws_next_sweep := (if swept w \<and> \<not> active w \<and> ws_next_sweep w = 0
                          then saturating_add64 now (cf_refresh c * 1000) else ws_next_sweep w),
       ws_phase := (if \<exists>j \<in> set (ws_queue w). jb_status j = ''failed'' then ''failed''
                    else if active w then ''waiting'' else ''idle''),
       ws_reason := (if max_queue \<le> length (ws_queue w) then ''queue_full_operator_attention_required''
                     else if active w then ''retry_backoff'' else if swept w then ''awaiting_next_sweep''
                     else ''discovery_pending'')\<rparr>"

definition start_job :: "nat \<Rightarrow> worker_state \<Rightarrow> worker_state" where
  "start_job i w =
     w\<lparr>ws_queue := (ws_queue w)[i := (ws_queue w ! i)\<lparr>jb_status := ''running'', jb_attempts := jb_attempts (ws_queue w ! i) + 1\<rparr>],
       ws_phase := ''running'', ws_reason := ''refreshing_address_analysis''\<rparr>"

definition attempt_job :: "worker_lib \<Rightarrow> worker_config \<Rightarrow> answers \<Rightarrow> nat \<Rightarrow> (worker, bool) io" where
  "attempt_job lib c an i =
     io_then (update (start_job i)) (\<lambda>_.
     io_then (save lib) (\<lambda>_.
     inspect (\<lambda>w. jb_address (ws_queue w ! i)) (\<lambda>address.
     io_then (io_for (\<lambda>_. save lib) [0..<an_beats an]) (\<lambda>_.
     io_then tick (\<lambda>now.
     io_then (update (finish c i (an_result an address) now)) (\<lambda>_.
     io_then (save lib) (\<lambda>_. io_return True)))))))"

definition resweep_due :: "nat \<Rightarrow> worker_state \<Rightarrow> bool" where
  "resweep_due now w \<longleftrightarrow> ws_sweep w = None \<or>
     swept w \<and> \<not> active w \<and> 0 < ws_next_sweep w \<and> ws_next_sweep w \<le> now"

definition wait_for_blocks :: "worker_state \<Rightarrow> worker_state" where
  "wait_for_blocks w = w\<lparr>ws_phase := ''waiting'', ws_reason := ''waiting_for_blocks''\<rparr>"

definition work_or_wait :: "worker_lib \<Rightarrow> worker_config \<Rightarrow> answers \<Rightarrow> nat \<Rightarrow> (worker, bool) io" where
  "work_or_wait lib c an now =
     io_then tick (\<lambda>now2. inspect (\<lambda>w. due w now2) (\<lambda>next. case next of
       Some i \<Rightarrow> attempt_job lib c an i
     | None \<Rightarrow> io_then (update (idle c now)) (\<lambda>_. io_then (save lib) (\<lambda>_. io_return False))))"

definition cycle_inner :: "worker_lib \<Rightarrow> worker_config \<Rightarrow> answers \<Rightarrow> (worker, bool) io" where
  "cycle_inner lib c an =
     io_attempt (an_source an) (\<lambda>src.
     if so_initialized src = 0
     then io_then (update wait_for_blocks) (\<lambda>_. io_then (save lib) (\<lambda>_. io_return False))
     else
       io_then tick (\<lambda>now.
       inspect ws_sweep (\<lambda>sweep.
       io_attempt (branch_changed an src sweep) (\<lambda>changed.
       io_then (if changed then reset lib src else io_return ()) (\<lambda>_.
       inspect (resweep_due now) (\<lambda>again.
       io_then (if again then io_then (begin_pass src) (\<lambda>_. save lib) else io_return ()) (\<lambda>_.
       inspect (\<lambda>w. due w now) (\<lambda>next.
       io_then (if next = None then discover lib c an src else io_return ()) (\<lambda>_.
       work_or_wait lib c an now)))))))))"

definition report_failure :: "worker_state \<Rightarrow> worker_state" where
  "report_failure w = w\<lparr>ws_phase := ''failed'', ws_reason := ''source_or_discovery_unavailable_cursor_retained''\<rparr>"

definition cycle :: "worker_lib \<Rightarrow> worker_config \<Rightarrow> string \<Rightarrow> answers \<Rightarrow> (worker, bool) io" where
  "cycle lib c database an =
     inspect ws_database (\<lambda>own. io_ensure (database = own) ''analytics database mismatch''
     (io_catch (cycle_inner lib c an) (\<lambda>e.
        io_then (update report_failure) (\<lambda>_. io_then (save lib) (\<lambda>_. io_fail e)))))"

text \<open>The loop of the long-running command: a failed cycle is reported and the loop goes on with the
  worker as it is.\<close>

fun run_cycles :: "worker_lib \<Rightarrow> worker_config \<Rightarrow> string \<Rightarrow> answers list \<Rightarrow> worker \<Rightarrow> worker" where
  "run_cycles lib c database [] s = s"
| "run_cycles lib c database (an # ans) s = run_cycles lib c database ans (snd (cycle lib c database an s))"

section \<open>Reading a checkpoint back\<close>

lemma reads_back [simp]:
  "text_at (JObj kvs) k f = (case map_of kvs k of Some (JStr s) \<Rightarrow> f s | _ \<Rightarrow> Inl ''invalid type: expected a string'')"
  "array_at (JObj kvs) k g = (case map_of kvs k of Some (JArr xs) \<Rightarrow> g xs | _ \<Rightarrow> Inl ''invalid type: expected a sequence'')"
  "bool_at (JObj kvs) k h = (case map_of kvs k of Some (JBool b) \<Rightarrow> h b | _ \<Rightarrow> Inl ''invalid type: expected a boolean'')"
  by (auto simp: text_at_def array_at_def bool_at_def split: option.split json.split)

lemma nat_at_jnat [simp]:
  "map_of kvs k = Some (jnat n) \<Longrightarrow> n < lim \<Longrightarrow> lim \<le> u64_lim \<Longrightarrow> nat_at lim (JObj kvs) k f = f n"
  by (simp add: nat_at_def)

definition job_bounded :: "job \<Rightarrow> bool" where
  "job_bounded j \<longleftrightarrow> jb_attempts j \<le> 20 \<and> jb_next_ms j < u64_lim"

definition sweep_bounded :: "sweep \<Rightarrow> bool" where
  "sweep_bounded w \<longleftrightarrow> sw_height w < u64_lim \<and> sw_start w < u64_lim"

definition state_bounded :: "worker_state \<Rightarrow> bool" where
  "state_bounded s \<longleftrightarrow> ws_generation s < u64_lim \<and> ws_pass s < u64_lim \<and> ws_heartbeat s < u64_lim \<and>
     ws_next_sweep s < u64_lim \<and> ws_succeeded s < u64_lim \<and> ws_failures s < u64_lim \<and> ws_abandoned s < u64_lim \<and>
     list_all job_bounded (ws_queue s) \<and> (case ws_sweep s of None \<Rightarrow> True | Some w \<Rightarrow> sweep_bounded w)"

lemma job_back: "job_bounded j \<Longrightarrow> job_of_json (job_json j) = Inr j"
  by (simp add: job_of_json_def job_json_def job_bounded_def only_keys_def u32_lim_val u64_lim_val)

lemma jobs_back: "list_all job_bounded q \<Longrightarrow> mapE job_of_json (map job_json q) = Inr q"
  by (induction q) (simp_all add: job_back)

lemma sweep_back: "sweep_bounded w \<Longrightarrow> sweep_of_json (sweep_json w) = Inr w"
  by (simp add: sweep_of_json_def sweep_json_def sweep_bounded_def only_keys_def)

lemma sweep_opt_back:
  "(case w of None \<Rightarrow> True | Some x \<Rightarrow> sweep_bounded x) \<Longrightarrow>
   (case jopt sweep_json w of JNull \<Rightarrow> Inr None | v \<Rightarrow> attempt (sweep_of_json v) (\<lambda>x. Inr (Some x))) = Inr w"
proof (cases w)
  case (Some x)
  moreover assume "case w of None \<Rightarrow> True | Some x \<Rightarrow> sweep_bounded x"
  ultimately have "sweep_of_json (sweep_json x) = Inr x" by (simp add: sweep_back)
  then show ?thesis using Some by (simp add: jopt_def sweep_json_def)
qed (simp add: jopt_def)

lemma state_back: "state_bounded s \<Longrightarrow> state_of_json (state_json s) = Inr s"
  unfolding state_of_json_def state_bounded_def
  by (simp add: state_json_def only_keys_def state_keys_def jobs_back sweep_opt_back member.simps)

section \<open>What the worker maintains\<close>

text \<open>The address parser gives canonical addresses, and identities of jobs for different addresses
  differ.\<close>

definition lib_ok :: "worker_lib \<Rightarrow> bool" where
  "lib_ok lib \<longleftrightarrow> (\<forall>raw a. wl_address lib raw = Inr a \<longrightarrow> wl_address lib a = Inr a) \<and>
     (\<forall>d h p p' a a'. wl_digest lib (JArr [JStr d, JStr h, p, JStr a]) = wl_digest lib (JArr [JStr d, JStr h, p', JStr a']) \<longrightarrow> a = a')"

definition job_ok :: "worker_lib \<Rightarrow> worker_config \<Rightarrow> worker_state \<Rightarrow> job \<Rightarrow> bool" where
  "job_ok lib c w j \<longleftrightarrow> wl_address lib (jb_address j) = Inr (jb_address j) \<and> jb_status j \<in> set statuses \<and>
     jb_attempts j \<le> cf_attempts c \<and> (waits j \<longrightarrow> jb_attempts j < cf_attempts c) \<and> jb_next_ms j < u64_lim \<and>
     (\<exists>p. jb_id j = ''btc-job-'' @ wl_digest lib (JArr [JStr (ws_database w), JStr (ws_hash w), p, JStr (jb_address j)]))"

definition jobs_ok :: "worker_lib \<Rightarrow> worker_config \<Rightarrow> worker_state \<Rightarrow> bool" where
  "jobs_ok lib c w \<longleftrightarrow> list_all (job_ok lib c w) (ws_queue w) \<and> distinct (map jb_address (ws_queue w))"

definition counts_ok :: "worker_state \<Rightarrow> bool" where
  "counts_ok s \<longleftrightarrow> ws_generation s < u64_lim \<and> ws_pass s < u64_lim \<and> ws_heartbeat s < u64_lim \<and>
     ws_next_sweep s < u64_lim \<and> ws_succeeded s < u64_lim \<and> ws_failures s < u64_lim \<and> ws_abandoned s < u64_lim \<and>
     (case ws_sweep s of None \<Rightarrow> True | Some w \<Rightarrow> sweep_bounded w)"

definition named_ok :: "worker_lib \<Rightarrow> worker_config \<Rightarrow> string \<Rightarrow> worker_state \<Rightarrow> bool" where
  "named_ok lib c database w \<longleftrightarrow> ws_contract w = worker_version \<and> ws_network w = network_id Bitcoin \<and>
     ws_database w = database \<and> ws_definition w = config_definition lib c \<and> ws_hash w = config_hash lib c \<and>
     ws_phase w \<in> set phases \<and> length (ws_recent w) \<le> max_recent"

definition state_ok :: "worker_lib \<Rightarrow> worker_config \<Rightarrow> string \<Rightarrow> worker_state \<Rightarrow> bool" where
  "state_ok lib c database w \<longleftrightarrow> named_ok lib c database w \<and> counts_ok w \<and> jobs_ok lib c w \<and>
     length (ws_queue w) \<le> max_queue"

definition config_ok :: "worker_config \<Rightarrow> bool" where
  "config_ok c \<longleftrightarrow> validate_config c = Inr ()"

lemma config_okD: "config_ok c \<Longrightarrow> 1 \<le> cf_attempts c \<and> cf_attempts c \<le> 20 \<and> cf_refresh c \<le> 86400"
  by (auto simp: config_ok_def validate_config_def ok_simps between_def)

lemma ids_distinct:
  assumes "lib_ok lib" "jobs_ok lib c w"
  shows "distinct (map jb_id (ws_queue w))"
proof -
  have "inj_on jb_id (set (ws_queue w))"
  proof (rule inj_onI)
    fix j k
    assume j: "j \<in> set (ws_queue w)" "k \<in> set (ws_queue w)" "jb_id j = jb_id k"
    with assms(2) have "jb_address j = jb_address k"
      using assms(1) unfolding jobs_ok_def list_all_iff job_ok_def lib_ok_def by (metis same_append_eq)
    with assms(2) j show "j = k" by (simp add: jobs_ok_def distinct_map inj_on_def)
  qed
  with assms(2) show ?thesis by (simp add: jobs_ok_def distinct_map)
qed

lemma jobs_check:
  assumes "\<forall>j \<in> set q. is_ok (wl_address lib (jb_address j)) \<and> jb_status j \<in> set statuses \<and> jb_attempts j \<le> 20"
    and "distinct (map jb_id q)" "jb_id ` set q \<inter> ids = {}"
  shows "is_ok (foldE (check_job lib) q ids)"
  using assms
proof (induction q arbitrary: ids)
  case (Cons j q)
  then obtain a where "wl_address lib (jb_address j) = Inr a" by (auto simp: is_ok_iff)
  with Cons.prems have "check_job lib j ids = Inr (insert (jb_id j) ids)" by (simp add: check_job_def)
  moreover have "is_ok (foldE (check_job lib) q (insert (jb_id j) ids))" using Cons.prems by (intro Cons.IH) auto
  ultimately show ?case by simp
qed simp

lemma frame_loads:
  assumes "lib_ok lib" "config_ok c" "state_ok lib c database w" "wl_size lib (frame_doc lib w) \<le> max_checkpoint"
  shows "load_frame lib database (frame_doc lib w) = Inr w"
proof -
  have "state_bounded w"
    using assms(2,3) config_okD[OF assms(2)]
    by (auto simp: state_bounded_def state_ok_def counts_ok_def jobs_ok_def job_bounded_def job_ok_def list_all_iff)
  then have b: "state_of_json (state_json w) = Inr w" by (rule state_back)
  have j: "jobs_ok lib c w" and n: "named_ok lib c database w" and q: "length (ws_queue w) \<le> max_queue"
    using assms(3) by (simp_all add: state_ok_def)
  have "is_ok (foldE (check_job lib) (ws_queue w) {})"
    using j config_okD[OF assms(2)] ids_distinct[OF assms(1) j]
    by (intro jobs_check) (auto simp: jobs_ok_def list_all_iff job_ok_def)
  then have "check_state lib database w = Inr w"
    using n q by (auto simp: check_state_def named_ok_def config_hash_def is_ok_iff)
  with b assms(4) show ?thesis by (simp add: load_frame_def frame_doc_def)
qed

text \<open>C40: a checkpoint the worker frames is read back as the very state it was made from.\<close>

theorem checkpoint_round_trip:
  assumes "lib_ok lib" "config_ok c" "state_ok lib c database w" "wl_size lib (frame_doc lib w) \<le> max_checkpoint"
  shows "load_frame lib database (frame_doc lib w) = Inr w"
  using frame_loads[OF assms] .

text \<open>The state in memory is sound, and so is what the file holds, perhaps from another configuration.\<close>

definition file_ok :: "worker_lib \<Rightarrow> worker_config \<Rightarrow> string \<Rightarrow> json \<Rightarrow> bool" where
  "file_ok lib c database doc \<longleftrightarrow> (\<exists>w c'. doc = frame_doc lib w \<and> wl_size lib doc \<le> max_checkpoint \<and> config_ok c' \<and>
     state_ok lib c' database w \<and> (config_hash lib c' = config_hash lib c \<longrightarrow> c' = c))"

definition stored_ok :: "worker_lib \<Rightarrow> worker_config \<Rightarrow> string \<Rightarrow> worker \<Rightarrow> bool" where
  "stored_ok lib c database s \<longleftrightarrow> (\<forall>t \<in> set (wk_clock s). t < u64_lim) \<and>
     (\<forall>doc. wk_file s = Some doc \<longrightarrow> file_ok lib c database doc)"

abbreviation worker_ok :: "worker_lib \<Rightarrow> worker_config \<Rightarrow> string \<Rightarrow> worker \<Rightarrow> bool" where
  "worker_ok lib c database s \<equiv> state_ok lib c database (wk_state s) \<and> stored_ok lib c database s"

lemma tick_runs:
  "runs (\<lambda>s. P (wk_state s) \<and> stored_ok lib c database s) tick
     (\<lambda>t s. t < u64_lim \<and> P (wk_state s) \<and> stored_ok lib c database s) E"
  by (rule runsI) (auto simp: tick_def stored_ok_def u64_lim_val split: list.splits)

lemma update_runs:
  "(\<And>w. P w \<Longrightarrow> Q (f w)) \<Longrightarrow> runs (\<lambda>s. P (wk_state s) \<and> stored_ok lib c database s) (update f)
     (\<lambda>_ s. Q (wk_state s) \<and> stored_ok lib c database s) E"
  unfolding update_def by (rule runs_modify) (simp add: stored_ok_def)

lemma inspect_runs:
  "(\<And>x. runs (\<lambda>s. (P (wk_state s) \<and> f (wk_state s) = x) \<and> stored_ok lib c database s) (k x) Q E) \<Longrightarrow>
   runs (\<lambda>s. P (wk_state s) \<and> stored_ok lib c database s) (inspect f k) Q E"
  unfolding inspect_def by (rule runs_get) (auto intro: runs_pre)

text \<open>A save changes only the generation and the heartbeat of the state it stores.\<close>

definition stamped :: "worker_state \<Rightarrow> worker_state \<Rightarrow> bool" where
  "stamped w w' \<longleftrightarrow> (\<exists>g t. g < u64_lim \<and> t < u64_lim \<and> w' = w\<lparr>ws_generation := g, ws_heartbeat := t\<rparr>)"

lemma stamped_ok: "stamped w w' \<Longrightarrow> state_ok lib c database w \<Longrightarrow> state_ok lib c database w'"
  by (auto simp: stamped_def state_ok_def named_ok_def counts_ok_def jobs_ok_def list_all_iff job_ok_def)

lemma stamped_queue: "stamped w w' \<Longrightarrow> ws_queue w' = ws_queue w"
  by (auto simp: stamped_def)

lemma save_runs:
  assumes "lib_ok lib" "config_ok c"
    and "\<And>w. P w \<Longrightarrow> state_ok lib c database w" "\<And>w w'. P w \<Longrightarrow> stamped w w' \<Longrightarrow> P w'"
  shows "runs (\<lambda>s. P (wk_state s) \<and> stored_ok lib c database s) (save lib)
    (\<lambda>_ s. P (wk_state s) \<and> stored_ok lib c database s) (\<lambda>s. P (wk_state s) \<and> stored_ok lib c database s)"
proof -
  let ?I = "\<lambda>s. P (wk_state s) \<and> stored_ok lib c database s"
  have stamp: "P (w\<lparr>ws_generation := g, ws_heartbeat := t\<rparr>)" if "P w" "g < u64_lim" "t < u64_lim" for w g t
    using assms(4)[OF that(1)] that by (auto simp: stamped_def)
  have k: "runs (\<lambda>s. (P (wk_state s) \<and> frame_doc lib (wk_state s) = doc) \<and> stored_ok lib c database s) (commit_doc doc) (\<lambda>_. ?I) ?I"
    if "wl_size lib doc \<le> max_checkpoint" for doc
  proof -
    have f: "file_ok lib c database (frame_doc lib w)" if "P w" "frame_doc lib w = doc" for w
      unfolding file_ok_def using that assms(2,3) \<open>wl_size lib doc \<le> max_checkpoint\<close>
      by (intro exI[of _ w] exI[of _ c]) auto
    show ?thesis
      by (rule runsI) (auto simp: commit_doc_def stored_ok_def intro: f split: list.splits disk_write.splits)
  qed
  show ?thesis
    unfolding save_def
  proof (intro runs_then[OF tick_runs], goal_cases)
    case (1 now)
    show ?case
    proof (cases "now < u64_lim")
      case True
      have u: "runs (\<lambda>s. (P (wk_state s) \<and> checked_add64 (ws_generation (wk_state s)) 1 = Some g) \<and> stored_ok lib c database s)
          (update (\<lambda>w. w\<lparr>ws_generation := g, ws_heartbeat := now\<rparr>)) (\<lambda>_. ?I) ?I" for g
        by (rule update_runs) (use True in \<open>auto intro!: stamp simp: checked_add64_def split: if_splits\<close>)
      show ?thesis
        by (rule runs_pre[where P = ?I],
          intro inspect_runs runs_need runs_then[OF runs_pre[OF u]] runs_ensure runs_attempt runs_pre[OF k], auto)
    qed (auto simp: runs_def)
  qed
qed

section \<open>Every step keeps the state sound\<close>

lemma job_ok_same: "ws_database w' = ws_database w \<Longrightarrow> ws_hash w' = ws_hash w \<Longrightarrow> job_ok lib c w' = job_ok lib c w"
  by (rule ext) (simp add: job_ok_def)

lemma state_okI:
  assumes "state_ok lib c database w" "ws_contract w' = ws_contract w" "ws_network w' = ws_network w"
    "ws_database w' = ws_database w" "ws_definition w' = ws_definition w" "ws_hash w' = ws_hash w"
    "ws_phase w' \<in> set phases" "length (ws_recent w') \<le> max_recent" "counts_ok w'"
    "list_all (job_ok lib c w) (ws_queue w')" "distinct (map jb_address (ws_queue w'))" "length (ws_queue w') \<le> max_queue"
  shows "state_ok lib c database w'"
  using assms job_ok_same[of w' w lib c] by (simp add: state_ok_def named_ok_def jobs_ok_def)

lemma state_okD:
  assumes "state_ok lib c database w"
  shows "length (ws_recent w) \<le> max_recent" "counts_ok w" "list_all (job_ok lib c w) (ws_queue w)"
    "distinct (map jb_address (ws_queue w))" "length (ws_queue w) \<le> max_queue" "ws_phase w \<in> set phases"
  using assms by (simp_all add: state_ok_def named_ok_def jobs_ok_def)

lemma interrupt_address [simp]: "jb_address (interrupt c msg j) = jb_address j"
  by (simp add: interrupt_def)

lemma map_interrupt_address [simp]: "map jb_address (map (interrupt c msg) q) = map jb_address q"
  by simp

lemma interrupt_ok: "job_ok lib c w j \<Longrightarrow> job_ok lib c w (interrupt c msg j)"
  by (auto simp: interrupt_def interrupt_status_def job_ok_def waits_def statuses_def u64_lim_val)

lemma interrupt_all_ok:
  assumes s: "state_ok lib c database w"
  shows "state_ok lib c database (w\<lparr>ws_queue := map (interrupt c msg) (ws_queue w), ws_phase := ''waiting'', ws_reason := r\<rparr>)"
  using state_okD[OF s]
  by (intro state_okI[OF s])
    (auto simp: counts_ok_def phases_def list_all_iff interrupt_ok comp_def)

lemma update_first_map:
  "(\<And>x. f (g x) = f x) \<Longrightarrow> map f (update_first p g xs) = map f xs"
  by (induction xs) auto

lemma update_first_all:
  "list_all q xs \<Longrightarrow> (\<And>x. q x \<Longrightarrow> p x \<Longrightarrow> q (g x)) \<Longrightarrow> list_all q (update_first p g xs)"
  by (induction xs) auto

lemma retry_ok:
  assumes "config_ok c" "state_ok lib c database w"
  shows "state_ok lib c database (w\<lparr>ws_queue := update_first p
     (\<lambda>j. j\<lparr>jb_attempts := 0, jb_status := ''pending'', jb_next_ms := 0\<rparr>) (ws_queue w), ws_reason := r\<rparr>)"
  using state_okD[OF assms(2)] config_okD[OF assms(1)]
  by (intro state_okI[OF assms(2)])
    (auto simp: counts_ok_def update_first_map update_first_nth(1) job_ok_def statuses_def u64_lim_val intro!: update_first_all)

definition source_ok :: "source \<Rightarrow> bool" where
  "source_ok src \<longleftrightarrow> so_tip src < u64_lim \<and> so_start src < u64_lim"

lemma begin_ok:
  assumes s: "state_ok lib c database w"
  shows "source_ok src \<Longrightarrow> p < u64_lim \<Longrightarrow>
   state_ok lib c database (w\<lparr>ws_pass := p, ws_next_sweep := 0, ws_reason := r, ws_sweep := Some
     \<lparr>sw_height = so_tip src, sw_hash = so_hash src, sw_start = so_start src, sw_after = [], sw_exhausted = False\<rparr>\<rparr>)"
  using state_okD[OF s]
  by (intro state_okI[OF s]) (auto simp: counts_ok_def source_ok_def sweep_bounded_def)

lemma drop_ok:
  assumes s: "state_ok lib c database w"
  shows "state_ok lib c database (drop_queue w)"
  using state_okD[OF s]
  by (intro state_okI[OF s]) (auto simp: drop_queue_def counts_ok_def saturating_add64_def u64_lim_val)

lemma phase_ok:
  assumes s: "state_ok lib c database w"
  shows "ph \<in> set phases \<Longrightarrow> state_ok lib c database (w\<lparr>ws_phase := ph, ws_reason := r\<rparr>)"
    "state_ok lib c database (w\<lparr>ws_reason := r\<rparr>)"
  using state_okD[OF s] by (auto intro!: state_okI[OF s] simp: counts_ok_def)

lemma idle_ok:
  assumes s: "state_ok lib c database w"
  shows "state_ok lib c database (idle c now w)"
  using state_okD[OF s]
  by (intro state_okI[OF s])
    (auto simp: idle_def counts_ok_def phases_def saturating_add64_def u64_lim_val)

lemma exhausted_ok:
  assumes s: "state_ok lib c database w"
  shows "state_ok lib c database (w\<lparr>ws_sweep := map_option (\<lambda>x. x\<lparr>sw_exhausted := b\<rparr>) (ws_sweep w)\<rparr>)"
  using state_okD[OF s]
  by (intro state_okI[OF s]) (auto simp: counts_ok_def sweep_bounded_def split: option.splits)

lemma add_address_ok:
  assumes "config_ok c" "state_ok lib c database w" "wl_address lib a = Inr a" "length (ws_queue w) < max_queue"
  shows "state_ok lib c database (add_address lib a w)" "length (ws_queue (add_address lib a w)) \<le> Suc (length (ws_queue w))"
proof -
  have "job_ok lib c w (new_job lib w a)"
    using assms(3) config_okD[OF assms(1)]
    by (auto simp: job_ok_def new_job_def job_id_def waits_def statuses_def u64_lim_val)
  then show "state_ok lib c database (add_address lib a w)"
    using state_okD[OF assms(2)] assms(4)
    by (intro state_okI[OF assms(2)])
      (auto simp: add_address_def counts_ok_def sweep_bounded_def new_job_def split: option.splits)
  show "length (ws_queue (add_address lib a w)) \<le> Suc (length (ws_queue w))" by (simp add: add_address_def)
qed

lemma start_ok:
  assumes "state_ok lib c database w" "i < length (ws_queue w)" "waits (ws_queue w ! i)"
  shows "state_ok lib c database (start_job i w)"
proof -
  have j: "job_ok lib c w (ws_queue w ! i)" using state_okD(3)[OF assms(1)] assms(2) by (simp add: list_all_length)
  then have "job_ok lib c w ((ws_queue w ! i)\<lparr>jb_status := ''running'', jb_attempts := jb_attempts (ws_queue w ! i) + 1\<rparr>)"
    using assms(3) by (auto simp: job_ok_def waits_def statuses_def)
  then have q: "list_all (job_ok lib c w) (ws_queue (start_job i w))"
    using state_okD(3)[OF assms(1)] assms(2) by (auto simp: start_job_def list_all_length nth_list_update)
  have "map jb_address (ws_queue (start_job i w)) = map jb_address (ws_queue w)"
    using assms(2) by (auto simp: start_job_def intro!: nth_equalityI simp: nth_list_update)
  with q state_okD[OF assms(1)] show ?thesis
    by (intro state_okI[OF assms(1)]) (simp_all add: start_job_def counts_ok_def phases_def)
qed

lemma start_length: "length (ws_queue (start_job i w)) = length (ws_queue w)"
  by (simp add: start_job_def)

lemma remove_nth_set: "set (remove_nth i xs) \<subseteq> set xs" "i < length xs \<Longrightarrow> length (remove_nth i xs) = length xs - 1"
  "map f (remove_nth i xs) = remove_nth i (map f xs)"
  by (auto simp: remove_nth_def take_map drop_map dest: in_set_takeD in_set_dropD)

lemma remove_nth_distinct: "distinct xs \<Longrightarrow> distinct (remove_nth i xs)"
proof -
  assume "distinct xs"
  then have "distinct (take i xs @ drop i xs)" "distinct (drop (Suc i) xs)" by (simp, rule distinct_drop)
  moreover have "set (drop (Suc i) xs) \<subseteq> set (drop i xs)" by (rule set_drop_subset_set_drop) simp
  ultimately show ?thesis by (auto simp: remove_nth_def simp del: append_take_drop_id)
qed

lemma finish_ok:
  assumes "state_ok lib c database w" "i < length (ws_queue w)"
  shows "state_ok lib c database (finish c i outcome now w)"
proof (cases outcome)
  case (Inr v)
  have "distinct (map jb_address (remove_nth i (ws_queue w)))"
    using state_okD(4)[OF assms(1)] by (simp add: remove_nth_set(3) remove_nth_distinct)
  moreover have "list_all (job_ok lib c w) (remove_nth i (ws_queue w))"
    using state_okD(3)[OF assms(1)] remove_nth_set(1)[of i "ws_queue w"] by (auto simp: list_all_iff)
  ultimately show ?thesis
    using state_okD[OF assms(1)] assms(2) remove_nth_set(2)[OF assms(2)] Inr
    by (intro state_okI[OF assms(1)])
      (auto simp: finish_def Let_def counts_ok_def phases_def saturating_add64_def u64_lim_val)
next
  case (Inl e)
  let ?j = "ws_queue w ! i"
  let ?k = "?j\<lparr>jb_status := interrupt_status c ?j, jb_error := take 256 (filter (\<lambda>ch. \<not> is_control ch) e),
     jb_next_ms := saturating_add64 now (retry_delay c (jb_attempts ?j) * 1000)\<rparr>"
  have "job_ok lib c w ?j" using state_okD(3)[OF assms(1)] assms(2) by (simp add: list_all_length)
  then have "job_ok lib c w ?k"
    by (auto simp: job_ok_def interrupt_status_def waits_def statuses_def saturating_add64_def u64_lim_val)
  then have q: "list_all (job_ok lib c w) ((ws_queue w)[i := ?k])"
    using state_okD(3)[OF assms(1)] assms(2) by (auto simp: list_all_length nth_list_update)
  have "map jb_address ((ws_queue w)[i := ?k]) = map jb_address (ws_queue w)"
    using assms(2) by (auto intro!: nth_equalityI simp: nth_list_update)
  with q state_okD[OF assms(1)] Inl show ?thesis
    by (intro state_okI[OF assms(1)])
      (auto simp: finish_def Let_def counts_ok_def phases_def saturating_add64_def u64_lim_val)
qed

section \<open>Every run keeps the worker sound\<close>

definition answers_ok :: "answers \<Rightarrow> bool" where
  "answers_ok an \<longleftrightarrow> (\<forall>src. an_source an = Inr src \<longrightarrow> source_ok src)"

abbreviation keeps_worker :: "worker_lib \<Rightarrow> worker_config \<Rightarrow> string \<Rightarrow> (worker, 'a) io \<Rightarrow> bool" where
  "keeps_worker lib c database m \<equiv> runs (worker_ok lib c database) m (\<lambda>_. worker_ok lib c database) (worker_ok lib c database)"

lemma save_keeps: "lib_ok lib \<Longrightarrow> config_ok c \<Longrightarrow> keeps_worker lib c database (save lib)"
  by (rule save_runs) (auto intro: stamped_ok)

lemma update_keeps:
  "(\<And>w. state_ok lib c database w \<Longrightarrow> state_ok lib c database (f w)) \<Longrightarrow> keeps_worker lib c database (update f)"
  by (rule update_runs)

lemma update_save_keeps:
  assumes "lib_ok lib" "config_ok c" "\<And>w. state_ok lib c database w \<Longrightarrow> state_ok lib c database (f w)"
  shows "keeps_worker lib c database (io_then (update f) (\<lambda>_. save lib))"
  by (rule runs_then[OF update_keeps save_keeps]) (use assms in auto)

lemma pause_keeps: "lib_ok lib \<Longrightarrow> config_ok c \<Longrightarrow> keeps_worker lib c database (pause lib c)"
  unfolding pause_def by (rule update_save_keeps) (auto intro: interrupt_all_ok)

lemma retry_keeps: "lib_ok lib \<Longrightarrow> config_ok c \<Longrightarrow> keeps_worker lib c database (retry lib i)"
  unfolding retry_def
  by (intro inspect_runs runs_ensure runs_pre[OF update_save_keeps]) (auto intro: retry_ok)

lemma begin_keeps: "source_ok src \<Longrightarrow> keeps_worker lib c database (begin_pass src)"
  unfolding begin_pass_def
  by (intro inspect_runs runs_need update_runs[where Q = "state_ok lib c database"])
    (auto simp: checked_add64_def intro!: begin_ok split: if_splits)

lemma reset_keeps:
  assumes "lib_ok lib" "config_ok c" "source_ok src"
  shows "keeps_worker lib c database (reset lib src)"
  unfolding reset_def
  by (intro runs_then[OF update_keeps] runs_then[OF begin_keeps] save_keeps assms)
    (auto intro: drop_ok phase_ok(2))

lemma add_row_runs:
  assumes "lib_ok lib" "config_ok c" "n < max_queue"
  shows "runs (\<lambda>s. (state_ok lib c database (wk_state s) \<and> length (ws_queue (wk_state s)) \<le> n) \<and> stored_ok lib c database s)
    (add_row lib row)
    (\<lambda>_ s. (state_ok lib c database (wk_state s) \<and> length (ws_queue (wk_state s)) \<le> Suc n) \<and> stored_ok lib c database s)
    (worker_ok lib c database)"
  unfolding add_row_def
proof (intro runs_need runs_attempt, goal_cases)
  case (1 raw a)
  then have "wl_address lib a = Inr a" using assms(1) by (simp add: lib_ok_def)
  with add_address_ok[OF assms(2)] assms(3) show ?case
    by (intro update_runs[where Q = "\<lambda>w. state_ok lib c database w \<and> length (ws_queue w) \<le> Suc n"]) fastforce
qed auto

lemma discover_keeps:
  assumes "lib_ok lib" "config_ok c"
  shows "keeps_worker lib c database (discover lib c an src)"
  unfolding discover_def
proof (rule inspect_runs, clarify)
  fix sweep n
  let ?P = "\<lambda>w. state_ok lib c database w \<and> (ws_sweep w, length (ws_queue w)) = (sweep, n)"
  let ?I = "worker_ok lib c database"
  let ?R = "\<lambda>k s. (state_ok lib c database (wk_state s) \<and> length (ws_queue (wk_state s)) \<le> k) \<and> stored_ok lib c database s"
  show "runs (\<lambda>s. ?P (wk_state s) \<and> stored_ok lib c database s) (io_need sweep ''analytics scan missing'' (\<lambda>x.
     if sw_exhausted x \<or> max_queue \<le> n then io_return () else
     (let count = min (cf_page c) (max_queue - n) in
      io_attempt (an_page an (sw_height x) (sw_after x) (count + 1)) (\<lambda>rows.
      io_attempt (an_again an) (\<lambda>ver.
      io_ensure (ver = so_revision src) ''source changed during analytics discovery; cursor retained''
      (io_then (io_for (add_row lib) (take count rows)) (\<lambda>_.
       io_then (update (\<lambda>w. w\<lparr>ws_sweep := map_option (\<lambda>x. x\<lparr>sw_exhausted := length rows \<le> count\<rparr>) (ws_sweep w)\<rparr>)) (\<lambda>_.
       save lib)))))))) (\<lambda>_. ?I) ?I"
    unfolding Let_def
  proof (intro runs_need runs_if runs_attempt runs_ensure, goal_cases)
    case (2 x rows ver)
    let ?rows = "take (min (cf_page c) (max_queue - n)) rows"
    have len: "n + length ?rows \<le> max_queue" using 2(2) by auto
    have "runs (?R n) (io_for (add_row lib) ?rows) (\<lambda>_. ?R (n + length ?rows)) ?I"
      using len by (intro runs_for_counted add_row_runs assms) auto
    then have "runs (\<lambda>s. ?P (wk_state s) \<and> stored_ok lib c database s) (io_for (add_row lib) ?rows) (\<lambda>_. ?I) ?I"
      by (rule runs_post[OF runs_pre]) auto
    then show ?case
      by (rule runs_then[OF _ update_save_keeps[OF assms]]) (rule exhausted_ok)
  qed (auto intro: runs_return)
qed

lemma attempt_keeps:
  assumes "lib_ok lib" "config_ok c"
  shows "runs (\<lambda>s. (state_ok lib c database (wk_state s) \<and> i < length (ws_queue (wk_state s)) \<and> waits (ws_queue (wk_state s) ! i))
      \<and> stored_ok lib c database s)
    (attempt_job lib c an i) (\<lambda>_. worker_ok lib c database) (worker_ok lib c database)"
proof -
  let ?P = "\<lambda>w. state_ok lib c database w \<and> i < length (ws_queue w)"
  let ?I = "worker_ok lib c database"
  have start: "runs (\<lambda>s. (state_ok lib c database (wk_state s) \<and> i < length (ws_queue (wk_state s)) \<and>
      waits (ws_queue (wk_state s) ! i)) \<and> stored_ok lib c database s) (update (start_job i))
      (\<lambda>_ s. ?P (wk_state s) \<and> stored_ok lib c database s) ?I"
    by (rule update_runs) (auto intro: start_ok simp: start_length)
  have save: "runs (\<lambda>s. ?P (wk_state s) \<and> stored_ok lib c database s) (save lib)
      (\<lambda>_ s. ?P (wk_state s) \<and> stored_ok lib c database s) (\<lambda>s. ?P (wk_state s) \<and> stored_ok lib c database s)"
  proof (rule save_runs[OF assms])
    fix w w'
    assume p: "?P w" and st: "stamped w w'"
    show "?P w'" using p stamped_ok[OF st] stamped_queue[OF st] by simp
  qed simp
  then have save': "runs (\<lambda>s. ?P (wk_state s) \<and> stored_ok lib c database s) (save lib)
      (\<lambda>_ s. ?P (wk_state s) \<and> stored_ok lib c database s) ?I"
    by (rule runs_err) simp
  have beats: "runs (\<lambda>s. ?P (wk_state s) \<and> stored_ok lib c database s) (io_for (\<lambda>_. save lib) [0..<an_beats an])
      (\<lambda>_ s. ?P (wk_state s) \<and> stored_ok lib c database s) ?I"
    by (rule runs_for) (rule save')
  have fin: "runs (\<lambda>s. now < u64_lim \<and> ?P (wk_state s) \<and> stored_ok lib c database s) (update (finish c i q now)) (\<lambda>_. ?I) ?I" for now q
    by (rule runs_pre[OF update_runs[where P = ?P]]) (auto intro: finish_ok)
  show ?thesis
    unfolding attempt_job_def
    by (intro runs_then[OF start] runs_then[OF save'] inspect_runs runs_then[OF runs_pre[OF beats]] runs_then[OF tick_runs]
        runs_then[OF fin] runs_then[OF save_keeps] runs_return assms) auto
qed

lemma due_ready: "due w now = Some i \<Longrightarrow> i < length (ws_queue w) \<and> waits (ws_queue w ! i)"
proof -
  have f: "fold (\<lambda>k best. if due_before q k best then k else best) js i \<in> insert i (set js)" for q js i
    by (induction js arbitrary: i) fastforce+
  assume "due w now = Some i"
  then have "i \<in> set (ready w now)"
    using f by (force simp: due_def split: list.splits)
  then show ?thesis by (simp add: ready_def)
qed

lemma work_keeps:
  assumes "lib_ok lib" "config_ok c"
  shows "keeps_worker lib c database (work_or_wait lib c an now)"
  unfolding work_or_wait_def
proof (intro runs_then[OF tick_runs])
  fix t
  let ?I = "worker_ok lib c database"
  have "runs ?I (inspect (\<lambda>w. due w t) (\<lambda>next. case next of Some i \<Rightarrow> attempt_job lib c an i
     | None \<Rightarrow> io_then (update (idle c now)) (\<lambda>_. io_then (save lib) (\<lambda>_. io_return False)))) (\<lambda>_. ?I) ?I"
  proof (intro inspect_runs runs_option, goal_cases)
    case (1 x)
    show ?case
      by (rule runs_pre[OF runs_then[OF update_keeps runs_then[OF save_keeps runs_return]]])
        (use assms idle_ok in auto)
  next
    case (2 x i)
    show ?case
      by (rule runs_pre[OF attempt_keeps]) (use assms 2 due_ready in auto)
  qed
  then show "runs (\<lambda>s. t < u64_lim \<and> ?I s) (inspect (\<lambda>w. due w t) (\<lambda>next. case next of Some i \<Rightarrow> attempt_job lib c an i
     | None \<Rightarrow> io_then (update (idle c now)) (\<lambda>_. io_then (save lib) (\<lambda>_. io_return False)))) (\<lambda>_. ?I) ?I"
    by (rule runs_pre) auto
qed

lemma keeps_bind:
  "keeps_worker lib c database m \<Longrightarrow> (\<And>x. keeps_worker lib c database (k x)) \<Longrightarrow> keeps_worker lib c database (io_then m k)"
  by (rule runs_then)

lemma keeps_tick:
  "(\<And>t. keeps_worker lib c database (k t)) \<Longrightarrow> keeps_worker lib c database (io_then tick k)"
  by (rule runs_then[OF tick_runs]) (auto intro: runs_pre)

lemma keeps_inspect:
  "(\<And>x. keeps_worker lib c database (k x)) \<Longrightarrow> keeps_worker lib c database (inspect f k)"
  by (intro inspect_runs) (auto intro: runs_pre)

lemma keeps_attempt:
  "(\<And>x. r = Inr x \<Longrightarrow> keeps_worker lib c database (k x)) \<Longrightarrow> keeps_worker lib c database (io_attempt r k)"
  by (rule runs_attempt) auto

lemma keeps_return: "keeps_worker lib c database (io_return x)"
  by (rule runs_return)

lemma cycle_inner_keeps:
  assumes "lib_ok lib" "config_ok c" "answers_ok an"
  shows "keeps_worker lib c database (cycle_inner lib c an)"
  unfolding cycle_inner_def
proof (intro keeps_attempt runs_if keeps_tick keeps_inspect keeps_bind keeps_return save_keeps reset_keeps begin_keeps
    discover_keeps work_keeps update_keeps assms(1,2))
  show "state_ok lib c database (wait_for_blocks w)" if "state_ok lib c database w" for w
    unfolding wait_for_blocks_def by (rule phase_ok(1)[OF that]) (simp add: phases_def)
qed (use assms(3) in \<open>auto simp: answers_ok_def\<close>)

lemma cycle_keeps:
  assumes "lib_ok lib" "config_ok c" "answers_ok an"
  shows "keeps_worker lib c database (cycle lib c db an)"
  unfolding cycle_def
proof (intro keeps_inspect runs_ensure)
  fix own
  have "keeps_worker lib c database (update report_failure)"
    unfolding report_failure_def by (rule update_keeps) (rule phase_ok(1), simp_all add: phases_def)
  then have h: "keeps_worker lib c database (io_then (update report_failure) (\<lambda>_. io_then (save lib) (\<lambda>_. io_fail e)))" for e
    by (rule runs_then[OF _ runs_then[OF save_keeps[OF assms(1,2)] runs_fail]]) simp
  show "keeps_worker lib c database
      (io_catch (cycle_inner lib c an) (\<lambda>e. io_then (update report_failure) (\<lambda>_. io_then (save lib) (\<lambda>_. io_fail e))))"
    by (rule runs_catch[OF cycle_inner_keeps[OF assms] h])
qed auto

lemma run_keeps:
  assumes "lib_ok lib" "config_ok c" "\<forall>an \<in> set ans. answers_ok an" "worker_ok lib c database s"
  shows "worker_ok lib c database (run_cycles lib c db ans s)"
  using assms(3,4)
proof (induction ans arbitrary: s)
  case (Cons an ans)
  obtain r t where t: "cycle lib c db an s = (r, t)" by (cases "cycle lib c db an s")
  have "worker_ok lib c database t"
    by (rule runs_state[OF cycle_keeps[OF assms(1,2)] _ t]) (use Cons.prems in auto)
  with Cons t show ?case by simp
qed simp

lemma open_keeps:
  assumes "lib_ok lib" "stored_ok lib c database s" "open_worker lib database c s = (r, t)"
  shows "stored_ok lib c database t \<and> (r = Inr () \<longrightarrow> config_ok c \<and> worker_ok lib c database t)"
proof (cases "config_ok c \<and> sql_identifier database = Inr ()")
  case True
  then have c: "config_ok c" by simp
  let ?load = "case wk_file s of None \<Rightarrow> Inr (worker_new lib database c) | Some doc \<Rightarrow> load_frame lib database doc"
  show ?thesis
  proof (cases ?load)
    case (Inl e)
    with assms(2,3) True show ?thesis by (auto simp: open_worker_def config_ok_def io_attempt_def io_get_def)
  next
    case (Inr w)
    have "state_ok lib c database (resume lib c w)"
    proof (cases "wk_file s")
      case None
      then have "w = worker_new lib database c" using Inr by simp
      then have "state_ok lib c database w"
        by (simp add: worker_new_def state_ok_def named_ok_def counts_ok_def jobs_ok_def phases_def u64_lim_val)
      moreover from this have "ws_hash w = config_hash lib c" by (simp add: state_ok_def named_ok_def)
      ultimately show ?thesis using interrupt_all_ok by (simp add: resume_def)
    next
      case (Some doc)
      with assms(2) obtain v c' where v: "doc = frame_doc lib v" "wl_size lib doc \<le> max_checkpoint" "config_ok c'"
        "state_ok lib c' database v" "config_hash lib c' = config_hash lib c \<longrightarrow> c' = c"
        by (auto simp: stored_ok_def file_ok_def)
      have w: "w = v" using frame_loads[OF assms(1) v(3,4)] v(1,2) Inr Some by simp
      have n: "named_ok lib c' database v" "counts_ok v" using v(4) by (simp_all add: state_ok_def)
      show ?thesis
      proof (cases "ws_hash v = config_hash lib c")
        case True
        then have "state_ok lib c database v" using v(4,5) n by (simp add: named_ok_def)
        then show ?thesis using True w interrupt_all_ok by (simp add: resume_def)
      next
        case False
        then show ?thesis
          using n w by (simp add: resume_def drop_queue_def state_ok_def named_ok_def counts_ok_def jobs_ok_def
              phases_def config_hash_def saturating_add64_def u64_lim_val)
      qed
    qed
    moreover have run: "open_worker lib database c s = save lib (s\<lparr>wk_state := resume lib c w\<rparr>)"
      using True Inr by (simp add: open_worker_def config_ok_def io_attempt_def io_get_def io_then_def update_def io_modify_def)
    ultimately have "worker_ok lib c database (s\<lparr>wk_state := resume lib c w\<rparr>)"
      using assms(2) by (simp add: stored_ok_def)
    from runs_state[OF save_keeps[OF assms(1) c] this] assms(3) run c show ?thesis by simp
  qed
next
  case False
  with assms(2,3) show ?thesis
    by (cases "validate_config c"; cases "sql_identifier database")
      (auto simp: open_worker_def config_ok_def io_attempt_def)
qed



section \<open>A job whose checkpoint failed\<close>

lemma save_queue: "save lib s = (r, t) \<Longrightarrow> ws_queue (wk_state t) = ws_queue (wk_state s)"
  unfolding save_def
  by (auto simp: io_then_def tick_def inspect_def io_get_def io_need_def io_attempt_def io_ensure_def update_def
      io_modify_def commit_doc_def split: list.splits option.splits sum.splits if_splits disk_write.splits)

lemma save_on_queue: "runs (\<lambda>s. P (ws_queue (wk_state s))) (save lib) (\<lambda>_ s. P (ws_queue (wk_state s))) (\<lambda>s. P (ws_queue (wk_state s)))"
  by (rule runsI) (simp_all add: save_queue)

lemma update_on_queue:
  "(\<And>w. P (ws_queue w) \<Longrightarrow> Q (ws_queue (f w))) \<Longrightarrow>
   runs (\<lambda>s. P (ws_queue (wk_state s))) (update f) (\<lambda>_ s. Q (ws_queue (wk_state s))) E"
  unfolding update_def by (rule runs_modify) simp

lemma tick_on_queue:
  "(\<And>t. runs (\<lambda>s. P (ws_queue (wk_state s))) (k t) Q E) \<Longrightarrow> runs (\<lambda>s. P (ws_queue (wk_state s))) (io_then tick k) Q E"
  by (rule runs_then[where R = "\<lambda>_ s. P (ws_queue (wk_state s))"])
    (auto simp: tick_def runs_def split: list.splits)

abbreviation "queued j \<equiv> (\<lambda>s. j \<in> set (ws_queue (wk_state s)))"

abbreviation leaves_job :: "job \<Rightarrow> (worker, 'a) io \<Rightarrow> bool" where
  "leaves_job j m \<equiv> runs (queued j) m (\<lambda>_. queued j) (queued j)"

lemma leaves_save: "leaves_job j (save lib)"
  by (rule save_on_queue)

lemma leaves_update: "(\<And>w. j \<in> set (ws_queue w) \<Longrightarrow> j \<in> set (ws_queue (f w))) \<Longrightarrow> leaves_job j (update f)"
  by (rule update_on_queue)

lemma on_inspect: "(\<And>w. runs (\<lambda>s. P s \<and> wk_state s = w) (k (f w)) Q E) \<Longrightarrow> runs P (inspect f k) Q E"
  by (auto simp: runs_def inspect_def io_get_def)

lemma leaves_inspect: "(\<And>x. leaves_job j (k x)) \<Longrightarrow> leaves_job j (inspect f k)"
  by (rule on_inspect) (rule runs_pre[where P = "queued j"], auto)

lemma leaves_then: "leaves_job j m \<Longrightarrow> (\<And>x. leaves_job j (k x)) \<Longrightarrow> leaves_job j (io_then m k)"
  by (rule runs_then)

lemma leaves_tick: "(\<And>t. leaves_job j (k t)) \<Longrightarrow> leaves_job j (io_then tick k)"
  by (rule tick_on_queue)

lemma leaves_return: "leaves_job j (io_return x)"
  by (rule runs_return)

lemma leaves_begin: "leaves_job j (begin_pass src)"
  unfolding begin_pass_def by (intro leaves_inspect runs_need leaves_update) auto

lemma leaves_row: "leaves_job j (add_row lib row)"
  unfolding add_row_def by (intro runs_need runs_attempt leaves_update) (auto simp: add_address_def)

lemma leaves_discover: "leaves_job j (discover lib c an src)"
  unfolding discover_def Let_def
proof (rule leaves_inspect, clarify, intro runs_need runs_if runs_attempt runs_ensure leaves_then leaves_save leaves_return leaves_update)
  show "leaves_job j (io_for (add_row lib) rows)" for rows
    by (rule runs_for) (rule leaves_row)
qed auto

text \<open>Another place of the queue holds the job.\<close>

definition elsewhere :: "nat \<Rightarrow> job \<Rightarrow> job list \<Rightarrow> bool" where
  "elsewhere i j q \<longleftrightarrow> (\<exists>k < length q. k \<noteq> i \<and> q ! k = j)"

lemma start_elsewhere:
  "j \<in> set (ws_queue w) \<Longrightarrow> jb_status j = ''running'' \<Longrightarrow> waits (ws_queue w ! i) \<Longrightarrow>
   elsewhere i j (ws_queue (start_job i w))"
proof -
  assume j: "j \<in> set (ws_queue w)" "jb_status j = ''running''" "waits (ws_queue w ! i)"
  then obtain k where "k < length (ws_queue w)" "ws_queue w ! k = j" by (auto simp: in_set_conv_nth)
  moreover from this j have "k \<noteq> i" by (auto simp: waits_def)
  ultimately show ?thesis by (auto simp: elsewhere_def start_job_def intro!: exI[of _ k])
qed

lemma remove_elsewhere: "elsewhere i j q \<Longrightarrow> j \<in> set (remove_nth i q)"
proof -
  assume "elsewhere i j q"
  then obtain k where k: "k < length q" "k \<noteq> i" "q ! k = j" by (auto simp: elsewhere_def)
  show ?thesis
  proof (cases "k < i")
    case True
    with k have "take i q ! k = j" "k < length (take i q)" by auto
    then show ?thesis unfolding remove_nth_def by (metis in_set_conv_nth set_append UnI1)
  next
    case False
    with k have "drop (Suc i) q ! (k - Suc i) = j" "k - Suc i < length (drop (Suc i) q)" by auto
    then show ?thesis unfolding remove_nth_def by (metis in_set_conv_nth set_append UnI2)
  qed
qed

lemma finish_elsewhere: "elsewhere i j (ws_queue w) \<Longrightarrow> j \<in> set (ws_queue (finish c i r now w))"
proof (cases r)
  case (Inl e)
  assume "elsewhere i j (ws_queue w)"
  then obtain k where "k < length (ws_queue w)" "k \<noteq> i" "ws_queue w ! k = j" by (auto simp: elsewhere_def)
  with Inl show ?thesis by (auto simp: finish_def Let_def in_set_conv_nth nth_list_update intro!: exI[of _ k])
qed (simp add: finish_def Let_def remove_elsewhere)

lemma attempt_leaves:
  assumes "jb_status j = ''running''" "waits (ws_queue w ! i)"
  shows "runs (\<lambda>s. queued j s \<and> wk_state s = w) (attempt_job lib c an i) (\<lambda>_. queued j) (queued j)"
proof -
  let ?E = "\<lambda>s. elsewhere i j (ws_queue (wk_state s))"
  have e: "queued j s" if "?E s" for s using that by (auto simp: elsewhere_def)
  have save: "runs ?E (save lib) (\<lambda>_. ?E) (queued j)"
    by (rule runs_err[OF save_on_queue[of "elsewhere i j"] e])
  have start: "runs (\<lambda>s. queued j s \<and> wk_state s = w) (update (start_job i)) (\<lambda>_. ?E) (queued j)"
    unfolding update_def by (rule runs_modify) (use start_elsewhere[OF _ assms] in auto)
  have fin: "runs ?E (update (finish c i r now)) (\<lambda>_. queued j) (queued j)" for r now
    by (rule update_on_queue[where P = "elsewhere i j" and Q = "\<lambda>q. j \<in> set q"]) (rule finish_elsewhere)
  have rest: "runs ?E (io_then (io_for (\<lambda>_. save lib) [0..<an_beats an]) (\<lambda>_. io_then tick (\<lambda>now.
      io_then (update (finish c i r now)) (\<lambda>_. io_then (save lib) (\<lambda>_. io_return True))))) (\<lambda>_. queued j) (queued j)" for r
    by (rule runs_then[OF runs_for[OF save]])
      (intro tick_on_queue[where P = "elsewhere i j"] runs_then[OF fin] leaves_then leaves_save leaves_return)
  show ?thesis
    unfolding attempt_job_def
    by (intro runs_then[OF start] runs_then[OF save] on_inspect runs_pre[OF rest]) simp
qed

lemma work_leaves:
  assumes "jb_status j = ''running''"
  shows "leaves_job j (work_or_wait lib c an now)"
  unfolding work_or_wait_def
proof (intro leaves_tick on_inspect runs_option, goal_cases)
  case (1 t w)
  show ?case
    by (rule runs_pre[of "queued j"], intro leaves_then leaves_update leaves_save leaves_return) (auto simp: idle_def)
next
  case (2 t w i)
  show ?case by (rule attempt_leaves) (use assms due_ready[OF 2] in auto)
qed

lemma cycle_inner_leaves:
  assumes "jb_status j = ''running''"
    and "\<And>src. an_source an = Inr src \<Longrightarrow> branch_changed an src (ws_sweep w) \<noteq> Inr True"
  shows "runs (\<lambda>s. queued j s \<and> wk_state s = w) (cycle_inner lib c an) (\<lambda>_. queued j) (queued j)"
  unfolding cycle_inner_def
proof (intro runs_attempt runs_if, goal_cases)
  case (1 src)
  show ?case
    by (rule runs_pre[of "queued j"], intro leaves_then leaves_update leaves_save leaves_return) (auto simp: wait_for_blocks_def)
next
  case (2 src)
  let ?P = "\<lambda>s. queued j s \<and> wk_state s = w"
  have tick: "runs ?P tick (\<lambda>_. ?P) (queued j)"
    by (auto simp: tick_def runs_def split: list.splits)
  have rest: "leaves_job j (io_then (if False then reset lib src else io_return ()) (\<lambda>_.
       inspect (resweep_due now) (\<lambda>again.
       io_then (if again then io_then (begin_pass src) (\<lambda>_. save lib) else io_return ()) (\<lambda>_.
       inspect (\<lambda>w. due w now) (\<lambda>next.
       io_then (if next = None then discover lib c an src else io_return ()) (\<lambda>_.
       work_or_wait lib c an now))))))" for now
    unfolding if_False
    by (intro leaves_inspect leaves_then leaves_return runs_if leaves_begin leaves_save leaves_discover work_leaves assms(1))
  show ?case
  proof (rule runs_then[OF tick], rule on_inspect, goal_cases)
    case (1 now v)
    show ?case
    proof (cases "v = w")
      case True
      show ?thesis
      proof (rule runs_attempt)
        fix changed
        assume "branch_changed an src (ws_sweep v) = Inr changed"
        with assms(2)[OF 2(1)] True have "changed = False" by auto
        then show "runs (\<lambda>s. ?P s \<and> wk_state s = v) (io_then (if changed then reset lib src else io_return ()) (\<lambda>_.
           inspect (resweep_due now) (\<lambda>again.
           io_then (if again then io_then (begin_pass src) (\<lambda>_. save lib) else io_return ()) (\<lambda>_.
           inspect (\<lambda>w. due w now) (\<lambda>next.
           io_then (if next = None then discover lib c an src else io_return ()) (\<lambda>_.
           work_or_wait lib c an now)))))) (\<lambda>_. queued j) (queued j)"
          by (simp only: if_False) (rule runs_pre[OF rest[unfolded if_False]], blast)
      qed (elim conjE)
    qed (auto simp: runs_def)
  qed
qed auto

text \<open>C39: a job left running by a failed checkpoint is not attempted again: as long as the branch of the
  sweep stands, every later cycle, whatever the database answers and however the cycle ends, leaves the
  job in the queue as it was.\<close>

theorem stranded_job_stays:
  assumes "j \<in> set (ws_queue (wk_state s))" "jb_status j = ''running''"
    and "\<And>src. an_source an = Inr src \<Longrightarrow> branch_changed an src (ws_sweep (wk_state s)) \<noteq> Inr True"
    and "cycle lib c database an s = (r, t)"
  shows "j \<in> set (ws_queue (wk_state t))"
proof -
  have f: "leaves_job j (io_then (update report_failure) (\<lambda>_. io_then (save lib) (\<lambda>_. io_fail e)))" for e
    by (intro leaves_then leaves_update leaves_save runs_fail) (auto simp: report_failure_def)
  have i: "runs (\<lambda>s'. queued j s' \<and> wk_state s' = wk_state s) (cycle_inner lib c an) (\<lambda>_. queued j) (queued j)"
    by (rule cycle_inner_leaves) (use assms in auto)
  have "runs (\<lambda>s'. queued j s' \<and> wk_state s' = wk_state s) (cycle lib c database an) (\<lambda>_. queued j) (queued j)"
    unfolding cycle_def
    by (rule on_inspect) (auto intro!: runs_ensure runs_pre[OF runs_catch[OF i f]])
  with assms(1,4) show ?thesis by (cases r) (auto simp: runs_def dest!: spec[of _ s])
qed


section \<open>A worker on sample data\<close>

definition sample_lib :: worker_lib where
  "sample_lib = \<lparr>wl_digest = (\<lambda>v. case v of JArr [_, _, _, JStr a] \<Rightarrow> a | _ \<Rightarrow> ''h''), wl_size = (\<lambda>_. 0),
     wl_address = Inr, wl_risk = JNull\<rparr>"

definition sample_config :: worker_config where
  "sample_config = \<lparr>cf_directory = ''/state'', cf_page = 10, cf_poll = 1, cf_refresh = 10, cf_timeout = 1, cf_retry = 1,
     cf_attempts = 3\<rparr>"

definition sample_answers :: answers where
  "sample_answers = \<lparr>an_source = Inr \<lparr>so_initialized = 1, so_tip = 5, so_hash = ''x'', so_start = 0, so_revision = 9\<rparr>,
     an_block = (\<lambda>_. Inr (Some ''x'')), an_page = (\<lambda>_ _ _. Inr [JObj [(''address'', JStr ''A'')]]), an_again = Inr 9,
     an_beats = 1, an_result = (\<lambda>_. Inr JNull)\<rparr>"

definition sample_start :: "disk_write list \<Rightarrow> worker" where
  "sample_start ds = snd (open_worker sample_lib ''btc'' sample_config
     \<lparr>wk_state = worker_new sample_lib ''btc'' sample_config, wk_file = None, wk_clock = [10, 20, 30], wk_disk = ds\<rparr>)"

lemma sample_lib_ok: "lib_ok sample_lib"
  by (simp add: lib_ok_def sample_lib_def)

lemma sample_config_ok: "config_ok sample_config"
  unfolding config_ok_def by code_simp

lemma sample_answers_ok: "answers_ok sample_answers"
  by (simp add: answers_ok_def sample_answers_def source_ok_def u64_lim_val)

lemma new_state_ok: "state_ok lib c database (worker_new lib database c)"
  by (simp add: worker_new_def state_ok_def named_ok_def counts_ok_def jobs_ok_def phases_def u64_lim_val)

theorem checkpoint_round_trip_witness:
  "load_frame sample_lib ''btc'' (frame_doc sample_lib (worker_new sample_lib ''btc'' sample_config)) =
     Inr (worker_new sample_lib ''btc'' sample_config)"
  by (rule checkpoint_round_trip[OF sample_lib_ok sample_config_ok new_state_ok]) (simp add: sample_lib_def)

lemma sample_simps [simp]:
  "wl_size sample_lib d = 0" "wl_address sample_lib a = Inr a" "wl_digest sample_lib (JObj kvs) = ''h''"
  "wl_digest sample_lib (JArr [v, w, x, JStr a]) = a"
  by (simp_all add: sample_lib_def)

lemma sample_hash [simp]: "config_hash sample_lib c = ''h''"
  by (simp add: config_hash_def config_definition_def)

lemma sample_database [simp]: "sql_identifier ''btc'' = Inr ()"
  by code_simp

lemmas run_simps = io_then_def io_return_def io_fail_def io_get_def io_attempt_def io_ensure_def io_need_def io_modify_def
  io_catch_def inspect_def update_def tick_def commit_doc_def save_def checked_add64_def u64_lim_val max_checkpoint_def

lemmas cycle_simps = run_simps cycle_def cycle_inner_def branch_changed_def reset_def resweep_due_def begin_pass_def
  discover_def add_row_def add_address_def new_job_def job_id_def work_or_wait_def attempt_job_def start_job_def
  swept_def active_def idle_def report_failure_def sample_answers_def due_def ready_def waits_def max_queue_def
  field_def attempt_def Let_def

definition sample_state :: "nat \<Rightarrow> nat \<Rightarrow> string \<times> string \<Rightarrow> sweep option \<Rightarrow> job list \<Rightarrow> json list \<Rightarrow> worker_state" where
  "sample_state g p why sw q recent = \<lparr>ws_contract = worker_version, ws_network = network_id Bitcoin, ws_database = ''btc'',
     ws_definition = config_definition sample_lib sample_config, ws_hash = ''h'', ws_generation = g, ws_pass = p,
     ws_phase = fst why, ws_reason = snd why, ws_heartbeat = 0, ws_next_sweep = 0, ws_sweep = sw, ws_queue = q,
     ws_recent = recent, ws_succeeded = length recent, ws_failures = 0, ws_abandoned = 0\<rparr>"

definition sample_worker :: "worker_state \<Rightarrow> disk_write list \<Rightarrow> worker" where
  "sample_worker w ds = \<lparr>wk_state = w, wk_file = Some (frame_doc sample_lib w), wk_clock = [], wk_disk = ds\<rparr>"

definition sample_sweep :: sweep where
  "sample_sweep = \<lparr>sw_height = 5, sw_hash = ''x'', sw_start = 0, sw_after = ''A'', sw_exhausted = True\<rparr>"

definition stranded_job :: job where
  "stranded_job = \<lparr>jb_id = ''btc-job-A'', jb_address = ''A'', jb_status = ''running'', jb_attempts = 1,
     jb_next_ms = 0, jb_error = []\<rparr>"

lemmas sample_defs = sample_state_def sample_worker_def sample_sweep_def stranded_job_def

lemma sample_opens:
  "open_worker sample_lib ''btc'' sample_config \<lparr>wk_state = w, wk_file = None, wk_clock = [], wk_disk = ds\<rparr> =
     (case ds of [] \<Rightarrow> (Inr (), sample_worker (sample_state 1 0 (''waiting'', ''started_or_resumed'') None [] []) [])
      | Stored # ds \<Rightarrow> (Inr (), sample_worker (sample_state 1 0 (''waiting'', ''started_or_resumed'') None [] []) ds)
      | _ \<Rightarrow> open_worker sample_lib ''btc'' sample_config \<lparr>wk_state = w, wk_file = None, wk_clock = [], wk_disk = ds\<rparr>)"
  unfolding open_worker_def resume_def worker_new_def
  by (simp add: run_simps sample_config_ok[unfolded config_ok_def] sample_defs split: list.split disk_write.split)

lemma sample_strands:
  "cycle sample_lib sample_config ''btc'' sample_answers
     (sample_worker (sample_state 1 0 (''waiting'', ''started_or_resumed'') None [] []) [Stored, Stored, Lost]) =
   (Inl ''cannot commit analytics checkpoint'',
    sample_worker (sample_state (Suc (Suc (Suc (Suc 1)))) 1 (''failed'', ''source_or_discovery_unavailable_cursor_retained'')
      (Some sample_sweep) [stranded_job] []) [])"
  by (simp add: cycle_simps sample_config_def sample_defs)

lemma sample_waits:
  "cycle sample_lib sample_config ''btc'' sample_answers (sample_worker (sample_state (Suc (Suc (Suc (Suc 1)))) 1 (''failed'', ''source_or_discovery_unavailable_cursor_retained'')
      (Some sample_sweep) [stranded_job] []) []) =
   (Inr False,
    sample_worker (sample_state (Suc (Suc (Suc (Suc (Suc 1))))) 1 (''waiting'', ''retry_backoff'') (Some sample_sweep) [stranded_job] []) [])"
  by (simp add: cycle_simps sample_config_def sample_defs)

lemma sample_completes:
  "\<exists>t. cycle sample_lib sample_config ''btc'' sample_answers
     (sample_worker (sample_state 1 0 (''waiting'', ''started_or_resumed'') None [] []) []) = (Inr True, t) \<and>
     length (ws_recent (wk_state t)) = 1"
  by (simp add: cycle_simps sample_config_def sample_defs finish_def receipt_def remove_nth_def max_recent_def)


text \<open>The write that should store the started attempt is lost and the cycle fails with the job running;
the next cycle finds no work, and the one sweep that could queue the address again waits for the job.\<close>

theorem stranded_job_stays_witness:
  "let s = sample_worker (sample_state 1 0 (''waiting'', ''started_or_resumed'') None [] []) [Stored, Stored, Lost];
       s1 = snd (cycle sample_lib sample_config ''btc'' sample_answers s);
       (r2, s2) = cycle sample_lib sample_config ''btc'' sample_answers s1
   in wk_disk s1 = [] \<and> r2 = Inr False \<and> ws_queue (wk_state s1) = [stranded_job] \<and>
      stranded_job \<in> set (ws_queue (wk_state s2)) \<and>
      (\<forall>now. due (wk_state s2) now = None \<and> \<not> resweep_due now (wk_state s2))"
proof -
  have u: "branch_changed sample_answers src (Some sample_sweep) \<noteq> Inr True" if "an_source sample_answers = Inr src" for src
    using that by (auto simp: sample_answers_def branch_changed_def attempt_def sample_sweep_def)
  then have "stranded_job \<in> set (ws_queue (sample_state (Suc (Suc (Suc (Suc (Suc 1))))) 1 (''waiting'', ''retry_backoff'') (Some sample_sweep) [stranded_job] []))"
    using stranded_job_stays[OF _ _ _ sample_waits, of stranded_job]
    by (simp add: sample_defs)
  then show ?thesis
    unfolding Let_def sample_strands snd_conv sample_waits prod.case
    by (simp add: sample_defs due_def ready_def waits_def resweep_due_def swept_def active_def)
qed

end
