(* ===== verification/Row_Rules.thy ===== *)
theory Row_Rules
  imports Complex_Main Subjects Json "HOL-Library.List_Lexorder" "HOL-Library.Char_ord"
begin

text \<open>
  The rules a warehouse row satisfies before it is written (\<open>validate_row\<close> of
  \<open>shared/warehouse/src/semantics.rs\<close>) and what a relationship row means
  (\<open>interpret\<close>, edges and graphs of \<open>relationships/model.rs\<close>). The column types and the rules
  are data, read from the schema documents of the crate; floats and embedded JSON texts are
  read by the library.
\<close>

record row_lib =
  rl_sha :: "nat list \<Rightarrow> nat list"
  rl_f64 :: "string \<Rightarrow> rat option"    \<comment> \<open>\<open>as_f64\<close> of a number, when finite\<close>
  rl_json :: "string \<Rightarrow> json option"   \<comment> \<open>\<open>serde_json::from_str\<close>\<close>

record rule =
  ru_table :: string
  ru_column :: string
  ru_kind :: string
  ru_values :: "string list"

record table =
  tb_name :: string
  tb_columns :: "(string \<times> string) list"

record contract =
  ct_version :: nat
  ct_tables :: "table list"
  ct_rules :: "(nat \<times> rule list) list"   \<comment> \<open>by the version they appear in\<close>

section \<open>Types of values\<close>

definition nullable_of :: "string \<Rightarrow> string option" where
  "nullable_of t = Option.bind (strip_prefix ''Nullable('' t)
     (\<lambda>s. if s \<noteq> [] \<and> List.last s = CHR '')'' then Some (butlast s) else None)"

lemma nullable_shorter: "nullable_of t = Some u \<Longrightarrow> length u < length t"
  by (auto simp: nullable_of_def bind_eq_Some_conv strip_prefix_def split: if_splits)

definition float_of :: "row_lib \<Rightarrow> json \<Rightarrow> rat option" where
  "float_of lib v = (case v of JNum t \<Rightarrow> rl_f64 lib t | _ \<Rightarrow> None)"

definition is_int :: "json \<Rightarrow> nat \<Rightarrow> bool" where
  "is_int v n \<longleftrightarrow> as_u64 v = Some n \<or> n = 0 \<and> v = JNum ''-0''"

definition uint_max :: "string \<Rightarrow> nat" where
  "uint_max t = (if t = ''UInt8'' then 255 else if t = ''UInt32'' then 4294967295 else 18446744073709551615)"

definition check_uint :: "string \<Rightarrow> json \<Rightarrow> unit res" where
  "check_uint t v =
     need (as_u64 v) ''unsigned JSON integer required'' (\<lambda>n.
     ensure (n \<le> uint_max t) ''unsigned integer overflow'' (Inr ()))"

definition check_scalar :: "row_lib \<Rightarrow> json \<Rightarrow> string \<Rightarrow> unit res" where
  "check_scalar lib v t =
     (if t \<in> {''String'', ''LowCardinality(String)''} then need (as_str v) ''string required'' (\<lambda>_. Inr ())
      else if t = ''UInt256''
      then need (as_str v) ''UInt256 requires an exact decimal string'' (\<lambda>raw.
           attempt (raw_parse raw) (\<lambda>a. ensure (a = raw) ''noncanonical raw integer'' (Inr ())))
      else if t \<in> {''UInt8'', ''UInt32'', ''UInt64''} then check_uint t v
      else if t = ''Float64'' then ensure (float_of lib v \<noteq> None) ''finite numeric value required'' (Inr ())
      else if t = ''Array(String)''
      then need (as_array v) ''string array required'' (\<lambda>xs.
           ensure (list_all (\<lambda>x. as_str x \<noteq> None) xs) ''array element must be string'' (Inr ()))
      else if t = ''Array(UInt32)''
      then need (as_array v) ''index array required'' (\<lambda>xs. forE (check_uint ''UInt32'') xs)
      else Inl ''unsupported contract type'')"

function check_type :: "row_lib \<Rightarrow> json \<Rightarrow> string \<Rightarrow> unit res" where
  "check_type lib v t =
     (case nullable_of t of
        Some inner \<Rightarrow> if v = JNull then Inr () else check_type lib v inner
      | None \<Rightarrow> check_scalar lib v t)"
  by pat_completeness auto
termination
  by (relation "measure (\<lambda>(lib, v, t). length t)") (auto dest: nullable_shorter)

declare check_type.simps [simp del]

section \<open>Rules\<close>

definition hash_rule :: "network \<Rightarrow> json \<Rightarrow> unit res" where
  "hash_rule net v =
     need (as_str v) ''string required'' (\<lambda>t.
     attempt (normalize_hash net t) (\<lambda>h. ensure (h = t) ''hash is not canonical'' (Inr ())))"

definition between_rule :: "row_lib \<Rightarrow> rat \<Rightarrow> json \<Rightarrow> unit res" where
  "between_rule lib upper v =
     need (float_of lib v) ''number required'' (\<lambda>n.
     ensure (0 \<le> n \<and> n \<le> upper) ''score/ratio out of range'' (Inr ()))"

definition after_last :: "char \<Rightarrow> string \<Rightarrow> string option" where
  "after_last c s = (if c \<in> set s then Some (List.rev (takeWhile (\<lambda>x. x \<noteq> c) (List.rev s))) else None)"

definition token_rule :: "row_lib \<Rightarrow> network \<Rightarrow> json \<Rightarrow> json \<Rightarrow> unit res" where
  "token_rule lib net v row =
     need (as_str (field row ''asset_id'')) ''asset id missing'' (\<lambda>raw.
     attempt (asset_parse (rl_sha lib) net raw) (\<lambda>a.
     ensure (\<not> a_collection a \<and> (\<exists>t \<in> set_option (after_last (CHR ''/'') (a_value a)). as_str v = Some t))
       ''token id does not match NFT asset identity'' (Inr ())))"

definition asset_rule :: "row_lib \<Rightarrow> network \<Rightarrow> bool \<Rightarrow> json \<Rightarrow> unit res" where
  "asset_rule lib net transfer v =
     need (as_str v) ''string required'' (\<lambda>raw.
     attempt (asset_parse (rl_sha lib) net raw) (\<lambda>a.
     ensure (transfer \<longrightarrow> \<not> a_collection a) ''NFT transfer must identify a token'' (Inr ())))"

definition decimals_rule :: "network \<Rightarrow> json \<Rightarrow> json \<Rightarrow> unit res" where
  "decimals_rule net v row =
     ensure ((\<exists>a \<in> set_option (as_str (field row ''asset_id'')). starts_with a ''native:'') \<longrightarrow>
             as_u64 v = Some (native_decimals net)) ''wrong native decimals'' (Inr ())"

definition satoshi_rule :: "network \<Rightarrow> bool \<Rightarrow> json \<Rightarrow> unit res" where
  "satoshi_rule net only v =
     ensure (only \<longrightarrow> net = Bitcoin) ''UTXO data requires Bitcoin''
     (if net \<noteq> Bitcoin then Inr () else
      attempt (case as_str v of Some t \<Rightarrow> need (parse_u64 t) ''invalid digit found in string'' Inr
               | None \<Rightarrow> need (as_u64 v) ''unsigned integer required'' Inr) (\<lambda>n.
      attempt (raw_from_satoshis n) (\<lambda>_. Inr ())))"

definition hex_rule :: "json \<Rightarrow> unit res" where
  "hex_rule v =
     need (as_str v) ''string required'' (\<lambda>t.
     ensure (even (length t) \<and>
             list_all (\<lambda>c. is_digit c \<or> (97 \<le> (of_char c :: nat) \<and> (of_char c :: nat) \<le> 102)) t)
       ''noncanonical hex bytes'' (Inr ()))"

definition evidence_rule :: "network \<Rightarrow> json \<Rightarrow> unit res" where
  "evidence_rule net v =
     need (as_array v) ''array required'' (\<lambda>xs.
     forE (\<lambda>x. need (as_str x) ''reference string required'' (evidence_ref net)) xs)"

definition utxo_rule :: "network \<Rightarrow> json \<Rightarrow> unit res" where
  "utxo_rule net row =
     ensure (net = Bitcoin \<longrightarrow>
       field row ''from_address'' = JNull \<and> field row ''to_address'' = JNull \<and> field row ''amount_raw'' = JNull \<and>
       field row ''asset_id'' = JStr ''native:BTC'' \<and> is_int (field row ''decimals'') 8 \<and>
       field row ''input_count'' \<noteq> JNull \<and> field row ''output_count'' \<noteq> JNull)
       ''Bitcoin transaction is not a single addressed transfer'' (Inr ())"

definition check_rule :: "row_lib \<Rightarrow> network \<Rightarrow> rule \<Rightarrow> json \<Rightarrow> json \<Rightarrow> unit res" where
  "check_rule lib net r v row =
     (let k = ru_kind r in
      if k = ''network'' then need (as_str v) ''string required'' (\<lambda>t. attempt (network_parse t) (\<lambda>_. Inr ()))
      else if k = ''positive'' then need (as_u64 v) ''unsigned integer required'' (\<lambda>n.
             ensure (0 < n) ''revision must be positive'' (Inr ()))
      else if k = ''nonempty'' then need (as_str v) ''string required'' (\<lambda>t.
             ensure (t \<noteq> []) ''identifier must not be empty'' (Inr ()))
      else if k = ''hash'' then hash_rule net v
      else if k = ''parent_hash'' then
        (if is_int (field row ''block_number'') 0
         then need (as_str v) ''string required'' (\<lambda>t. if t = [] then Inr () else hash_rule net v)
         else hash_rule net v)
      else if k = ''state_hash'' then
        (if is_int (field row ''initialized'') 0
         then need (as_str v) ''string required'' (\<lambda>t. if t = [] then Inr () else hash_rule net v)
         else hash_rule net v)
      else if k = ''boolean'' then need (as_u64 v) ''unsigned integer required'' (\<lambda>n.
             ensure (n \<le> 1) ''boolean out of range'' (Inr ()))
      else if k = ''ratio'' then between_rule lib 1 v
      else if k = ''score'' then between_rule lib 100 v
      else if k = ''enum'' then ensure (\<exists>t \<in> set_option (as_str v). t \<in> set (ru_values r)) ''unknown enum state'' (Inr ())
      else if k = ''nonnegative'' then
        ensure (\<exists>n \<in> set_option (float_of lib v). 0 \<le> n) ''nonnegative metric required'' (Inr ())
      else if k = ''token_id'' then token_rule lib net v row
      else if k = ''asset'' then asset_rule lib net False v
      else if k = ''transfer_asset'' then asset_rule lib net True v
      else if k = ''native_decimals'' then decimals_rule net v row
      else if k = ''bitcoin_amount'' then satoshi_rule net False v
      else if k = ''satoshis'' then satoshi_rule net True v
      else if k = ''json'' then need (as_str v) ''string required'' (\<lambda>t.
             need (rl_json lib t) ''invalid JSON'' (\<lambda>_. Inr ()))
      else if k = ''hex_bytes'' then hex_rule v
      else if k = ''evidence'' then evidence_rule net v
      else if k = ''review_actor'' then
        (if field row ''review_status'' = JStr ''pending'' then Inr ()
         else need (as_str v) ''string required'' (\<lambda>t. ensure (t \<noteq> []) ''review actor missing'' (Inr ())))
      else if k = ''bitcoin_transaction'' then utxo_rule net row
      else if k = ''capability'' then
        ensure ((if ru_column r = ''prevout_coverage'' then net = Bitcoin else net \<noteq> Bitcoin) \<or> v = JNull)
          ''inapplicable coverage must be NULL'' (Inr ())
      else Inl ''unknown column rule'')"

definition rules_for :: "contract \<Rightarrow> string \<Rightarrow> rule list" where
  "rules_for ct name =
     filter (\<lambda>r. ru_table r = name) (concat (map snd (filter (\<lambda>(v, rs). v \<le> ct_version ct) (ct_rules ct))))"

definition skips_null :: "rule \<Rightarrow> bool" where
  "skips_null r \<longleftrightarrow> ru_kind r \<noteq> ''native_decimals'' \<and> ru_kind r \<noteq> ''capability''"

definition with_context :: "string \<Rightarrow> 'a res \<Rightarrow> 'a res" where
  "with_context msg r = (case r of Inl _ \<Rightarrow> Inl msg | Inr x \<Rightarrow> Inr x)"

lemma with_context_ok [ok_simps]: "with_context msg r = Inr x \<longleftrightarrow> r = Inr x"
  by (simp add: with_context_def split: sum.splits)

definition validate_row :: "row_lib \<Rightarrow> contract \<Rightarrow> string \<Rightarrow> json \<Rightarrow> unit res" where
  "validate_row lib ct name row =
     need (find (\<lambda>t. tb_name t = name) (ct_tables ct)) ''unknown fact table'' (\<lambda>tb.
     need (case row of JObj kvs \<Rightarrow> Some kvs | _ \<Rightarrow> None) ''warehouse row must be an object'' (\<lambda>kvs.
     ensure (length kvs = length (tb_columns tb)) (''warehouse row column count mismatch: '' @ name)
     (attempt (forE (\<lambda>(c, ty). need (member row c) ''warehouse column missing'' (\<lambda>v.
         with_context (''invalid value type: '' @ name @ ''.'' @ c) (check_type lib v ty))) (tb_columns tb)) (\<lambda>_.
      need (as_str (field row ''network_id'')) ''network id must be string'' (\<lambda>raw.
      attempt (network_parse raw) (\<lambda>net.
      forE (\<lambda>r. if field row (ru_column r) = JNull \<and> skips_null r then Inr ()
         else with_context (''column contract rejected '' @ name @ ''.'' @ ru_column r @ '' ('' @ ru_kind r @ '')'')
                (check_rule lib net r (field row (ru_column r)) row)) (rules_for ct name)))))))"

section \<open>The meaning of a relationship row\<close>

definition row_text :: "json \<Rightarrow> string \<Rightarrow> (string \<Rightarrow> 'a res) \<Rightarrow> 'a res" where
  "row_text row k f = need (as_str (field row k)) (''relationship string missing: '' @ k) f"

definition row_number :: "json \<Rightarrow> string \<Rightarrow> (nat \<Rightarrow> 'a res) \<Rightarrow> 'a res" where
  "row_number row k f = need (as_u64 (field row k)) (''relationship integer missing: '' @ k) f"

definition row_null :: "json \<Rightarrow> string \<Rightarrow> 'a res \<Rightarrow> 'a res" where
  "row_null row k f = ensure (field row k = JNull) (''inapplicable relationship field: '' @ k) f"

lemma row_ok [ok_simps]:
  "row_text row k f = Inr x \<longleftrightarrow> (\<exists>t. field row k = JStr t \<and> f t = Inr x)"
  "row_number row k g = Inr x \<longleftrightarrow> (\<exists>n. as_u64 (field row k) = Some n \<and> g n = Inr x)"
  "row_null row k h = Inr x \<longleftrightarrow> field row k = JNull \<and> h = Inr x"
  by (simp_all add: row_text_def row_number_def row_null_def ok_simps)

definition endpoint :: "row_lib \<Rightarrow> json \<Rightarrow> network \<Rightarrow> string \<Rightarrow> subject res" where
  "endpoint lib row net side =
     row_text row (side @ ''_subject_type'') (\<lambda>ty. attempt (kind_parse ty) (\<lambda>k.
     row_text row (side @ ''_subject_id'') (\<lambda>i. attempt (subject_new (rl_sha lib) net k i) (\<lambda>s.
     ensure (field row (side @ ''_address'') = (if k = Address then JStr (s_id s) else JNull))
       ''address and typed subject disagree'' (Inr s)))))"

definition utxo_input :: "json \<Rightarrow> subject \<Rightarrow> subject \<Rightarrow> string \<Rightarrow> (string \<times> string) res" where
  "utxo_input row from to tx =
     ensure (s_kind from \<in> {Address, Script} \<and> s_kind to = Transaction \<and> s_id to = tx)
       ''Bitcoin input must connect its prevout subject to its transaction''
     (row_null row ''output_index''
     (ensure (field row ''attribution_method'' = JStr ''observed_prevout'') ''unknown Bitcoin input attribution''
     (row_text row ''prev_tx_hash'' (\<lambda>previous. row_number row ''prev_output_index'' (\<lambda>out.
      Inr (''in'', ''outpoint:'' @ previous @ '':'' @ show_nat out))))))"

definition utxo_output :: "json \<Rightarrow> subject \<Rightarrow> subject \<Rightarrow> string \<Rightarrow> nat \<Rightarrow> (string \<times> string) res" where
  "utxo_output row from to tx index =
     ensure (s_kind from = Transaction \<and> s_id from = tx \<and> s_kind to \<in> {Address, Script})
       ''Bitcoin output must connect its transaction to its output subject''
     (row_null row ''prev_tx_hash'' (row_null row ''prev_output_index''
     (row_number row ''output_index'' (\<lambda>out.
      ensure (out = index \<and> field row ''attribution_method'' = JStr ''observed_output'')
        ''Bitcoin output index/attribution mismatch''
      (row_text row ''tx_hash'' (\<lambda>h. Inr (''out'', ''outpoint:'' @ h @ '':'' @ show_nat index)))))))"

definition leg_id :: "string \<Rightarrow> string \<Rightarrow> string \<Rightarrow> nat \<Rightarrow> string" where
  "leg_id block tx direction index = block @ '':'' @ tx @ '':'' @ direction @ '':'' @ show_nat index"

definition interpret_utxo :: "row_lib \<Rightarrow> json \<Rightarrow> subject \<Rightarrow> subject \<Rightarrow> (subject \<times> subject) res" where
  "interpret_utxo lib row from to =
     ensure (is_int (field row ''event_sub_index'') 0 \<and> field row ''trace_address'' = JArr [] \<and>
             field row ''token_id'' = JNull) ''Bitcoin leg cannot carry EVM/NFT positions''
     (ensure (float_of lib (field row ''confidence'') = Some 1) ''observed UTXO evidence requires confidence 1''
     (row_text row ''block_hash'' (\<lambda>block. row_text row ''tx_hash'' (\<lambda>hash.
      attempt (transaction_subject_id (rl_sha lib) Bitcoin block hash) (\<lambda>tx.
      row_number row ''event_index'' (\<lambda>index. row_text row ''transfer_type'' (\<lambda>ty.
      attempt (if ty = ''utxo_input'' then utxo_input row from to tx
               else if ty = ''utxo_output'' then utxo_output row from to tx index
               else Inl ''Bitcoin does not establish pairwise address transfers'') (\<lambda>(direction, outpoint).
      row_text row ''relationship_id'' (\<lambda>rid.
      ensure (rid = leg_id block hash direction index) ''Bitcoin leg identity/index mismatch''
      (need (as_array (field row ''evidence_refs'')) ''evidence refs missing'' (\<lambda>refs.
       ensure (JStr outpoint \<in> set refs) ''UTXO outpoint evidence missing'' (Inr (from, to)))))))))))))"

definition interpret_account :: "json \<Rightarrow> subject \<Rightarrow> subject \<Rightarrow> (subject \<times> subject) res" where
  "interpret_account row from to =
     ensure (s_kind from = Address \<and> s_kind to = Address) ''account transfer endpoints must be observed addresses''
     (row_text row ''transfer_type'' (\<lambda>ty.
      ensure (\<not> starts_with ty ''utxo_'') ''UTXO semantics are not applicable to an account network''
      (row_null row ''prev_tx_hash'' (row_null row ''prev_output_index'' (row_null row ''output_index''
       (Inr (from, to)))))))"

definition interpret_row :: "row_lib \<Rightarrow> json \<Rightarrow> (subject \<times> subject) res" where
  "interpret_row lib row =
     row_text row ''network_id'' (\<lambda>raw. attempt (network_parse raw) (\<lambda>net.
     attempt (endpoint lib row net ''from'') (\<lambda>from.
     attempt (endpoint lib row net ''to'') (\<lambda>to.
     if net = Bitcoin then interpret_utxo lib row from to else interpret_account row from to))))"

definition validate_relationship :: "row_lib \<Rightarrow> contract \<Rightarrow> json \<Rightarrow> unit res" where
  "validate_relationship lib ct row =
     attempt (validate_row lib ct ''aml_address_relationships'' row) (\<lambda>_.
     attempt (interpret_row lib row) (\<lambda>_. Inr ()))"


section \<open>Edges and graphs\<close>

record edge =
  ed_from :: subject
  ed_to :: subject
  ed_row :: json

definition edge_of_row :: "row_lib \<Rightarrow> contract \<Rightarrow> json \<Rightarrow> edge res" where
  "edge_of_row lib ct row =
     attempt (validate_row lib ct ''aml_address_relationships'' row) (\<lambda>_.
     attempt (interpret_row lib row) (\<lambda>(from, to). Inr \<lparr>ed_from = from, ed_to = to, ed_row = row\<rparr>))"

definition number_text :: "json \<Rightarrow> string" where
  "number_text v = (case v of JNum t \<Rightarrow> t | _ \<Rightarrow> [])"

definition edge_key :: "edge \<Rightarrow> string" where
  "edge_key e = s_network (ed_from e) @ ''/'' @ text_of (field (ed_row e) ''block_hash'') @ ''/'' @
     text_of (field (ed_row e) ''commit_id'') @ ''/'' @ number_text (field (ed_row e) ''revision'') @ ''/'' @
     text_of (field (ed_row e) ''relationship_id'')"

text \<open>Members of an object, replaced or added.\<close>

definition members :: "json \<Rightarrow> (string \<times> json) list" where
  "members v = (case v of JObj kvs \<Rightarrow> kvs | _ \<Rightarrow> [])"

definition extend_obj :: "json \<Rightarrow> (string \<times> json) list \<Rightarrow> json" where
  "extend_obj v kvs = JObj (filter (\<lambda>(k, _). k \<notin> fst ` set kvs) (members v) @ kvs)"

definition without :: "json \<Rightarrow> string list \<Rightarrow> json" where
  "without v ks = JObj (filter (\<lambda>(k, _). k \<notin> set ks) (members v))"

definition edge_value :: "edge \<Rightarrow> json" where
  "edge_value e =
     (let row = ed_row e; utxo = s_network (ed_from e) = network_id Bitcoin in
      extend_obj (without row [''raw_evidence_json''])
       [(''id'', JStr (edge_key e)), (''relationship_id'', field row ''relationship_id''),
        (''from'', JStr (s_id (ed_from e))), (''to'', JStr (s_id (ed_to e))), (''amount'', field row ''amount_raw''),
        (''fund_continuity_claimed'', JBool False), (''ownership_claimed'', JBool False),
        (''amount_allocation_claimed'', JBool False),
        (''edge_semantics'', if utxo then JStr (text_of (field row ''transfer_type'')) else JStr ''observed_transfer''),
        (''input_index'', if utxo \<and> field row ''transfer_type'' = JStr ''utxo_input'' then field row ''event_index'' else JNull),
        (''prev_txid'', field row ''prev_tx_hash''), (''prev_vout'', field row ''prev_output_index'')])"

definition subject_node :: "subject \<Rightarrow> json" where
  "subject_node s = JObj [(''id'', JStr (s_id s)), (''subject_id'', JStr (s_id s)), (''subject_key'', JStr (subject_key s)),
     (''subject_type'', JStr (kind_name (s_kind s))), (''node_type'', JStr (kind_name (s_kind s))),
     (''network_id'', JStr (s_network s)),
     (''address'', if s_kind s = Address then JStr (s_id s) else JNull), (''label'', JStr (s_id s))]"

text \<open>A \<open>BTreeMap\<close> is the list of its entries in the order of the keys.\<close>

fun bt_insert :: "string \<Rightarrow> 'v \<Rightarrow> (string \<times> 'v) list \<Rightarrow> (string \<times> 'v) list" where
  "bt_insert k v [] = [(k, v)]"
| "bt_insert k v ((j, w) # m) =
     (if k < j then (k, v) # (j, w) # m else if k = j then (k, v) # m else (j, w) # bt_insert k v m)"

record graph =
  gr_nodes :: "(string \<times> json) list"
  gr_edges :: "(string \<times> json) list"
  gr_truncated :: bool
  gr_network :: string

definition graph_new :: "network \<Rightarrow> graph" where
  "graph_new net = \<lparr>gr_nodes = [], gr_edges = [], gr_truncated = False, gr_network = network_id net\<rparr>"

definition graph_node :: "subject \<Rightarrow> graph \<Rightarrow> graph res" where
  "graph_node s g =
     ensure (s_network s = gr_network g) ''mixed-network graph''
     (Inr (g\<lparr>gr_nodes := bt_insert (s_id s) (subject_node s) (gr_nodes g)\<rparr>))"

definition graph_edge :: "edge \<Rightarrow> graph \<Rightarrow> graph res" where
  "graph_edge e g =
     attempt (graph_node (ed_from e) g) (\<lambda>g. attempt (graph_node (ed_to e) g) (\<lambda>g.
     Inr (g\<lparr>gr_edges := bt_insert (edge_key e) (edge_value e) (gr_edges g)\<rparr>)))"

definition has_key :: "string \<Rightarrow> (string \<times> 'v) list \<Rightarrow> bool" where
  "has_key k m \<longleftrightarrow> k \<in> fst ` set m"

definition max_edges :: nat where "max_edges = 2000"

definition merge_node :: "nat \<Rightarrow> string \<times> json \<Rightarrow> graph \<Rightarrow> graph" where
  "merge_node max_nodes kv g =
     (if length (gr_nodes g) < max_nodes \<or> has_key (fst kv) (gr_nodes g)
      then g\<lparr>gr_nodes := bt_insert (fst kv) (snd kv) (gr_nodes g)\<rparr> else g\<lparr>gr_truncated := True\<rparr>)"

definition ends_in :: "json \<Rightarrow> (string \<times> json) list \<Rightarrow> bool" where
  "ends_in v nodes \<longleftrightarrow> has_key (text_of (field v ''from_subject_id'')) nodes \<and>
     has_key (text_of (field v ''to_subject_id'')) nodes"

definition merge_edge :: "string \<times> json \<Rightarrow> graph \<Rightarrow> graph" where
  "merge_edge kv g =
     (if ends_in (snd kv) (gr_nodes g) \<and> length (gr_edges g) < max_edges
      then g\<lparr>gr_edges := bt_insert (fst kv) (snd kv) (gr_edges g)\<rparr> else g\<lparr>gr_truncated := True\<rparr>)"

definition graph_merge :: "graph \<Rightarrow> nat \<Rightarrow> graph \<Rightarrow> graph res" where
  "graph_merge other max_nodes g =
     ensure (gr_network g = gr_network other) ''mixed-network graph merge''
     (Inr (fold merge_edge (gr_edges other) (fold (merge_node max_nodes) (gr_nodes other)
        (g\<lparr>gr_truncated := gr_truncated g \<or> gr_truncated other\<rparr>))))"

section \<open>Ordered maps\<close>

lemma keys_insert [simp]: "fst ` set (bt_insert k v m) = insert k (fst ` set m)"
  by (induction m rule: bt_insert.induct[of "\<lambda>k v m. fst ` set (bt_insert k v m) = insert k (fst ` set m)"]) auto

lemma has_key_insert [simp]: "has_key j (bt_insert k v m) \<longleftrightarrow> j = k \<or> has_key j m"
  by (simp add: has_key_def)

lemma entries_insert: "set (bt_insert k v m) \<subseteq> insert (k, v) (set m)"
  by (induction k v m rule: bt_insert.induct) auto

lemma sorted_insert: "sorted_wrt (<) (map fst m) \<Longrightarrow> sorted_wrt (<) (map fst (bt_insert k v m))"
proof (induction k v m rule: bt_insert.induct)
  case (2 k v j w m)
  then show ?case using entries_insert[of k v m] by fastforce
qed simp

lemma map_of_insert:
  "sorted_wrt (<) (map fst m) \<Longrightarrow> map_of (bt_insert k v m) = (map_of m)(k \<mapsto> v)"
proof (induction k v m rule: bt_insert.induct)
  case (2 k v j w m)
  moreover have "map_of m k = None" if "k < j" using 2(2) that by (force simp: map_of_eq_None_iff)
  ultimately show ?case by (auto simp: fun_eq_iff)
qed (simp add: fun_eq_iff)

lemma length_insert:
  "length (bt_insert k v m) = (if has_key k m then length m else Suc (length m))" if "sorted_wrt (<) (map fst m)"
  using that
proof (induction k v m rule: bt_insert.induct)
  case (2 k v j w m)
  moreover have "\<not> has_key k m" if "k < j \<or> k = j" using 2(2) that by (force simp: has_key_def)
  ultimately show ?case by (auto simp: has_key_def)
qed (simp add: has_key_def)


section \<open>Legs are identified by their relationship id\<close>

lemma leg_id_parts:
  assumes "leg_id b t d i = leg_id b' t' d' i'" "d \<in> {''in'', ''out''}" "d' \<in> {''in'', ''out''}"
    and "CHR '':'' \<notin> set b \<union> set b' \<union> set t \<union> set t'"
  shows "b = b' \<and> t = t' \<and> d = d' \<and> i = i'"
proof -
  have e: "b @ CHR '':'' # (t @ CHR '':'' # (d @ CHR '':'' # show_nat i)) =
      b' @ CHR '':'' # (t' @ CHR '':'' # (d' @ CHR '':'' # show_nat i'))"
    using assms(1) by (simp add: leg_id_def)
  from separator_unique[OF e] assms(4) have b: "b = b'"
    and e2: "t @ CHR '':'' # (d @ CHR '':'' # show_nat i) = t' @ CHR '':'' # (d' @ CHR '':'' # show_nat i')"
    by auto
  from separator_unique[OF e2] assms(4) have t: "t = t'"
    and e3: "d @ CHR '':'' # show_nat i = d' @ CHR '':'' # show_nat i'" by auto
  from separator_unique[OF e3] assms(2,3) have "d = d'" "show_nat i = show_nat i'" by auto
  with b t show ?thesis by simp
qed

lemma interpret_utxo_leg:
  assumes "interpret_utxo lib row from to = Inr p"
  obtains b t i ty d where "field row ''block_hash'' = JStr b" "field row ''tx_hash'' = JStr t"
    "as_u64 (field row ''event_index'') = Some i" "field row ''transfer_type'' = JStr ty"
    "field row ''relationship_id'' = JStr (leg_id b t d i)"
    "ty = (if d = ''in'' then ''utxo_input'' else ''utxo_output'')" "d \<in> {''in'', ''out''}"
    "transaction_subject_id (rl_sha lib) Bitcoin b t = Inr (''tx:'' @ b @ '':'' @ t)"
    "p = (from, to)" "(if d = ''in'' then s_id to else s_id from) = ''tx:'' @ b @ '':'' @ t"
proof -
  from assms obtain b t tx i ty d out where f: "field row ''block_hash'' = JStr b" "field row ''tx_hash'' = JStr t"
    "transaction_subject_id (rl_sha lib) Bitcoin b t = Inr tx"
    "as_u64 (field row ''event_index'') = Some i" "field row ''transfer_type'' = JStr ty"
    and leg: "(if ty = ''utxo_input'' then utxo_input row from to tx
               else if ty = ''utxo_output'' then utxo_output row from to tx i
               else Inl ''Bitcoin does not establish pairwise address transfers'') = Inr (d, out)"
    and r: "field row ''relationship_id'' = JStr (leg_id b t d i)" and p: "p = (from, to)"
    by (auto simp: interpret_utxo_def ok_simps)
  have tx: "tx = ''tx:'' @ b @ '':'' @ t" using f(3) by (simp add: transaction_subject_ok)
  show ?thesis
  proof (cases "ty = ''utxo_input''")
    case True
    with leg have "d = ''in''" "s_id to = tx" by (auto simp: utxo_input_def ok_simps)
    with True f r p tx show ?thesis by (intro that[of b t i ty d]) simp_all
  next
    case False
    with leg have "ty = ''utxo_output''" "d = ''out''" "s_id from = tx"
      by (auto simp: utxo_output_def ok_simps split: if_splits)
    with f r p tx show ?thesis by (intro that[of b t i ty d]) simp_all
  qed
qed

lemma subject_occurrence_no_colon:
  assumes "transaction_subject_id sha net b t = Inr v"
  shows "CHR '':'' \<notin> set b \<union> set t"
proof -
  have v: "v = ''tx:'' @ b @ '':'' @ t" and o: "occurrence_syntax net v = Inr ()"
    using assms[unfolded transaction_subject_ok] by blast+
  from occurrence_parts[OF o] obtain c u where cu: "v = ''tx:'' @ c @ CHR '':'' # u" "CHR '':'' \<notin> set c" "CHR '':'' \<notin> set u"
    by metis
  then have "v = ''tx:'' @ c @ '':'' @ u" by simp
  from occurrence_text_unique[OF o v this] cu show ?thesis by simp
qed

text \<open>The relationship id of an accepted Bitcoin row determines its leg: two accepted rows with one id
  have the same block, transaction, index and direction, and hang on the same transaction subject.\<close>

theorem relationship_identifies_leg:
  assumes "interpret_row lib row = Inr (f, t)" "interpret_row lib row' = Inr (f', t')"
    and "field row ''network_id'' = JStr (network_id Bitcoin)" "field row' ''network_id'' = JStr (network_id Bitcoin)"
    and "field row ''relationship_id'' = field row' ''relationship_id''"
  shows "(\<forall>k \<in> {''block_hash'', ''tx_hash'', ''transfer_type''}. field row k = field row' k) \<and>
    as_u64 (field row ''event_index'') = as_u64 (field row' ''event_index'') \<and>
    (if field row ''transfer_type'' = JStr ''utxo_input'' then s_id t = s_id t' else s_id f = s_id f')"
proof -
  have btc: "network_parse (network_id Bitcoin) = Inr Bitcoin" by code_simp
  have u: "interpret_utxo lib row f t = Inr (f, t)" if "interpret_row lib row = Inr (f, t)"
    "field row ''network_id'' = JStr (network_id Bitcoin)" for row f t
  proof -
    from that btc obtain f' t' where i: "interpret_utxo lib row f' t' = Inr (f, t)"
      by (auto simp: interpret_row_def row_text_def simp del: network_id.simps dest!: attempt_ok[THEN iffD1])
    from interpret_utxo_leg[OF i] have "(f, t) = (f', t')" by blast
    with i show ?thesis by simp
  qed
  obtain b h i ty d where
    r: "field row ''block_hash'' = JStr b" "field row ''tx_hash'' = JStr h" "as_u64 (field row ''event_index'') = Some i"
      "field row ''transfer_type'' = JStr ty" "field row ''relationship_id'' = JStr (leg_id b h d i)"
      "ty = (if d = ''in'' then ''utxo_input'' else ''utxo_output'')" "d \<in> {''in'', ''out''}"
      "transaction_subject_id (rl_sha lib) Bitcoin b h = Inr (''tx:'' @ b @ '':'' @ h)"
      "(if d = ''in'' then s_id t else s_id f) = ''tx:'' @ b @ '':'' @ h"
    by (rule interpret_utxo_leg[OF u[OF assms(1,3)]]) (rule that)
  obtain b' h' i' ty' d' where
    r': "field row' ''block_hash'' = JStr b'" "field row' ''tx_hash'' = JStr h'" "as_u64 (field row' ''event_index'') = Some i'"
      "field row' ''transfer_type'' = JStr ty'" "field row' ''relationship_id'' = JStr (leg_id b' h' d' i')"
      "ty' = (if d' = ''in'' then ''utxo_input'' else ''utxo_output'')" "d' \<in> {''in'', ''out''}"
      "transaction_subject_id (rl_sha lib) Bitcoin b' h' = Inr (''tx:'' @ b' @ '':'' @ h')"
      "(if d' = ''in'' then s_id t' else s_id f') = ''tx:'' @ b' @ '':'' @ h'"
    by (rule interpret_utxo_leg[OF u[OF assms(2,4)]]) (rule that)
  have "leg_id b h d i = leg_id b' h' d' i'" using assms(5) r(5) r'(5) by simp
  from leg_id_parts[OF this r(7) r'(7)] have e: "b = b'" "h = h'" "d = d'" "i = i'"
    using subject_occurrence_no_colon[OF r(8)] subject_occurrence_no_colon[OF r'(8)] by auto
  have "\<forall>k \<in> {''block_hash'', ''tx_hash'', ''transfer_type''}. field row k = field row' k"
    using r r' e by simp
  moreover have "as_u64 (field row ''event_index'') = as_u64 (field row' ''event_index'')" using r r' e by simp
  moreover have "(if field row ''transfer_type'' = JStr ''utxo_input'' then s_id t = s_id t' else s_id f = s_id f')"
    using r(4,6,7,9) r'(9) e by (auto split: if_splits)
  ultimately show ?thesis by blast
qed

text \<open>A first input spending an output to a script.\<close>

definition sample_row :: json where
  "sample_row = (let h = replicate 64 (CHR ''a''); t = replicate 64 (CHR ''b'') in
     JObj [(''network_id'', JStr (network_id Bitcoin)), (''block_hash'', JStr h), (''tx_hash'', JStr t),
       (''relationship_id'', JStr (leg_id h t ''in'' 0)), (''event_index'', jnat 0), (''event_sub_index'', jnat 0),
       (''trace_address'', JArr []), (''token_id'', JNull), (''confidence'', JNum ''1.0''),
       (''transfer_type'', JStr ''utxo_input''), (''attribution_method'', JStr ''observed_prevout''),
       (''from_subject_type'', JStr ''script''), (''from_subject_id'', JStr (''script:'' @ replicate 64 (CHR ''c''))),
       (''from_address'', JNull), (''to_subject_type'', JStr ''transaction''),
       (''to_subject_id'', JStr (''tx:'' @ h @ '':'' @ t)), (''to_address'', JNull),
       (''prev_tx_hash'', JStr t), (''prev_output_index'', jnat 3), (''output_index'', JNull),
       (''evidence_refs'', jstrs [''outpoint:'' @ t @ '':3''])])"

definition sample_row_lib :: row_lib where
  "sample_row_lib = \<lparr>rl_sha = (\<lambda>b. b), rl_f64 = (\<lambda>t. if t = ''1.0'' then Some 1 else None), rl_json = (\<lambda>_. Some JNull)\<rparr>"

theorem relationship_identifies_leg_witness:
  "\<exists>f t. interpret_row sample_row_lib sample_row = Inr (f, t) \<and> s_kind t = Transaction \<and>
     as_u64 (field sample_row ''event_index'') = as_u64 (field sample_row ''event_index'')"
proof -
  have n: "field sample_row ''network_id'' = JStr (network_id Bitcoin)" by code_simp
  have "case interpret_row sample_row_lib sample_row of Inl _ \<Rightarrow> False | Inr (f, t) \<Rightarrow> s_kind t = Transaction" by code_simp
  then obtain f t where i: "interpret_row sample_row_lib sample_row = Inr (f, t)" "s_kind t = Transaction"
    by (auto split: sum.splits)
  from relationship_identifies_leg[OF i(1) i(1) n n refl] i show ?thesis by blast
qed

section \<open>Graphs stay closed\<close>

definition graph_ok :: "graph \<Rightarrow> bool" where
  "graph_ok g \<longleftrightarrow> sorted_wrt (<) (map fst (gr_nodes g)) \<and> sorted_wrt (<) (map fst (gr_edges g)) \<and>
     (\<forall>e \<in> set (gr_edges g). ends_in (snd e) (gr_nodes g))"

lemma ends_in_insert: "ends_in v nodes \<Longrightarrow> ends_in v (bt_insert k w nodes)"
  by (simp add: ends_in_def)

text \<open>What one insertion of a merge does: nothing is lost, and nothing is left out unnoticed.\<close>

definition grows :: "graph \<Rightarrow> graph \<Rightarrow> bool" where
  "grows g h \<longleftrightarrow> fst ` set (gr_nodes g) \<subseteq> fst ` set (gr_nodes h) \<and> fst ` set (gr_edges g) \<subseteq> fst ` set (gr_edges h) \<and>
     (gr_truncated g \<longrightarrow> gr_truncated h)"

lemma grows_refl: "grows g g" by (simp add: grows_def)

lemma grows_trans: "grows g h \<Longrightarrow> grows h k \<Longrightarrow> grows g k"
  unfolding grows_def by (elim conjE, intro conjI; (rule order_trans, assumption, assumption | blast))

lemma grows_nodes: "grows g h \<Longrightarrow> has_key k (gr_nodes g) \<Longrightarrow> has_key k (gr_nodes h)"
  unfolding grows_def has_key_def by blast

lemma grows_edges: "grows g h \<Longrightarrow> has_key k (gr_edges g) \<Longrightarrow> has_key k (gr_edges h)"
  unfolding grows_def has_key_def by blast

lemma grows_flag: "grows g h \<Longrightarrow> gr_truncated g \<Longrightarrow> gr_truncated h"
  by (simp add: grows_def)

lemma merge_node_step:
  assumes "graph_ok g" "h = merge_node n kv g"
  shows "graph_ok h \<and> grows g h \<and> (has_key (fst kv) (gr_nodes h) \<or> gr_truncated h) \<and>
    gr_edges h = gr_edges g \<and> length (gr_nodes h) \<le> max n (length (gr_nodes g))"
  using assms by (auto simp: merge_node_def graph_ok_def grows_def sorted_insert ends_in_insert length_insert)

lemma merge_edge_step:
  assumes "graph_ok g" "h = merge_edge kv g"
  shows "graph_ok h \<and> grows g h \<and> (has_key (fst kv) (gr_edges h) \<or> gr_truncated h) \<and>
    gr_nodes h = gr_nodes g \<and> length (gr_edges h) \<le> max max_edges (length (gr_edges g))"
  using assms entries_insert[of "fst kv" "snd kv" "gr_edges g"]
  by (auto simp: merge_edge_def graph_ok_def grows_def sorted_insert length_insert)

lemma merge_nodes:
  "graph_ok g \<Longrightarrow> h = fold (merge_node n) kvs g \<Longrightarrow>
   graph_ok h \<and> grows g h \<and> (\<forall>kv \<in> set kvs. has_key (fst kv) (gr_nodes h) \<or> gr_truncated h) \<and>
    gr_edges h = gr_edges g \<and> length (gr_nodes h) \<le> max n (length (gr_nodes g))"
proof (induction kvs arbitrary: g)
  case Nil
  then show ?case by (simp add: grows_refl)
next
  case (Cons kv kvs)
  let ?k = "merge_node n kv g"
  note s = merge_node_step[OF Cons.prems(1) refl, of n kv]
  have "h = fold (merge_node n) kvs ?k" using Cons.prems(2) by simp
  note t = Cons.IH[OF conjunct1[OF s] this]
  have "grows g h" using s t grows_trans by blast
  moreover have "has_key (fst x) (gr_nodes h) \<or> gr_truncated h" if "x \<in> set (kv # kvs)" for x
    using that s t grows_nodes[of ?k h] grows_flag[of ?k h] by auto
  ultimately show ?case using s t by auto
qed

lemma merge_edges:
  "graph_ok g \<Longrightarrow> h = fold merge_edge kvs g \<Longrightarrow>
   graph_ok h \<and> grows g h \<and> (\<forall>kv \<in> set kvs. has_key (fst kv) (gr_edges h) \<or> gr_truncated h) \<and>
    gr_nodes h = gr_nodes g \<and> length (gr_edges h) \<le> max max_edges (length (gr_edges g))"
proof (induction kvs arbitrary: g)
  case Nil
  then show ?case by (simp add: grows_refl)
next
  case (Cons kv kvs)
  let ?k = "merge_edge kv g"
  note s = merge_edge_step[OF Cons.prems(1) refl, of kv]
  have "h = fold merge_edge kvs ?k" using Cons.prems(2) by simp
  note t = Cons.IH[OF conjunct1[OF s] this]
  have "grows g h" using s t grows_trans by blast
  moreover have "has_key (fst x) (gr_edges h) \<or> gr_truncated h" if "x \<in> set (kv # kvs)" for x
    using that s t grows_edges[of ?k h] grows_flag[of ?k h] by auto
  ultimately show ?case using s t by auto
qed

text \<open>Merging keeps a graph closed and ordered within its limits, loses nothing it held, and when the
  result is not marked truncated it holds every node and every edge of both graphs.\<close>

theorem graph_merge_complete:
  assumes "graph_ok g" "graph_merge other n g = Inr h"
  shows "graph_ok h \<and> length (gr_nodes h) \<le> max n (length (gr_nodes g)) \<and>
    length (gr_edges h) \<le> max max_edges (length (gr_edges g)) \<and> grows g h \<and>
    (gr_truncated h \<or> (\<not> gr_truncated other \<and> fst ` set (gr_nodes other) \<subseteq> fst ` set (gr_nodes h) \<and>
       fst ` set (gr_edges other) \<subseteq> fst ` set (gr_edges h)))"
proof -
  let ?g = "g\<lparr>gr_truncated := gr_truncated g \<or> gr_truncated other\<rparr>"
  let ?k = "fold (merge_node n) (gr_nodes other) ?g"
  have g: "graph_ok ?g" "grows g ?g" using assms(1) by (auto simp: graph_ok_def grows_def)
  have h: "h = fold merge_edge (gr_edges other) ?k" using assms(2) by (simp add: graph_merge_def ok_simps)
  note k = merge_nodes[OF g(1) refl, of n "gr_nodes other"]
  note e = merge_edges[OF conjunct1[OF k] h]
  have "graph_ok h" "length (gr_nodes h) \<le> max n (length (gr_nodes g))"
    "length (gr_edges h) \<le> max max_edges (length (gr_edges g))" using k e by simp_all
  moreover have "grows g h" using g(2) k e grows_trans by blast
  moreover have "gr_truncated h \<or> (\<not> gr_truncated other \<and> fst ` set (gr_nodes other) \<subseteq> fst ` set (gr_nodes h) \<and>
       fst ` set (gr_edges other) \<subseteq> fst ` set (gr_edges h))"
    using k e by (auto simp: grows_def has_key_def)
  ultimately show ?thesis by blast
qed

theorem graph_merge_complete_witness:
  "\<exists>h. graph_merge (graph_new Bitcoin) 5 (graph_new Bitcoin) = Inr h \<and> graph_ok h \<and> length (gr_nodes h) \<le> 5"
proof -
  have g: "graph_ok (graph_new Bitcoin)" by (simp add: graph_ok_def graph_new_def)
  obtain h where h: "graph_merge (graph_new Bitcoin) 5 (graph_new Bitcoin) = Inr h"
    by (simp add: graph_merge_def)
  from graph_merge_complete[OF g h] h show ?thesis by (auto simp: graph_new_def)
qed

end
