(* ===== verification/Writer.thy ===== *)
theory Writer
  imports Io_Triples Row_Rules Block_Extraction Patterns Fence "HOL-Library.Multiset"
begin

text \<open>
  Writing one Bitcoin block to the warehouse: the rows mapped from its evidence
  (\<open>map_evidence\<close> of \<open>dockerizd_bitcoin/src/db/warehouse.rs\<close>) and the write, verification and
  publication of \<open>storage/writer.rs\<close>. A stored fact carries as its body the text in which
  \<open>verify_rows\<close> compares it, and as its key the columns its table is ordered by after the
  block and the commit.
\<close>

record map_lib =
  ml_btc :: btc_lib
  ml_rows :: row_lib
  ml_digest :: "json \<Rightarrow> string"
  ml_print :: "json \<Rightarrow> string"              \<comment> \<open>\<open>serde_json::to_string\<close>\<close>
  ml_float :: "string \<Rightarrow> string option"     \<comment> \<open>the text serde writes for \<open>as_f64\<close> of a number\<close>
  ml_contract :: contract

section \<open>Documents of the evidence\<close>

definition common_doc :: "string \<Rightarrow> nat \<Rightarrow> string \<Rightarrow> nat \<Rightarrow> string \<Rightarrow> nat \<Rightarrow> (string \<times> json) list" where
  "common_doc commit height hash time txid index =
     [(''commit_id'', JStr commit), (''block_height'', jnat height), (''block_hash'', JStr hash),
      (''block_time'', jnat time), (''txid'', JStr txid), (''tx_index'', jnat index)]"

definition script_doc :: "script_output \<Rightarrow> (string \<times> json) list" where
  "script_doc q = [(''address'', JStr (so_address q)), (''script_hex'', JStr (so_script_hex q)),
     (''script_type'', JStr (so_script_type q)), (''value_sats'', jnat (so_value_sats q))]"

definition transaction_doc :: "transaction \<Rightarrow> json" where
  "transaction_doc t = JObj (common_doc (t_commit_id t) (t_block_height t) (t_block_hash t) (t_block_time t) (t_txid t) (t_tx_index t) @
     [(''coinbase'', jnat (t_coinbase t)), (''input_count'', jnat (t_input_count t)),
      (''output_count'', jnat (t_output_count t)), (''output_sats'', jnat (t_output_sats t)), (''fee_sats'', jnat (t_fee_sats t))])"

definition output_doc :: "tx_output \<Rightarrow> json" where
  "output_doc q = JObj (common_doc (o_commit_id q) (o_block_height q) (o_block_hash q) (o_block_time q) (o_txid q) (o_tx_index q) @
     [(''output_index'', jnat (o_output_index q)), (''coinbase'', jnat (o_coinbase q))] @ script_doc (o_output q))"

definition input_doc :: "tx_input \<Rightarrow> json" where
  "input_doc i = JObj (common_doc (i_commit_id i) (i_block_height i) (i_block_hash i) (i_block_time i) (i_txid i) (i_tx_index i) @
     [(''input_index'', jnat (i_input_index i)), (''prev_txid'', JStr (i_prev_txid i)), (''prev_vout'', jnat (i_prev_vout i))] @
     script_doc (i_output i))"

definition legacy_doc :: "legacy_block \<Rightarrow> json" where
  "legacy_doc lb = JObj [(''block_height'', jnat (lb_height lb)), (''block_hash'', JStr (lb_hash lb)),
     (''parent_hash'', JStr (lb_parent lb)), (''block_time'', jnat (lb_time lb)), (''commit_id'', JStr (lb_commit lb)),
     (''transaction_count'', jnat (lb_count lb))]"

section \<open>Rows\<close>

definition row_header :: "block \<Rightarrow> (string \<times> json) list" where
  "row_header b = [(''network_id'', JStr (b_network b)), (''block_number'', jnat (b_number b)), (''block_hash'', JStr (b_hash b)),
     (''block_timestamp_unix_ms'', jnat (b_time_ms b)), (''commit_id'', JStr (b_commit b)), (''revision'', jnat (b_revision b)),
     (''created_at_unix_ms'', jnat (b_created b))]"

definition with_header :: "block \<Rightarrow> (string \<times> json) list \<Rightarrow> json" where
  "with_header b row = extend_obj (JObj row) (row_header b)"

definition jaddress :: "script_output \<Rightarrow> json" where
  "jaddress q = (if so_address q = [] then JNull else JStr (so_address q))"

definition script_kind :: "script_output \<Rightarrow> json" where
  "script_kind q = JStr (if so_address q = [] then ''script'' else ''address'')"

definition transaction_row :: "map_lib \<Rightarrow> block \<Rightarrow> transaction \<Rightarrow> json" where
  "transaction_row lib b t = with_header b [(''tx_hash'', JStr (t_txid t)), (''transaction_index'', jnat (t_tx_index t)),
     (''from_address'', JNull), (''to_address'', JNull), (''amount_raw'', JNull), (''fee_raw'', jtext (t_fee_sats t)),
     (''asset_id'', JStr (native_asset Bitcoin)), (''decimals'', jnat (native_decimals Bitcoin)),
     (''status'', JStr ''confirmed''), (''coinbase'', jnat (t_coinbase t)), (''input_count'', jnat (t_input_count t)),
     (''output_count'', jnat (t_output_count t)), (''raw_evidence_json'', JStr (ml_print lib (transaction_doc t)))]"

definition input_row :: "block \<Rightarrow> tx_input \<Rightarrow> json" where
  "input_row b i = with_header b [(''tx_hash'', JStr (i_txid i)), (''transaction_index'', jnat (i_tx_index i)),
     (''input_index'', jnat (i_input_index i)), (''address'', jaddress (i_output i)),
     (''script_hex'', JStr (so_script_hex (i_output i))), (''script_type'', JStr (so_script_type (i_output i))),
     (''value_sats'', jnat (so_value_sats (i_output i))), (''prev_tx_hash'', JStr (i_prev_txid i)),
     (''prev_output_index'', jnat (i_prev_vout i))]"

definition output_row :: "block \<Rightarrow> tx_output \<Rightarrow> json" where
  "output_row b q = with_header b [(''tx_hash'', JStr (o_txid q)), (''transaction_index'', jnat (o_tx_index q)),
     (''output_index'', jnat (o_output_index q)), (''coinbase'', jnat (o_coinbase q)), (''address'', jaddress (o_output q)),
     (''script_hex'', JStr (so_script_hex (o_output q))), (''script_type'', JStr (so_script_type (o_output q))),
     (''value_sats'', jnat (so_value_sats (o_output q)))]"

definition input_relation :: "map_lib \<Rightarrow> block \<Rightarrow> string \<Rightarrow> tx_input \<Rightarrow> json" where
  "input_relation lib b tx i = with_header b
     [(''relationship_id'', JStr (leg_id (b_hash b) (i_txid i) ''in'' (i_input_index i))), (''tx_hash'', JStr (i_txid i)),
      (''transaction_index'', jnat (i_tx_index i)), (''event_index'', jnat (i_input_index i)),
      (''from_subject_id'', JStr (so_subject (ml_btc lib) (i_output i))), (''from_subject_type'', script_kind (i_output i)),
      (''to_subject_id'', JStr tx), (''to_subject_type'', JStr ''transaction''),
      (''from_address'', jaddress (i_output i)), (''to_address'', JNull), (''asset_id'', JStr (native_asset Bitcoin)),
      (''amount_raw'', jtext (so_value_sats (i_output i))), (''decimals'', jnat (native_decimals Bitcoin)),
      (''transfer_type'', JStr ''utxo_input''), (''attribution_method'', JStr ''observed_prevout''), (''confidence'', JNum ''1.0''),
      (''prev_tx_hash'', JStr (i_prev_txid i)), (''prev_output_index'', jnat (i_prev_vout i)), (''output_index'', JNull),
      (''evidence_refs'', jstrs [''outpoint:'' @ i_prev_txid i @ '':'' @ show_nat (i_prev_vout i)]),
      (''event_sub_index'', jnat 0), (''trace_address'', JArr []), (''token_id'', JNull),
      (''raw_evidence_json'', JStr (ml_print lib (input_doc i)))]"

definition output_relation :: "map_lib \<Rightarrow> block \<Rightarrow> string \<Rightarrow> tx_output \<Rightarrow> json" where
  "output_relation lib b tx q = with_header b
     [(''relationship_id'', JStr (leg_id (b_hash b) (o_txid q) ''out'' (o_output_index q))), (''tx_hash'', JStr (o_txid q)),
      (''transaction_index'', jnat (o_tx_index q)), (''event_index'', jnat (o_output_index q)),
      (''from_subject_id'', JStr tx), (''from_subject_type'', JStr ''transaction''),
      (''to_subject_id'', JStr (so_subject (ml_btc lib) (o_output q))), (''to_subject_type'', script_kind (o_output q)),
      (''from_address'', JNull), (''to_address'', jaddress (o_output q)), (''asset_id'', JStr (native_asset Bitcoin)),
      (''amount_raw'', jtext (so_value_sats (o_output q))), (''decimals'', jnat (native_decimals Bitcoin)),
      (''transfer_type'', JStr ''utxo_output''), (''attribution_method'', JStr ''observed_output''), (''confidence'', JNum ''1.0''),
      (''prev_tx_hash'', JNull), (''prev_output_index'', JNull), (''output_index'', jnat (o_output_index q)),
      (''evidence_refs'', jstrs [''outpoint:'' @ o_txid q @ '':'' @ show_nat (o_output_index q)]),
      (''event_sub_index'', jnat 0), (''trace_address'', JArr []), (''token_id'', JNull),
      (''raw_evidence_json'', JStr (ml_print lib (output_doc q)))]"

definition subject_of_tx :: "map_lib \<Rightarrow> block \<Rightarrow> string \<Rightarrow> string res" where
  "subject_of_tx lib b txid = transaction_subject_id (rl_sha (ml_rows lib)) Bitcoin (b_hash b) txid"

text \<open>The tables of a block, in the order of their names.\<close>

definition map_evidence :: "map_lib \<Rightarrow> block \<Rightarrow> evidence \<Rightarrow> (string \<times> json list) list res" where
  "map_evidence lib b ev =
     attempt (block_facts (ml_digest lib) (ml_print lib) (ml_btc lib) b ev) (\<lambda>events.
     attempt (mapE (\<lambda>i. attempt (subject_of_tx lib b (i_txid i)) (\<lambda>tx. Inr (input_relation lib b tx i))) (inputs ev)) (\<lambda>ins.
     attempt (mapE (\<lambda>q. attempt (subject_of_tx lib b (o_txid q)) (\<lambda>tx. Inr (output_relation lib b tx q))) (outputs ev)) (\<lambda>outs.
     let tables = [(''aml_address_relationships'', ins @ outs), (''aml_bitcoin_inputs'', map (input_row b) (inputs ev)),
       (''aml_bitcoin_outputs'', map (output_row b) (outputs ev)), (''aml_semantic_aml_events'', events),
       (''aml_transactions'', map (transaction_row lib b) (transactions ev))]
     in attempt (forE (\<lambda>(table, rows). forE (\<lambda>row.
          if table = ''aml_address_relationships'' then validate_relationship (ml_rows lib) (ml_contract lib) row
          else validate_row (ml_rows lib) (ml_contract lib) table row) rows) tables) (\<lambda>_. Inr tables))))"

section \<open>Stored rows\<close>

definition amount_columns :: "string list" where
  "amount_columns = [''amount_raw'', ''fee_raw'', ''amount_in'', ''amount_out'']"

definition amount_text :: "map_lib \<Rightarrow> json \<Rightarrow> json" where
  "amount_text lib v = (case v of JStr s \<Rightarrow> JStr s | JNum t \<Rightarrow> JStr t | JNull \<Rightarrow> JNull | _ \<Rightarrow> JStr (ml_print lib v))"

text \<open>\<open>normalize\<close> of \<open>verify_rows\<close>.\<close>

definition normal_text :: "map_lib \<Rightarrow> json \<Rightarrow> string res" where
  "normal_text lib row =
     need (case row of JObj kvs \<Rightarrow> Some kvs | _ \<Rightarrow> None) ''expected evidence object'' (\<lambda>kvs.
     attempt (mapE (\<lambda>(k, v).
        if k = ''confidence''
        then need (Option.bind (case v of JNum t \<Rightarrow> Some t | _ \<Rightarrow> None) (ml_float lib)) ''invalid confidence'' (\<lambda>t. Inr (k, JNum t))
        else Inr (k, if k \<in> set amount_columns then amount_text lib v else v)) (filter (\<lambda>(k, _). k \<noteq> ''network_id'') kvs)) (\<lambda>kvs.
     Inr (ml_print lib (JObj kvs))))"

definition key_columns :: "string \<Rightarrow> string list" where
  "key_columns table =
     (if table = ''aml_address_relationships'' then [''relationship_id'']
      else if table = ''aml_semantic_aml_events'' then [''event_id'']
      else if table = ''aml_bitcoin_inputs'' then [''tx_hash'', ''input_index'']
      else if table = ''aml_bitcoin_outputs'' then [''tx_hash'', ''output_index'']
      else [''tx_hash''])"

definition key_text :: "json \<Rightarrow> string" where
  "key_text v = (case v of JStr s \<Rightarrow> s | JNum t \<Rightarrow> t | _ \<Rightarrow> [])"

definition row_key :: "string \<Rightarrow> json \<Rightarrow> string" where
  "row_key table row = concat (map (\<lambda>c. key_text (field row c) @ ''/'') (key_columns table))"

text \<open>A mapped row under the header of its block, as the table stores it.\<close>

definition stored_text :: "map_lib \<Rightarrow> json \<Rightarrow> string" where
  "stored_text lib row = (case normal_text lib row of Inl _ \<Rightarrow> ml_print lib row | Inr t \<Rightarrow> t)"

definition fact_of_row :: "map_lib \<Rightarrow> block \<Rightarrow> string \<Rightarrow> json \<Rightarrow> fact" where
  "fact_of_row lib b table row = \<lparr>f_network = b_network b, f_number = b_number b, f_hash = b_hash b, f_time_ms = b_time_ms b,
     f_commit = b_commit b, f_revision = b_revision b, f_key = row_key table row, f_body = stored_text lib row\<rparr>"

definition table_facts :: "map_lib \<Rightarrow> block \<Rightarrow> string \<times> json list \<Rightarrow> string \<times> fact list" where
  "table_facts lib b tr = (fst tr, map (fact_of_row lib b (fst tr)) (snd tr))"

text \<open>Every row is read back before the block is completed.\<close>

definition verify_rows :: "map_lib \<Rightarrow> block \<Rightarrow> (string \<times> json list) list \<Rightarrow> (store, unit) io" where
  "verify_rows lib b tables =
     io_for (\<lambda>(table, rows). io_get (\<lambda>s. map f_body (committed_facts b table s)) (\<lambda>actual.
       io_attempt (mapE (normal_text lib) rows) (\<lambda>expected.
       io_ensure (sort actual = sort expected) (''warehouse evidence verification failed: '' @ table)
         (io_return ())))) tables"

section \<open>Writing a block\<close>

text \<open>Where the legacy checkpoint must not move during a migration, the one expected and the one found.\<close>

record write_context =
  wc_observed :: nat
  wc_start :: nat
  wc_source :: string
  wc_legacy :: "(sync_state \<times> sync_state) option"

definition db_revision :: "(nat \<Rightarrow> nat) \<Rightarrow> nat \<Rightarrow> (store, nat) io" where
  "db_revision clk prev = next_revision Bitcoin (max prev (saturating_mul64 (clk 0) 1000))"

definition written_block :: "(nat \<Rightarrow> nat) \<Rightarrow> legacy_block \<Rightarrow> write_context \<Rightarrow> nat \<Rightarrow> nat \<Rightarrow> block" where
  "written_block clk lb wc ver ms = \<lparr>b_network = network_id Bitcoin, b_number = lb_height lb, b_hash = lb_hash lb, b_time_ms = ms,
     b_commit = show_nat ver @ ''-'' @ lb_hash lb, b_revision = ver, b_parent = lb_parent lb, b_canonical = 1,
     b_status = ''complete'', b_tx_count = lb_count lb, b_receipt = None, b_trace = None, b_prevout = Some 1,
     b_source = wc_source wc, b_created = clk 1, b_counts = [], b_evidence = []\<rparr>"

definition written_state :: "(nat \<Rightarrow> nat) \<Rightarrow> sync_state \<Rightarrow> legacy_block \<Rightarrow> write_context \<Rightarrow> nat \<Rightarrow> sync_state" where
  "written_state clk prev lb wc ver = \<lparr>st_network = network_id Bitcoin, st_revision = ver, st_initialized = 1,
     st_start = (if st_initialized prev = 1 then st_start prev else wc_start wc), st_last = lb_height lb,
     st_hash = lb_hash lb, st_observed = wc_observed wc, st_published = clk 2\<rparr>"

definition write_block ::
  "map_lib \<Rightarrow> wh \<Rightarrow> (nat \<Rightarrow> nat) \<Rightarrow> sync_state \<Rightarrow> legacy_block \<Rightarrow> evidence \<Rightarrow> write_context \<Rightarrow> (store, sync_state) io" where
  "write_block lib w clk prev lb ev wc =
     io_attempt (validate_evidence (ml_btc lib) lb ev) (\<lambda>_.
     io_need (if st_initialized prev = 1 then checked_add64 (st_last prev) 1 else Some (wc_start wc)) ''height exhausted''
       (\<lambda>expected. io_ensure (lb_height lb = expected) ''non-contiguous warehouse block''
     (io_ensure (st_initialized prev = 1 \<longrightarrow> lb_parent lb = st_hash prev) ''warehouse parent hash mismatch''
     (io_then (db_revision clk (st_revision prev)) (\<lambda>ver.
      io_attempt (millis_from_seconds (lb_time lb)) (\<lambda>ms.
      let b = written_block clk lb wc ver ms in
      io_attempt (map_evidence lib b ev) (\<lambda>rows.
      io_then (reserve w b) (\<lambda>_.
      io_then (io_for (\<lambda>(t, fs). put_facts w b t fs) (map (table_facts lib b) rows)) (\<lambda>_.
      io_then (verify_rows lib b rows) (\<lambda>_.
      io_then (complete_block w b (map (\<lambda>(t, rs). (t, length rs)) rows)
         (ml_print lib (extend_obj (legacy_doc lb) [(''semantic_detection'', block_manifest (ml_digest lib) ev)]))) (\<lambda>_.
      io_ensure (\<forall>p \<in> set_option (wc_legacy wc). fst p = snd p)
        ''legacy checkpoint changed before publication; stop all legacy writers''
      (io_then (publish w Bitcoin prev (written_state clk prev lb wc ver)) (\<lambda>_.
       io_return (written_state clk prev lb wc ver))))))))))))))"


section \<open>Outcomes of a write\<close>

lemma verify_rows_pure: "snd (verify_rows lib b tables s) = s"
  unfolding verify_rows_def
  by (rule io_for_check)
    (auto simp: io_get_def io_attempt_def io_ensure_def io_return_def split: if_splits sum.splits prod.splits)

lemma verify_rows_ok:
  "verify_rows lib b tables s = (Inr (), t) \<Longrightarrow> t = s \<and>
     (\<forall>(table, rows) \<in> set tables. \<exists>expected. mapE (normal_text lib) rows = Inr expected \<and>
        mset (map f_body (committed_facts b table s)) = mset expected)"
proof (induction tables)
  case Nil
  then show ?case by (simp add: verify_rows_def io_return_def)
next
  case (Cons x tables)
  obtain table rows where x: "x = (table, rows)" by (cases x)
  from Cons.prems obtain expected where e: "mapE (normal_text lib) rows = Inr expected"
    "sort (map f_body (committed_facts b table s)) = sort expected" "verify_rows lib b tables s = (Inr (), t)"
    by (auto simp: verify_rows_def io_simps x)
  then have "mset (map f_body (committed_facts b table s)) = mset expected" by (metis mset_sort)
  with Cons.IH[OF e(3)] e(1) show ?case by (auto simp: x)
qed

definition next_height :: "sync_state \<Rightarrow> write_context \<Rightarrow> nat \<Rightarrow> bool" where
  "next_height prev wc h \<longleftrightarrow>
     (if st_initialized prev = 1 then checked_add64 (st_last prev) 1 else Some (wc_start wc)) = Some h"

lemma next_height_above: "next_height prev wc h \<Longrightarrow> st_initialized prev = 1 \<Longrightarrow> h = st_last prev + 1"
  by (auto simp: next_height_def ok_simps)

lemma write_block_ok:
  assumes "write_block lib w clk prev lb ev wc s = (Inr n, t)"
  obtains ver ms rows u1 u2 u3 where "validate_evidence (ml_btc lib) lb ev = Inr ()" "next_height prev wc (lb_height lb)"
    "st_initialized prev = 1 \<longrightarrow> lb_parent lb = st_hash prev" "db_revision clk (st_revision prev) s = (Inr ver, s)"
    "map_evidence lib (written_block clk lb wc ver ms) ev = Inr rows"
    "reserve w (written_block clk lb wc ver ms) s = (Inr (), u1)"
    "io_for (\<lambda>(t, fs). put_facts w (written_block clk lb wc ver ms) t fs) (map (table_facts lib (written_block clk lb wc ver ms)) rows) u1 = (Inr (), u2)"
    "verify_rows lib (written_block clk lb wc ver ms) rows u2 = (Inr (), u2)"
    "complete_block w (written_block clk lb wc ver ms) (map (\<lambda>(t, rs). (t, length rs)) rows)
         (ml_print lib (extend_obj (legacy_doc lb) [(''semantic_detection'', block_manifest (ml_digest lib) ev)])) u2 = (Inr (), u3)"
    "n = written_state clk prev lb wc ver" "publish w Bitcoin prev n u3 = (Inr (), t)"
proof -
  from assms obtain v h ver u0 ms rows u1 u2 u2' u3 where
    "validate_evidence (ml_btc lib) lb ev = Inr v" and
    h: "(if st_initialized prev = 1 then checked_add64 (st_last prev) 1 else Some (wc_start wc)) = Some h" "lb_height lb = h" and
    p: "st_initialized prev = 1 \<longrightarrow> lb_parent lb = st_hash prev" and
    r: "db_revision clk (st_revision prev) s = (Inr ver, u0)" and
    m: "map_evidence lib (written_block clk lb wc ver ms) ev = Inr rows"
    "reserve w (written_block clk lb wc ver ms) u0 = (Inr (), u1)"
    "io_for (\<lambda>(t, fs). put_facts w (written_block clk lb wc ver ms) t fs) (map (table_facts lib (written_block clk lb wc ver ms)) rows) u1 = (Inr (), u2)"
    and v: "verify_rows lib (written_block clk lb wc ver ms) rows u2 = (Inr (), u2')" and
    c: "complete_block w (written_block clk lb wc ver ms) (map (\<lambda>(t, rs). (t, length rs)) rows)
         (ml_print lib (extend_obj (legacy_doc lb) [(''semantic_detection'', block_manifest (ml_digest lib) ev)])) u2' = (Inr (), u3)" and
    n: "n = written_state clk prev lb wc ver" "publish w Bitcoin prev n u3 = (Inr (), t)"
    unfolding write_block_def Let_def io_attempt_ok io_need_ok io_ensure_ok io_then_ok io_return_ok sum.inject
    by (elim exE conjE) (rule that, (assumption | simp)+)
  have "u0 = s" using r next_revision_above by (auto simp: db_revision_def)
  moreover have "u2' = u2" using verify_rows_pure[of lib "written_block clk lb wc ver ms" rows u2] v by simp
  ultimately show ?thesis
    using that[of ver ms rows u1 u2 u3] m v c n p r h \<open>validate_evidence _ _ _ = Inr v\<close> by (auto simp: next_height_def)
qed

text \<open>What a write that fails leaves is hidden from every checkpoint that hides the height of its block.\<close>

lemma write_block_hidden:
  assumes "write_block lib w clk prev lb ev wc s = (Inl e, t)"
    and hide: "\<And>b. next_height prev wc (lb_height lb) \<Longrightarrow> b_number b = lb_height lb \<Longrightarrow> hidden c b"
  shows "ahead c s t"
proof -
  have rev: "leads (ahead c) (db_revision clk r)" for r
    by (auto simp: leads_def db_revision_def next_revision_def io_get_def io_need_def io_return_def ahead_refl split: option.splits)
  have ver: "leads (ahead c) (verify_rows lib b rows)" for b rows
    by (simp add: leads_def verify_rows_pure ahead_refl)
  have facts: "leads (ahead c) (io_for (\<lambda>(t, fs). put_facts w b t fs) tables)" for b tables
    by (rule ahead.leads_for) (simp add: leads_put_facts split: prod.splits)
  have "fails_in (ahead c) (write_block lib w clk prev lb ev wc)"
    unfolding write_block_def Let_def
  proof (rule ahead.fails_attempt, rule ahead.fails_need, (rule ahead.fails_ensure)+,
      rule ahead.fails_then[OF rev], rule ahead.fails_attempt, rule ahead.fails_attempt)
    fix h r ms rows
    assume "(if st_initialized prev = 1 then checked_add64 (st_last prev) 1 else Some (wc_start wc)) = Some h" "lb_height lb = h"
    then have "next_height prev wc (lb_height lb)" by (simp add: next_height_def)
    then have h: "hidden c (written_block clk lb wc r ms)" "hidden c ((written_block clk lb wc r ms)\<lparr>b_revision := k\<rparr>)" for k
      by (auto intro: hide simp: written_block_def)
    have "\<not> rolls_back prev (written_state clk prev lb wc r)"
      using \<open>next_height prev wc (lb_height lb)\<close> next_height_above by (fastforce simp: rolls_back_def written_state_def)
    then have pub: "fails_in (ahead c) (publish w Bitcoin prev (written_state clk prev lb wc r))"
      by (auto simp: fails_in_def intro: publish_forward_error)
    let ?b = "written_block clk lb wc r ms"
    show "fails_in (ahead c) (io_then (reserve w ?b) (\<lambda>_.
        io_then (io_for (\<lambda>(t, fs). put_facts w ?b t fs) (map (table_facts lib ?b) rows)) (\<lambda>_.
        io_then (verify_rows lib ?b rows) (\<lambda>_.
        io_then (complete_block w ?b (map (\<lambda>(t, rs). (t, length rs)) rows)
           (ml_print lib (extend_obj (legacy_doc lb) [(''semantic_detection'', block_manifest (ml_digest lib) ev)]))) (\<lambda>_.
        io_ensure (\<forall>p \<in> set_option (wc_legacy wc). fst p = snd p)
          ''legacy checkpoint changed before publication; stop all legacy writers''
        (io_then (publish w Bitcoin prev (written_state clk prev lb wc r)) (\<lambda>_.
         io_return (written_state clk prev lb wc r))))))))"
    proof (rule ahead.fails_then[OF leads_reserve ahead.fails_then[OF facts ahead.fails_then[OF ver ahead.fails_then[OF leads_complete]]]])
      show "fails_in (ahead c) (io_ensure (\<forall>p \<in> set_option (wc_legacy wc). fst p = snd p)
          ''legacy checkpoint changed before publication; stop all legacy writers''
        (io_then (publish w Bitcoin prev (written_state clk prev lb wc r)) (\<lambda>_.
         io_return (written_state clk prev lb wc r))))"
        by (rule ahead.fails_ensure, rule ahead.fails_last[OF pub]) (simp add: io_return_def)
    qed (use h in auto)
  qed
  with assms show ?thesis by (simp add: fails_in_def)
qed

lemma write_block_error:
  assumes "write_block lib w clk prev lb ev wc s = (Inl e, t)"
  shows "ahead prev s t"
proof (rule write_block_hidden[OF assms])
  fix b :: block
  assume "next_height prev wc (lb_height lb)" "b_number b = lb_height lb"
  then show "hidden prev b" using next_height_above by (fastforce simp: hidden_def)
qed

text \<open>The published range stays settled.\<close>

lemma hidden_settled:
  assumes "settled net s" "current_state net s = p" "st_initialized p = 1"
    and "\<And>k. ahead (p\<lparr>st_revision := k\<rparr>) s t"
  shows "settled net t"
proof -
  let ?k = "Max (insert 0 (b_revision ` set (blocks t)))"
  obtain new where t: "states t = states s" "blocks t = blocks s @ new" "\<forall>b \<in> set new. hidden (p\<lparr>st_revision := ?k\<rparr>) b"
    using assms(4)[of ?k] by (auto simp: ahead_def)
  have c: "current_state net t = p" using t(1) assms(2) by (simp add: current_state_def sync_row_def)
  have "b_revision b \<le> ?k" if "b \<in> set (blocks t)" for b using that by (intro Max_ge) auto
  then have "b_number b < st_start p \<or> st_last p < b_number b" if "b \<in> set new" for b
    using that t(2,3) assms(3) by (fastforce simp: hidden_def)
  then show ?thesis using assms(1,2) by (fastforce simp: settled_def Let_def c t(2))
qed

lemma write_block_error_settled:
  assumes "write_block lib w clk prev lb ev wc s = (Inl e, t)" "settled Bitcoin s" "current_state Bitcoin s = prev"
  shows "settled Bitcoin t"
proof (cases "st_initialized prev = 1")
  case True
  have "ahead (prev\<lparr>st_revision := k\<rparr>) s t" for k
  proof (rule write_block_hidden[OF assms(1)])
    fix b :: block
    assume "next_height prev wc (lb_height lb)" "b_number b = lb_height lb"
    then show "hidden (prev\<lparr>st_revision := k\<rparr>) b" using next_height_above True by (fastforce simp: hidden_def)
  qed
  then show ?thesis using hidden_settled[OF assms(2,3) True] by blast
next
  case False
  have "current_state Bitcoin t = prev" using ahead_current[OF write_block_error[OF assms(1)]] assms(3) by simp
  with False show ?thesis by (simp add: settled_def)
qed



text \<open>A write leaves the facts it verified.\<close>

interpretation same_facts: effect_order "\<lambda>s t. facts t = facts s"
  by unfold_locales auto

lemma publish_keeps_facts: "publish w net p n s = (r, t) \<Longrightarrow> facts t = facts s"
proof -
  let ?R = "\<lambda>s t. facts t = facts s"
  have st: "leads ?R (insert_states w xs)" for xs
    using insert_states_appends by (auto simp: leads_def) (metis prod.collapse)
  have bl: "leads ?R (insert_blocks w xs)" for xs
    using insert_blocks_appends by (auto simp: leads_def) (metis prod.collapse)
  have "leads ?R (orphan_suffix w net p n)"
    unfolding orphan_suffix_def by (intro same_facts.leads_steps bl)
  then have m: "leads ?R (if rolls_back p n then orphan_suffix w net p n else io_return ())"
    by (cases "rolls_back p n") (simp_all add: same_facts.leads_return)
  have "leads ?R (publish w net p n)"
    unfolding publish_def by (intro same_facts.leads_steps m st)
  then show "publish w net p n s = (r, t) \<Longrightarrow> facts t = facts s" by (rule leadsD)
qed

text \<open>The rows of a block are exactly those mapped from its evidence.\<close>

definition holds_rows :: "map_lib \<Rightarrow> block \<Rightarrow> (string \<times> json list) list \<Rightarrow> store \<Rightarrow> bool" where
  "holds_rows lib b tables s \<longleftrightarrow> (\<forall>(table, rows) \<in> set tables. \<exists>expected.
     mapE (normal_text lib) rows = Inr expected \<and> mset (map f_body (committed_facts b table s)) = mset expected)"

lemma committed_facts_cong: "facts t = facts s \<Longrightarrow> committed_facts b table t = committed_facts b table s"
  by (simp add: committed_facts_def)

lemma write_block_rows:
  assumes run: "write_block lib w clk prev lb ev wc s = (Inr n, t)"
  obtains ver ms rows where "map_evidence lib (written_block clk lb wc ver ms) ev = Inr rows"
    "holds_rows lib (written_block clk lb wc ver ms) rows t" "n = written_state clk prev lb wc ver"
    "validate_evidence (ml_btc lib) lb ev = Inr ()" "next_height prev wc (lb_height lb)"
    "st_initialized prev = 1 \<longrightarrow> lb_parent lb = st_hash prev"
proof -
  obtain ver ms rows u1 u2 u3 where v: "validate_evidence (ml_btc lib) lb ev = Inr ()" "next_height prev wc (lb_height lb)"
    "st_initialized prev = 1 \<longrightarrow> lb_parent lb = st_hash prev"
    "map_evidence lib (written_block clk lb wc ver ms) ev = Inr rows"
    and b: "reserve w (written_block clk lb wc ver ms) s = (Inr (), u1)"
    "io_for (\<lambda>(t, fs). put_facts w (written_block clk lb wc ver ms) t fs) (map (table_facts lib (written_block clk lb wc ver ms)) rows) u1 = (Inr (), u2)"
    and k: "verify_rows lib (written_block clk lb wc ver ms) rows u2 = (Inr (), u2)"
    and c: "complete_block w (written_block clk lb wc ver ms) (map (\<lambda>(t, rs). (t, length rs)) rows)
         (ml_print lib (extend_obj (legacy_doc lb) [(''semantic_detection'', block_manifest (ml_digest lib) ev)])) u2 = (Inr (), u3)"
    and n: "n = written_state clk prev lb wc ver" "publish w Bitcoin prev n u3 = (Inr (), t)"
    by (rule write_block_ok[OF run]) (rule that)
  from block_steps_ok[OF b c] have "facts u3 = facts u2" by blast
  with publish_keeps_facts[OF n(2)] have "facts t = facts u2" by simp
  then have "holds_rows lib (written_block clk lb wc ver ms) rows t"
    using verify_rows_ok[OF k] by (simp add: holds_rows_def committed_facts_cong[of t u2])
  then show ?thesis using that v n(1) by blast
qed

text \<open>Before the fence moves: two rows at the height of the block, above everything written before.\<close>

lemma write_block_staged:
  assumes run: "write_block lib w clk prev lb ev wc s = (Inr n, t)"
  obtains u b1 b2 where "publish w Bitcoin prev n u = (Inr (), t)" "blocks u = blocks s @ [b1, b2]" "states u = states s"
    "identity u = identity s" "b_number b1 = lb_height lb" "b_number b2 = lb_height lb"
    "b_revision b1 \<le> st_revision n" "b_revision b2 \<le> st_revision n" "rows_below Bitcoin (st_revision n) s"
    "next_height prev wc (lb_height lb)" "\<exists>ver. n = written_state clk prev lb wc ver"
proof -
  obtain ver ms rows u1 u2 u3 where v: "next_height prev wc (lb_height lb)" "db_revision clk (st_revision prev) s = (Inr ver, s)"
    and b: "reserve w (written_block clk lb wc ver ms) s = (Inr (), u1)"
    "io_for (\<lambda>(t, fs). put_facts w (written_block clk lb wc ver ms) t fs) (map (table_facts lib (written_block clk lb wc ver ms)) rows) u1 = (Inr (), u2)"
    and c: "complete_block w (written_block clk lb wc ver ms) (map (\<lambda>(t, rs). (t, length rs)) rows)
         (ml_print lib (extend_obj (legacy_doc lb) [(''semantic_detection'', block_manifest (ml_digest lib) ev)])) u2 = (Inr (), u3)"
    and n: "n = written_state clk prev lb wc ver" "publish w Bitcoin prev n u3 = (Inr (), t)"
    by (rule write_block_ok[OF run]) (rule that)
  obtain b1 b2 where u: "blocks u3 = blocks s @ [b1, b2]" "states u3 = states s" "identity u3 = identity s"
    "b_number b1 = lb_height lb" "b_number b2 = lb_height lb" "b_revision b1 \<le> ver" "b_revision b2 = ver"
    by (rule block_steps_ok[OF b c]) (simp add: that written_block_def)
  have "rows_below Bitcoin (ver - 3) s" using v(2) next_revision_above by (auto simp: db_revision_def)
  then have "rows_below Bitcoin (st_revision n) s"
    by (auto simp: rows_below_def n(1) written_state_def intro: order_trans)
  then show ?thesis using that[OF n(2) u(1-5)] u(6,7) v(1) n(1) by (auto simp: written_state_def)
qed

lemma write_block_keeps_chain:
  assumes run: "write_block lib w clk prev lb ev wc s = (Inr n, t)"
    and inv: "chain_ok Bitcoin s" "settled Bitcoin s"
  shows "chain_ok Bitcoin t \<and> settled Bitcoin t \<and> current_state Bitcoin t = n"
proof -
  obtain u b1 b2 where u: "publish w Bitcoin prev n u = (Inr (), t)" "blocks u = blocks s @ [b1, b2]" "states u = states s"
    "identity u = identity s" "b_number b1 = lb_height lb" "b_number b2 = lb_height lb"
    "b_revision b1 \<le> st_revision n" "b_revision b2 \<le> st_revision n" "rows_below Bitcoin (st_revision n) s"
    and h: "next_height prev wc (lb_height lb)" and n: "\<exists>ver. n = written_state clk prev lb wc ver"
    by (rule write_block_staged[OF run]) (rule that)
  have "st_start n = st_last n" if "st_initialized prev = 0"
    using that h n by (auto simp: written_state_def next_height_def)
  then show ?thesis
    using publish_next_block[OF u(1-6) _ u(7,8) inv u(9)] next_height_above[OF h] by simp
qed

lemma write_block_keeps_blocks:
  assumes run: "write_block lib w clk prev lb ev wc s = (Inr n, t)"
    and inv: "chain_ok Bitcoin s" "settled Bitcoin s" and k: "st_initialized prev = 1" "k \<le> st_last prev"
  shows "canonical_at Bitcoin k t = canonical_at Bitcoin k s"
proof -
  obtain u b1 b2 where u: "publish w Bitcoin prev n u = (Inr (), t)" "blocks u = blocks s @ [b1, b2]" "states u = states s"
    "identity u = identity s" "b_number b1 = lb_height lb" "b_number b2 = lb_height lb"
    "b_revision b1 \<le> st_revision n" "b_revision b2 \<le> st_revision n" "rows_below Bitcoin (st_revision n) s"
    and h: "next_height prev wc (lb_height lb)" and n: "\<exists>ver. n = written_state clk prev lb wc ver"
    by (rule write_block_staged[OF run]) (rule that)
  have "st_initialized n = 1" "st_last n = lb_height lb" using n by (auto simp: written_state_def)
  then show ?thesis
    using publish_next_keeps[OF u(1-6) _ u(7,8) inv u(9) k(1) _ k(2)] next_height_above[OF h] k(1) by simp
qed



section \<open>Mapped rows mean what the evidence says\<close>

definition faithful_lib :: "map_lib \<Rightarrow> bool" where
  "faithful_lib lib \<longleftrightarrow> rl_f64 (ml_rows lib) ''1.0'' = Some 1 \<and>
     (\<forall>bs. lib_script_address (ml_btc lib) bs \<noteq> [] \<longrightarrow>
        address_syntax (rl_sha (ml_rows lib)) Bitcoin (lib_script_address (ml_btc lib) bs) = Inr ()) \<and>
     (\<forall>h. hex (lib_sha_hex (ml_btc lib) h) 64 \<and> ascii_lower (lib_sha_hex (ml_btc lib) h) = lib_sha_hex (ml_btc lib) h)"

lemma map_of_outside: "map_of (filter (\<lambda>(k, _). k \<notin> S) kvs) k = (if k \<in> S then None else map_of kvs k)"
  by (induction kvs) auto

lemma field_extend:
  "field (extend_obj (JObj row) kvs) k = (if k \<in> fst ` set kvs then field (JObj kvs) k else field (JObj row) k)"
proof -
  have "map_of kvs k = None \<longleftrightarrow> k \<notin> fst ` set kvs" by (rule map_of_eq_None_iff)
  then show ?thesis
    by (auto simp: extend_obj_def members_def map_of_outside map_add_def map_of_append split: option.split)
qed

lemma header_keys: "fst ` set (row_header b) = {''network_id'', ''block_number'', ''block_hash'', ''block_timestamp_unix_ms'',
    ''commit_id'', ''revision'', ''created_at_unix_ms''}"
  by (auto simp: row_header_def)

lemma field_header:
  "field (with_header b row) ''network_id'' = JStr (b_network b)"
  "field (with_header b row) ''block_hash'' = JStr (b_hash b)"
  "k \<notin> {''network_id'', ''block_number'', ''block_hash'', ''block_timestamp_unix_ms'', ''commit_id'', ''revision'', ''created_at_unix_ms''} \<Longrightarrow>
     field (with_header b row) k = field (JObj row) k"
  unfolding with_header_def field_extend header_keys by (simp_all add: row_header_def)

lemma sound_subject:
  assumes "faithful_lib lib" "sound_output (ml_btc lib) q"
  shows "subject_new (rl_sha (ml_rows lib)) Bitcoin (if so_address q = [] then Script else Address) (so_subject (ml_btc lib) q) =
    Inr \<lparr>s_network = network_id Bitcoin, s_id = so_subject (ml_btc lib) q, s_kind = (if so_address q = [] then Script else Address)\<rparr>"
proof (cases "so_address q = []")
  case True
  have "strip_prefix ''script:'' (''script:'' @ d) = Some d" for d by (simp add: strip_prefix_def)
  with True assms(1) show ?thesis
    by (simp add: subject_new_def so_subject_def script_syntax_def faithful_lib_def del: append.simps)
next
  case False
  from assms(2) obtain bs where "so_address q = lib_script_address (ml_btc lib) bs" by (auto simp: sound_output_def)
  with False assms(1) have "address_syntax (rl_sha (ml_rows lib)) Bitcoin (so_address q) = Inr ()"
    by (simp add: faithful_lib_def)
  with False show ?thesis by (simp add: subject_new_def so_subject_def)
qed

lemma occurrence_ok:
  assumes "btc_hash b = Inr b" "btc_hash t = Inr t"
  shows "transaction_subject_id sha Bitcoin b t = Inr (''tx:'' @ b @ '':'' @ t)"
    "subject_new sha Bitcoin Transaction (''tx:'' @ b @ '':'' @ t) =
       Inr \<lparr>s_network = network_id Bitcoin, s_id = ''tx:'' @ b @ '':'' @ t, s_kind = Transaction\<rparr>"
proof -
  have n: "normalize_hash Bitcoin b = Inr b" "normalize_hash Bitcoin t = Inr t" using assms by (simp_all add: btc_hash_def)
  from hash_no_colon[OF n(1)] have "split_once (CHR '':'') (b @ CHR '':'' # t) = Some (b, t)" by (rule split_once_mid)
  moreover have "strip_prefix ''tx:'' (''tx:'' @ b @ '':'' @ t) = Some (b @ '':'' @ t)" by (simp add: strip_prefix_def)
  ultimately have o: "occurrence_syntax Bitcoin (''tx:'' @ b @ '':'' @ t) = Inr ()"
    using n by (simp add: occurrence_syntax_def)
  show "transaction_subject_id sha Bitcoin b t = Inr (''tx:'' @ b @ '':'' @ t)"
    unfolding transaction_subject_ok using o by blast
  show "subject_new sha Bitcoin Transaction (''tx:'' @ b @ '':'' @ t) =
       Inr \<lparr>s_network = network_id Bitcoin, s_id = ''tx:'' @ b @ '':'' @ t, s_kind = Transaction\<rparr>"
    using o by (simp add: subject_new_def)
qed

definition script_subject :: "map_lib \<Rightarrow> script_output \<Rightarrow> subject" where
  "script_subject lib q = \<lparr>s_network = network_id Bitcoin, s_id = so_subject (ml_btc lib) q,
     s_kind = (if so_address q = [] then Script else Address)\<rparr>"

definition tx_subject :: "block \<Rightarrow> string \<Rightarrow> subject" where
  "tx_subject b txid = \<lparr>s_network = network_id Bitcoin, s_id = ''tx:'' @ b_hash b @ '':'' @ txid, s_kind = Transaction\<rparr>"

lemma kind_parse_names [simp]: "kind_parse ''script'' = Inr Script" "kind_parse ''address'' = Inr Address"
  "kind_parse ''transaction'' = Inr Transaction"
  by (simp_all add: kind_parse_def)

lemma input_endpoints:
  assumes "faithful_lib lib" "sound_output (ml_btc lib) (i_output i)" "btc_hash (b_hash b) = Inr (b_hash b)"
    and "btc_hash (i_txid i) = Inr (i_txid i)"
  shows "endpoint (ml_rows lib) (input_relation lib b (''tx:'' @ b_hash b @ '':'' @ i_txid i) i) Bitcoin ''from'' =
      Inr (script_subject lib (i_output i))"
    "endpoint (ml_rows lib) (input_relation lib b (''tx:'' @ b_hash b @ '':'' @ i_txid i) i) Bitcoin ''to'' =
      Inr (tx_subject b (i_txid i))"
  using sound_subject[OF assms(1,2)] occurrence_ok(2)[OF assms(3,4)]
  by (auto simp: endpoint_def input_relation_def field_header row_text_def script_subject_def tx_subject_def
      script_kind_def jaddress_def so_subject_def)


lemma output_endpoints:
  assumes "faithful_lib lib" "sound_output (ml_btc lib) (o_output q)" "btc_hash (b_hash b) = Inr (b_hash b)"
    and "btc_hash (o_txid q) = Inr (o_txid q)"
  shows "endpoint (ml_rows lib) (output_relation lib b (''tx:'' @ b_hash b @ '':'' @ o_txid q) q) Bitcoin ''to'' =
      Inr (script_subject lib (o_output q))"
    "endpoint (ml_rows lib) (output_relation lib b (''tx:'' @ b_hash b @ '':'' @ o_txid q) q) Bitcoin ''from'' =
      Inr (tx_subject b (o_txid q))"
  using sound_subject[OF assms(1,2)] occurrence_ok(2)[OF assms(3,4)]
  by (auto simp: endpoint_def output_relation_def field_header row_text_def script_subject_def tx_subject_def
      script_kind_def jaddress_def so_subject_def)

lemma bitcoin_network: "network_parse (network_id Bitcoin) = Inr Bitcoin"
  by code_simp

lemma input_interpreted:
  assumes "faithful_lib lib" "sound_output (ml_btc lib) (i_output i)" "btc_hash (b_hash b) = Inr (b_hash b)"
    and "btc_hash (i_txid i) = Inr (i_txid i)" "i_input_index i < u64_lim" "i_prev_vout i < u64_lim" "b_network b = network_id Bitcoin"
  shows "interpret_row (ml_rows lib) (input_relation lib b (''tx:'' @ b_hash b @ '':'' @ i_txid i) i) =
    Inr (script_subject lib (i_output i), tx_subject b (i_txid i))"
proof -
  define tx where tx: "tx = ''tx:'' @ b_hash b @ '':'' @ i_txid i"
  define row where row: "row = input_relation lib b tx i"
  have f: "field row ''network_id'' = JStr (network_id Bitcoin)" "field row ''block_hash'' = JStr (b_hash b)"
    "field row ''tx_hash'' = JStr (i_txid i)" "field row ''event_sub_index'' = jnat 0" "field row ''trace_address'' = JArr []"
    "field row ''token_id'' = JNull" "field row ''confidence'' = JNum ''1.0''" "field row ''event_index'' = jnat (i_input_index i)"
    "field row ''transfer_type'' = JStr ''utxo_input''" "field row ''output_index'' = JNull"
    "field row ''attribution_method'' = JStr ''observed_prevout''" "field row ''prev_tx_hash'' = JStr (i_prev_txid i)"
    "field row ''prev_output_index'' = jnat (i_prev_vout i)"
    "field row ''relationship_id'' = JStr (leg_id (b_hash b) (i_txid i) ''in'' (i_input_index i))"
    "field row ''evidence_refs'' = jstrs [''outpoint:'' @ i_prev_txid i @ '':'' @ show_nat (i_prev_vout i)]"
    by (simp_all add: row input_relation_def field_header assms(7) del: network_id.simps)
  have k: "s_id (tx_subject b (i_txid i)) = tx" "s_kind (tx_subject b h) = Transaction"
    "s_kind (script_subject lib r) = Address \<or> s_kind (script_subject lib r) = Script" for h r
    by (simp_all add: tx_subject_def script_subject_def tx)
  have i: "interpret_utxo (ml_rows lib) row (script_subject lib (i_output i)) (tx_subject b (i_txid i)) =
      Inr (script_subject lib (i_output i), tx_subject b (i_txid i))"
    using assms(1,5,6) occurrence_ok(1)[OF assms(3,4), folded tx]
    by (simp add: interpret_utxo_def f row_text_def row_number_def row_null_def utxo_input_def float_of_def
        faithful_lib_def is_int_def jstrs_def k)
  show ?thesis
    using i input_endpoints[OF assms(1-4), folded tx, folded row] bitcoin_network
    unfolding tx[symmetric] row[symmetric] by (simp add: interpret_row_def row_text_def f(1) del: network_id.simps)
qed

lemma output_interpreted:
  assumes "faithful_lib lib" "sound_output (ml_btc lib) (o_output q)" "btc_hash (b_hash b) = Inr (b_hash b)"
    and "btc_hash (o_txid q) = Inr (o_txid q)" "o_output_index q < u64_lim" "b_network b = network_id Bitcoin"
  shows "interpret_row (ml_rows lib) (output_relation lib b (''tx:'' @ b_hash b @ '':'' @ o_txid q) q) =
    Inr (tx_subject b (o_txid q), script_subject lib (o_output q))"
proof -
  define tx where tx: "tx = ''tx:'' @ b_hash b @ '':'' @ o_txid q"
  define row where row: "row = output_relation lib b tx q"
  have f: "field row ''network_id'' = JStr (network_id Bitcoin)" "field row ''block_hash'' = JStr (b_hash b)"
    "field row ''tx_hash'' = JStr (o_txid q)" "field row ''event_sub_index'' = jnat 0" "field row ''trace_address'' = JArr []"
    "field row ''token_id'' = JNull" "field row ''confidence'' = JNum ''1.0''" "field row ''event_index'' = jnat (o_output_index q)"
    "field row ''transfer_type'' = JStr ''utxo_output''" "field row ''output_index'' = jnat (o_output_index q)"
    "field row ''attribution_method'' = JStr ''observed_output''" "field row ''prev_tx_hash'' = JNull"
    "field row ''prev_output_index'' = JNull"
    "field row ''relationship_id'' = JStr (leg_id (b_hash b) (o_txid q) ''out'' (o_output_index q))"
    "field row ''evidence_refs'' = jstrs [''outpoint:'' @ o_txid q @ '':'' @ show_nat (o_output_index q)]"
    by (simp_all add: row output_relation_def field_header assms(6) del: network_id.simps)
  have k: "s_id (tx_subject b (o_txid q)) = tx" "s_kind (tx_subject b h) = Transaction"
    "s_kind (script_subject lib r) = Address \<or> s_kind (script_subject lib r) = Script" for h r
    by (simp_all add: tx_subject_def script_subject_def tx)
  have i: "interpret_utxo (ml_rows lib) row (tx_subject b (o_txid q)) (script_subject lib (o_output q)) =
      Inr (tx_subject b (o_txid q), script_subject lib (o_output q))"
    using assms(1,5) occurrence_ok(1)[OF assms(3,4), folded tx]
    by (simp add: interpret_utxo_def f row_text_def row_number_def row_null_def utxo_output_def float_of_def
        faithful_lib_def is_int_def jstrs_def k)
  show ?thesis
    using i output_endpoints[OF assms(1-4), folded tx, folded row] bitcoin_network
    unfolding tx[symmetric] row[symmetric] by (simp add: interpret_row_def row_text_def f(1) del: network_id.simps)
qed

lemma each_afterD: "each_after P xs \<Longrightarrow> x \<in> set xs \<Longrightarrow> \<exists>ys. P ys x"
  by (auto simp: each_after_def in_set_conv_nth)



section \<open>A block written on an empty store\<close>

text \<open>A coinbase paying one output, a contract with the columns of its rows, and a store without blocks.\<close>


definition guess_type :: "string \<Rightarrow> json \<Rightarrow> string" where
  "guess_type k v = (if k \<in> {''output_index'', ''prev_output_index''} then ''Nullable(UInt64)'' else
     case v of JNum t \<Rightarrow> (if CHR ''.'' \<in> set t then ''Float64'' else ''UInt64'') | JArr _ \<Rightarrow> ''Array(String)''
     | _ \<Rightarrow> ''Nullable(String)'')"

definition sample_table :: "string \<Rightarrow> json \<Rightarrow> table" where
  "sample_table name row = \<lparr>tb_name = name, tb_columns = map (\<lambda>(k, v). (k, guess_type k v)) (members row)\<rparr>"

definition small_map :: map_lib where
  "small_map = \<lparr>ml_btc = sample_lib\<lparr>lib_script_address := (\<lambda>_. []), lib_sha_hex := (\<lambda>_. sample_hash (CHR ''d''))\<rparr>,
     ml_rows = \<lparr>rl_sha = (\<lambda>b. b), rl_f64 = (\<lambda>t. if t = ''1.0'' then Some 1 else None), rl_json = (\<lambda>_. Some JNull)\<rparr>,
     ml_digest = (\<lambda>_. ''h''), ml_print = (\<lambda>_. ''x''), ml_float = (\<lambda>t. Some t),
     ml_contract = \<lparr>ct_version = 5, ct_tables = [], ct_rules = []\<rparr>\<rparr>"

definition sample_pay :: script_output where
  "sample_pay = \<lparr>so_address = [], so_script_hex = ''6a'', so_script_type = ''nulldata'', so_value_sats = 50\<rparr>"

definition sample_ev :: evidence where
  "sample_ev = \<lparr>transactions = [\<lparr>t_commit_id = ''c'', t_block_height = 7, t_block_hash = sample_hash (CHR ''a''), t_block_time = 123,
       t_txid = sample_hash (CHR ''1''), t_tx_index = 0, t_coinbase = 1, t_input_count = 1, t_output_count = 1, t_output_sats = 50,
       t_fee_sats = 0\<rparr>],
     outputs = [\<lparr>o_commit_id = ''c'', o_block_height = 7, o_block_hash = sample_hash (CHR ''a''), o_block_time = 123,
       o_txid = sample_hash (CHR ''1''), o_tx_index = 0, o_output_index = 0, o_coinbase = 1, o_output = sample_pay\<rparr>],
     inputs = []\<rparr>"

definition sample_lb :: legacy_block where
  "sample_lb = \<lparr>lb_height = 7, lb_hash = sample_hash (CHR ''a''), lb_parent = sample_hash (CHR ''b''), lb_time = 123,
     lb_commit = ''c'', lb_count = 1\<rparr>"

definition sample_wc :: write_context where
  "sample_wc = \<lparr>wc_observed = 9, wc_start = 7, wc_source = ''rpc'', wc_legacy = None\<rparr>"

definition sample_b :: block where
  "sample_b = written_block (\<lambda>_. 1) sample_lb sample_wc 1003 123000"

definition sample_leg :: json where
  "sample_leg = output_relation small_map sample_b (''tx:'' @ sample_hash (CHR ''a'') @ '':'' @ sample_hash (CHR ''1''))
     (hd (outputs sample_ev))"

definition sample_contract :: contract where
  "sample_contract = \<lparr>ct_version = 5, ct_tables =
     [sample_table ''aml_address_relationships'' sample_leg,
      sample_table ''aml_bitcoin_outputs'' (output_row sample_b (hd (outputs sample_ev))),
      sample_table ''aml_transactions'' (transaction_row small_map sample_b (hd (transactions sample_ev)))], ct_rules = []\<rparr>"

definition sample_map :: map_lib where
  "sample_map = small_map\<lparr>ml_contract := sample_contract\<rparr>"

definition empty_store :: store where
  "empty_store = \<lparr>identity = [network_id Bitcoin], states = [], blocks = [], facts = [], failures = [], seals = [], derived = [], budget = 100\<rparr>"




definition sample_rows :: "(string \<times> json list) list" where
  "sample_rows = [(''aml_address_relationships'', [output_relation sample_map sample_b (''tx:'' @ sample_hash (CHR ''a'') @ '':'' @ sample_hash (CHR ''1'')) (hd (outputs sample_ev))]),
     (''aml_bitcoin_inputs'', []), (''aml_bitcoin_outputs'', [output_row sample_b (hd (outputs sample_ev))]),
     (''aml_semantic_aml_events'', []), (''aml_transactions'', [transaction_row sample_map sample_b (hd (transactions sample_ev))])]"

definition sample_fact :: "string \<Rightarrow> fact" where
  "sample_fact k = \<lparr>f_network = network_id Bitcoin, f_number = 7, f_hash = sample_hash (CHR ''a''), f_time_ms = 123000,
     f_commit = b_commit sample_b, f_revision = 1003, f_key = k, f_body = ''x''\<rparr>"

definition sample_facts :: "(string \<times> fact list) list" where
  "sample_facts = [(''aml_address_relationships'', [sample_fact (leg_id (sample_hash (CHR ''a'')) (sample_hash (CHR ''1'')) ''out'' 0 @ ''/'')]),
     (''aml_bitcoin_inputs'', []), (''aml_bitcoin_outputs'', [sample_fact (sample_hash (CHR ''1'') @ ''/0/'')]),
     (''aml_semantic_aml_events'', []), (''aml_transactions'', [sample_fact (sample_hash (CHR ''1'') @ ''/'')])]"

lemma sample_fields: "ml_btc sample_map = ml_btc small_map" "ml_rows sample_map = ml_rows small_map"
    "ml_digest sample_map = ml_digest small_map" "ml_print sample_map = ml_print small_map"
    "ml_contract sample_map = sample_contract" "ml_float sample_map = ml_float small_map"
  by (simp_all add: sample_map_def)

lemma sample_same: "output_relation sample_map = output_relation small_map" "transaction_row sample_map = transaction_row small_map"
    "subject_of_tx sample_map = subject_of_tx small_map"
  by (simp_all add: fun_eq_iff output_relation_def transaction_row_def subject_of_tx_def sample_fields)

text \<open>Only the table of a row takes part in its validation.\<close>

lemma validate_in_table:
  assumes "find (\<lambda>t. tb_name t = name) (ct_tables ct) = Some tb" "ct_rules ct = []" "tb_name tb = name"
  shows "validate_row lib ct name row = validate_row lib \<lparr>ct_version = 5, ct_tables = [tb], ct_rules = []\<rparr> name row"
  using assms by (simp add: validate_row_def rules_for_def)

lemma sample_gate: "validate_evidence (ml_btc sample_map) sample_lb sample_ev = Inr ()"
  unfolding sample_fields by code_simp

lemma sample_events: "block_facts (ml_digest sample_map) (ml_print sample_map) (ml_btc sample_map) sample_b sample_ev = Inr []"
  unfolding sample_fields by code_simp

lemma sample_subject: "subject_of_tx sample_map sample_b (o_txid (hd (outputs sample_ev))) =
    Inr (''tx:'' @ sample_hash (CHR ''a'') @ '':'' @ sample_hash (CHR ''1''))"
  unfolding sample_same by code_simp

lemma sample_tables:
  "find (\<lambda>t. tb_name t = ''aml_address_relationships'') (ct_tables sample_contract) = Some (sample_table ''aml_address_relationships'' sample_leg)"
  "find (\<lambda>t. tb_name t = ''aml_bitcoin_outputs'') (ct_tables sample_contract) =
     Some (sample_table ''aml_bitcoin_outputs'' (output_row sample_b (hd (outputs sample_ev))))"
  "find (\<lambda>t. tb_name t = ''aml_transactions'') (ct_tables sample_contract) =
     Some (sample_table ''aml_transactions'' (transaction_row small_map sample_b (hd (transactions sample_ev))))"
  "ct_rules sample_contract = []" "tb_name (sample_table n row) = n"
  by (simp_all add: sample_contract_def sample_table_def)

lemma sample_valid_leg: "validate_relationship (ml_rows sample_map) (ml_contract sample_map) (output_relation sample_map sample_b
    (''tx:'' @ sample_hash (CHR ''a'') @ '':'' @ sample_hash (CHR ''1'')) (hd (outputs sample_ev))) = Inr ()"
  unfolding validate_relationship_def sample_fields sample_same sample_leg_def[symmetric]
    validate_in_table[OF sample_tables(1,4,5)] by code_simp

lemma sample_valid_output: "validate_row (ml_rows sample_map) (ml_contract sample_map) ''aml_bitcoin_outputs''
    (output_row sample_b (hd (outputs sample_ev))) = Inr ()"
  unfolding sample_fields validate_in_table[OF sample_tables(2,4,5)] by code_simp

lemma sample_valid_tx: "validate_row (ml_rows sample_map) (ml_contract sample_map) ''aml_transactions''
    (transaction_row sample_map sample_b (hd (transactions sample_ev))) = Inr ()"
  unfolding sample_fields sample_same validate_in_table[OF sample_tables(3,4,5)] by code_simp

lemma sample_map_rows: "map_evidence sample_map sample_b sample_ev = Inr sample_rows"
proof -
  have s: "inputs sample_ev = []" "outputs sample_ev = [hd (outputs sample_ev)]" "transactions sample_ev = [hd (transactions sample_ev)]"
    by (simp_all add: sample_ev_def)
  have m: "mapE f (outputs sample_ev) = attempt (f (hd (outputs sample_ev))) (\<lambda>y. Inr [y])" for f :: "tx_output \<Rightarrow> json res"
    by (subst s(2)) simp
  have l: "map g (outputs sample_ev) = [g (hd (outputs sample_ev))]" "map h (transactions sample_ev) = [h (hd (transactions sample_ev))]"
    for g :: "tx_output \<Rightarrow> json" and h :: "transaction \<Rightarrow> json"
    by (subst s, simp only: list.map)+
  show ?thesis
    unfolding map_evidence_def sample_events attempt_simps s(1) mapE.simps m sample_subject Let_def l append_Nil list.map
      sample_rows_def
    by (simp only: forE.simps prod.case attempt_simps sample_valid_leg sample_valid_output sample_valid_tx refl if_True)
      (simp add: sample_valid_output sample_valid_tx)
qed

lemma sample_normal_text: "normal_text sample_map = normal_text small_map"
  unfolding fun_eq_iff normal_text_def amount_text_def sample_fields by simp

lemma sample_table_facts: "map (table_facts sample_map sample_b) sample_rows = sample_facts"
proof -
  have t: "table_facts sample_map = table_facts small_map"
    unfolding fun_eq_iff table_facts_def fact_of_row_def stored_text_def sample_normal_text sample_fields by simp
  show ?thesis unfolding t sample_rows_def sample_same by code_simp
qed
lemma sample_normal: "\<forall>(t, rs) \<in> set sample_rows. mapE (normal_text sample_map) rs = Inr (map (\<lambda>_. ''x'') rs)"
  unfolding sample_rows_def sample_same sample_normal_text by code_simp

definition sample_step1 :: store where
  "sample_step1 = snd (reserve demo_wh sample_b empty_store)"

definition sample_step2 :: store where
  "sample_step2 = snd (io_for (\<lambda>(t, fs). put_facts demo_wh sample_b t fs) sample_facts sample_step1)"

definition sample_counts :: "(string \<times> nat) list" where
  "sample_counts = map (\<lambda>(t, fs). (t, length fs)) sample_facts"

definition sample_step3 :: store where
  "sample_step3 = snd (complete_block demo_wh sample_b sample_counts ''x'' sample_step2)"

definition sample_next :: sync_state where
  "sample_next = written_state (\<lambda>_. 1) (empty_state Bitcoin) sample_lb sample_wc 1003"

lemma all_ok: "is_ok (fst p) \<Longrightarrow> snd p = t \<Longrightarrow> (p :: unit res \<times> store) = (Inr (), t)"
  by (cases p) (auto simp: is_ok_iff)

lemma sample_reserved: "reserve demo_wh sample_b empty_store = (Inr (), sample_step1)"
  by (rule all_ok[OF _ sample_step1_def[symmetric]]) code_simp

lemma sample_stored: "io_for (\<lambda>(t, fs). put_facts demo_wh sample_b t fs) sample_facts sample_step1 = (Inr (), sample_step2)"
  by (rule all_ok[OF _ sample_step2_def[symmetric]]) code_simp

lemma sample_completed: "complete_block demo_wh sample_b sample_counts ''x'' sample_step2 = (Inr (), sample_step3)"
  by (rule all_ok[OF _ sample_step3_def[symmetric]]) code_simp

lemma sample_published: "is_ok (fst (publish demo_wh Bitcoin (empty_state Bitcoin) sample_next sample_step3))"
  by code_simp

lemma sample_lengths: "map (\<lambda>(t, rs). (t, length rs)) sample_rows = sample_counts"
  by (simp add: sample_rows_def sample_counts_def sample_facts_def)

lemma sample_read: "\<forall>(t, rs) \<in> set sample_rows. map f_body (committed_facts sample_b t sample_step2) = map (\<lambda>_. ''x'') rs"
proof -
  have "list_all (\<lambda>(t, n). map f_body (committed_facts sample_b t sample_step2) = replicate n ''x'') sample_counts"
    by code_simp
  then show ?thesis by (simp add: sample_lengths[symmetric] list_all_iff map_replicate_const) fastforce
qed

lemma sample_chain: "chain_ok Bitcoin empty_store \<and> settled Bitcoin empty_store"
  by code_simp
lemma sample_ms: "millis_from_seconds (lb_time sample_lb) = Inr 123000" by code_simp

lemma sample_verified: "verify_rows sample_map sample_b sample_rows sample_step2 = (Inr (), sample_step2)"
proof -
  have "verify_rows sample_map sample_b tables sample_step2 = (Inr (), sample_step2)" if "set tables \<subseteq> set sample_rows" for tables
    using that
  proof (induction tables)
    case (Cons x tables)
    then obtain t rs where x: "x = (t, rs)" "(t, rs) \<in> set sample_rows" by (cases x) auto
    then have "mapE (normal_text sample_map) rs = Inr (map (\<lambda>_. ''x'') rs)"
      "map f_body (committed_facts sample_b t sample_step2) = map (\<lambda>_. ''x'') rs"
      using sample_normal sample_read by fast+
    with Cons x show ?case
      by (simp add: verify_rows_def io_then_def io_get_def io_attempt_def io_ensure_def io_return_def)
  qed (simp add: verify_rows_def io_return_def)
  then show ?thesis by simp
qed

lemma sample_front:
  "write_block sample_map w (\<lambda>_. 1) (empty_state Bitcoin) sample_lb sample_ev sample_wc (empty_store\<lparr>budget := n\<rparr>) =
   io_then (reserve w sample_b) (\<lambda>_.
   io_then (io_for (\<lambda>(t, fs). put_facts w sample_b t fs) sample_facts) (\<lambda>_.
   io_then (verify_rows sample_map sample_b sample_rows) (\<lambda>_.
   io_then (complete_block w sample_b sample_counts ''x'') (\<lambda>_.
   io_then (publish w Bitcoin (empty_state Bitcoin) sample_next) (\<lambda>_. io_return sample_next))))) (empty_store\<lparr>budget := n\<rparr>)"
proof -
  have b: "written_block (\<lambda>_. 1) sample_lb sample_wc 1003 123000 = sample_b"
    "written_state (\<lambda>_. 1) (empty_state Bitcoin) sample_lb sample_wc 1003 = sample_next"
    by (simp_all add: sample_b_def sample_next_def)
  have r: "db_revision (\<lambda>_. 1) (st_revision (empty_state Bitcoin)) (empty_store\<lparr>budget := n\<rparr>) = (Inr 1003, empty_store\<lparr>budget := n\<rparr>)"
    by (simp add: db_revision_def next_revision_def io_get_def empty_store_def empty_state_def io_need_def saturating_mul64_def
        u64_lim_val checked_add64_def io_return_def)
  have p: "ml_print sample_map d = ''x''" for d by (simp add: sample_map_def small_map_def)
  have g: "io_ensure True msg k = k" for msg and k :: "(store, sync_state) io" by (rule ext) (simp add: io_ensure_def)
  have i: "st_initialized (empty_state Bitcoin) = 0" "lb_height sample_lb = wc_start sample_wc" "wc_legacy sample_wc = None"
    by (simp_all add: empty_state_def sample_lb_def sample_wc_def)
  show ?thesis
    unfolding write_block_def Let_def
    by (simp only: io_attempt_def io_need_def io_ensure_def sample_gate sample_ms i io_then_def[of "db_revision _ _"] r prod.case sum.case
        option.case if_False if_True zero_neq_one simp_thms option.set ball_empty sample_map_rows b sample_table_facts sample_lengths p g)
qed

text \<open>The write runs to the end on an empty store, and stops half way when the database goes away.\<close>

lemma sample_written:
  "\<exists>t. write_block sample_map demo_wh (\<lambda>_. 1) (empty_state Bitcoin) sample_lb sample_ev sample_wc empty_store = (Inr sample_next, t)"
proof -
  obtain t where "publish demo_wh Bitcoin (empty_state Bitcoin) sample_next sample_step3 = (Inr (), t)"
    using sample_published by (metis is_ok_iff prod.collapse unit.exhaust)
  moreover have "empty_store = empty_store\<lparr>budget := 100\<rparr>" by (simp add: empty_store_def)
  ultimately show ?thesis
    using sample_front[of demo_wh 100]
    by (simp add: io_then_def sample_reserved sample_stored sample_verified sample_completed io_return_def)
qed

lemma sample_interrupted:
  "\<exists>e t. write_block sample_map demo_wh (\<lambda>_. 1) (empty_state Bitcoin) sample_lb sample_ev sample_wc (empty_store\<lparr>budget := 2\<rparr>) = (Inl e, t)"
proof -
  have "\<not> is_ok (fst (io_then (reserve demo_wh sample_b) (\<lambda>_.
     io_for (\<lambda>(t, fs). put_facts demo_wh sample_b t fs) sample_facts) (empty_store\<lparr>budget := 2\<rparr>)))" by code_simp
  then show ?thesis
    unfolding sample_front by (auto simp: io_then_def is_ok_iff split: prod.splits sum.splits)
qed




section \<open>Refusals\<close>

lemma attempt_run: "r = Inr x \<Longrightarrow> io_attempt r k s = k x s"
  by (simp add: io_attempt_def)

lemma need_run: "v = Some x \<Longrightarrow> io_need v m k s = k x s"
  by (simp add: io_need_def)

lemma attempt_fails: "r = Inl e \<Longrightarrow> io_attempt r k s = (Inl e, s)"
  by (simp add: io_attempt_def io_fail_def)

lemma need_fails: "v = None \<Longrightarrow> io_need v m k s = (Inl m, s)"
  by (simp add: io_need_def io_fail_def)

lemma ensure_fails: "\<not> c \<Longrightarrow> io_ensure c m k s = (Inl m, s)"
  by (simp add: io_ensure_def io_fail_def)

lemma ensure_passes: "c \<Longrightarrow> io_ensure c m k s = k s"
  by (simp add: io_ensure_def)

text \<open>C7: a block that fails the evidence gate, does not follow the tip or does not name it as its parent is
  refused before anything is written.\<close>

theorem write_block_refuses:
  assumes "\<not> is_ok (validate_evidence (ml_btc lib) lb ev) \<or> \<not> next_height prev wc (lb_height lb) \<or>
    st_initialized prev = 1 \<and> lb_parent lb \<noteq> st_hash prev"
  shows "\<exists>e. write_block lib w clk prev lb ev wc s = (Inl e, s)"
proof (cases "validate_evidence (ml_btc lib) lb ev")
  case (Inl e)
  show ?thesis unfolding write_block_def attempt_fails[OF Inl] by (rule exI) (rule refl)
next
  case (Inr u)
  show ?thesis
  proof (cases "if st_initialized prev = 1 then checked_add64 (st_last prev) 1 else Some (wc_start wc)")
    case None
    show ?thesis unfolding write_block_def attempt_run[OF Inr] need_fails[OF None] by (rule exI) (rule refl)
  next
    case (Some expected)
    have "next_height prev wc (lb_height lb) \<longleftrightarrow> expected = lb_height lb" unfolding next_height_def Some by simp
    moreover have "is_ok (validate_evidence (ml_btc lib) lb ev)" unfolding Inr by simp
    ultimately have "lb_height lb \<noteq> expected \<or> st_initialized prev = 1 \<and> lb_parent lb \<noteq> st_hash prev" using assms by blast
    then consider "lb_height lb \<noteq> expected" | "lb_height lb = expected" "\<not> (st_initialized prev = 1 \<longrightarrow> lb_parent lb = st_hash prev)"
      by blast
    then show ?thesis
    proof cases
      case 1
      show ?thesis unfolding write_block_def attempt_run[OF Inr] need_run[OF Some] ensure_fails[OF 1] by (rule exI) (rule refl)
    next
      case 2
      show ?thesis unfolding write_block_def attempt_run[OF Inr] need_run[OF Some] ensure_passes[OF 2(1)] ensure_fails[OF 2(2)]
        by (rule exI) (rule refl)
    qed
  qed
qed

theorem write_block_refuses_witness:
  "\<exists>e. write_block sample_map demo_wh (\<lambda>_. 1) (sample_next\<lparr>st_hash := ''other''\<rparr>) sample_lb sample_ev sample_wc empty_store = (Inl e, empty_store)"
  by (rule write_block_refuses) (simp add: next_height_def sample_next_def written_state_def sample_lb_def checked_add64_def u64_lim_def)

end
