(* ===== verification/Rpc_Client.thy ===== *)
theory Rpc_Client
  imports Io_Triples Utxo "HOL-Library.Multiset" "HOL-Library.Code_Target_Nat"
begin

text \<open>
  The read-only RPC client (\<open>dockerizd_bitcoin/src/bitcoin/rpc.rs\<close>): requests and their
  identities, retries, batches and the matching of answers to requests. The HTTP transport and
  the parser of its bytes are parameters; the \<open>n\<close>-th exchange of a client reads the \<open>n\<close>-th reply.
\<close>

record rpc_failure =
  rf_retryable :: bool
  rf_reason :: string

abbreviation failed :: "string \<Rightarrow> bool \<Rightarrow> rpc_failure + 'a" where
  "failed reason retryable \<equiv> Inl \<lparr>rf_retryable = retryable, rf_reason = reason\<rparr>"

definition failure_text :: "rpc_failure \<Rightarrow> string" where
  "failure_text f = ''Bitcoin RPC '' @ rf_reason f"

record rpc_policy =
  rp_attempts :: nat
  rp_base_ms :: nat
  rp_interval_ms :: nat
  rp_max_bytes :: nat
  rp_batch :: bool

definition default_rpc_policy :: rpc_policy where
  "default_rpc_policy = \<lparr>rp_attempts = 1, rp_base_ms = 0, rp_interval_ms = 0, rp_max_bytes = 134217728, rp_batch = True\<rparr>"

definition validate_rpc_policy :: "rpc_policy \<Rightarrow> unit res" where
  "validate_rpc_policy p =
     ensure (1 \<le> rp_attempts p \<and> rp_attempts p \<le> 8 \<and> rp_base_ms p \<le> 5000 \<and> rp_interval_ms p \<le> 10000 \<and>
             1024 \<le> rp_max_bytes p \<and> rp_max_bytes p \<le> 134217728) ''invalid Bitcoin RPC policy'' (Inr ())"

text \<open>A reply: its status and the chunks of its body, \<open>None\<close> where the connection breaks.\<close>

record reply =
  re_status :: nat
  re_chunks :: "string option list"

record rpc =
  rc_wire :: "nat \<Rightarrow> json \<Rightarrow> reply option"
  rc_parse :: "string \<Rightarrow> json option"
  rc_policy :: rpc_policy

text \<open>What a client keeps between calls: its sequence number, and how often it has sent and
  how long it has waited before sending again.\<close>

record rpc_state =
  rs_sequence :: nat
  rs_sent :: nat
  rs_waited :: nat

definition rpc_new :: rpc_state where
  "rpc_new = \<lparr>rs_sequence = 1, rs_sent = 0, rs_waited = 0\<rparr>"

section \<open>One exchange\<close>

fun read_chunks :: "nat \<Rightarrow> string \<Rightarrow> string option list \<Rightarrow> rpc_failure + string" where
  "read_chunks limit bytes [] = Inr bytes"
| "read_chunks limit bytes (None # cs) = failed ''response interrupted'' True"
| "read_chunks limit bytes (Some c # cs) =
     (if limit < length bytes + length c then failed ''response exceeds configured byte limit'' False
      else read_chunks limit (bytes @ c) cs)"

definition server_error :: "nat \<Rightarrow> bool" where
  "server_error st \<longleftrightarrow> 500 \<le> st \<and> st \<le> 599"

definition success :: "nat \<Rightarrow> bool" where
  "success st \<longleftrightarrow> 200 \<le> st \<and> st \<le> 299"

definition half_answered :: "json \<Rightarrow> bool" where
  "half_answered v = (case as_array v of None \<Rightarrow> field v ''error'' = JNull
     | Some rows \<Rightarrow> list_ex (\<lambda>row. field row ''error'' = JNull) rows)"

definition read_reply :: "rpc \<Rightarrow> reply option \<Rightarrow> rpc_failure + json" where
  "read_reply c found = (case found of None \<Rightarrow> failed ''transport failed'' True | Some r \<Rightarrow>
     if re_status r \<in> {401, 403} then failed ''authentication/authorization failed'' False
     else if re_status r = 429 then failed ''rate limited'' True
     else case read_chunks (rp_max_bytes (rc_policy c)) [] (re_chunks r) of Inl f \<Rightarrow> Inl f | Inr bytes \<Rightarrow>
       case rc_parse c bytes of None \<Rightarrow> failed ''invalid JSON'' (server_error (re_status r)) | Some v \<Rightarrow>
         if \<not> success (re_status r) \<and> \<not> server_error (re_status r) then failed ''HTTP request rejected'' False
         else if server_error (re_status r) \<and> half_answered v then failed ''server failed'' True
         else Inr v)"

section \<open>Matching answers to requests\<close>

text \<open>The identity and the result of an envelope that answers a request.\<close>

definition expected_id :: "nat list \<Rightarrow> json \<Rightarrow> nat option" where
  "expected_id ids row = (case as_u64 (field row ''id'') of None \<Rightarrow> None
     | Some i \<Rightarrow> if i \<in> set ids then Some i else None)"

fun collect :: "nat list \<Rightarrow> json list \<Rightarrow> (nat \<rightharpoonup> json) \<Rightarrow> rpc_failure + (nat \<rightharpoonup> json)" where
  "collect ids [] values = Inr values"
| "collect ids (row # rows) values = (case expected_id ids row of None \<Rightarrow> failed ''response identity mismatch'' False | Some i \<Rightarrow>
     if values i \<noteq> None then failed ''duplicate response identity'' False
     else if field row ''error'' \<noteq> JNull
     then failed ''method failed'' (field (field row ''error'') ''code'' = JNum ''-28'')
     else case member row ''result'' of None \<Rightarrow> failed ''missing result'' False
     | Some v \<Rightarrow> collect ids rows (values(i \<mapsto> v)))"

fun take_values :: "nat list \<Rightarrow> (nat \<rightharpoonup> json) \<Rightarrow> rpc_failure + json list" where
  "take_values [] values = Inr []"
| "take_values (i # ids) values = (case values i of None \<Rightarrow> failed ''missing response identity'' False | Some v \<Rightarrow>
     case take_values ids (values(i := None)) of Inl f \<Rightarrow> Inl f | Inr vs \<Rightarrow> Inr (v # vs))"

definition decode :: "json \<Rightarrow> nat list \<Rightarrow> bool \<Rightarrow> rpc_failure + json list" where
  "decode value ids batch =
     (case (if batch then as_array value else Some [value]) of None \<Rightarrow> failed ''invalid batch envelope'' False
      | Some rows \<Rightarrow>
          if length rows \<noteq> length ids then failed ''missing/extra batch responses'' False
          else case collect ids rows (\<lambda>_. None) of Inl f \<Rightarrow> Inl f | Inr values \<Rightarrow> take_values ids values)"

section \<open>Calls\<close>

definition send :: "rpc \<Rightarrow> json \<Rightarrow> rpc_state \<Rightarrow> (rpc_failure + json) \<times> rpc_state" where
  "send c payload s = (read_reply c (rc_wire c (rs_sent s) payload), s\<lparr>rs_sent := rs_sent s + 1\<rparr>)"

definition rpc_delay :: "rpc_policy \<Rightarrow> nat \<Rightarrow> nat" where
  "rpc_delay p k = min (saturating_mul64 (rp_base_ms p) (2 ^ k)) 10000"

text \<open>The attempts \<open>k\<close>, \<open>k + 1\<close>, ... of a dispatch, of which \<open>left\<close> remain.\<close>

fun dispatch_loop :: "rpc \<Rightarrow> json \<Rightarrow> nat list \<Rightarrow> bool \<Rightarrow> nat \<Rightarrow> nat \<Rightarrow> (rpc_state, json list) io" where
  "dispatch_loop c payload ids batch k 0 s = (Inl ''policy requires at least one attempt'', s)"
| "dispatch_loop c payload ids batch k (Suc left) s =
     (let (r, t) = send c payload s in
      case (case r of Inl f \<Rightarrow> Inl f | Inr v \<Rightarrow> decode v ids batch) of
        Inr vs \<Rightarrow> (Inr vs, t)
      | Inl f \<Rightarrow> if rf_retryable f \<and> 0 < left
          then dispatch_loop c payload ids batch (Suc k) left (t\<lparr>rs_waited := rs_waited t + rpc_delay (rc_policy c) k\<rparr>)
          else (Inl (failure_text f), t))"

definition request_id :: "json \<Rightarrow> nat" where
  "request_id r = (case as_u64 (field r ''id'') of None \<Rightarrow> 0 | Some i \<Rightarrow> i)"

definition dispatch :: "rpc \<Rightarrow> json list \<Rightarrow> bool \<Rightarrow> (rpc_state, json list) io" where
  "dispatch c requests batch =
     dispatch_loop c (if batch then JArr requests else hd requests) (map request_id requests) batch 0 (rp_attempts (rc_policy c))"

definition rpc_methods :: "string list" where
  "rpc_methods = [''getblockchaininfo'', ''getblockcount'', ''getblockhash'', ''getblock'', ''getindexinfo'', ''getrawtransaction'']"

definition request :: "string \<Rightarrow> json \<Rightarrow> (rpc_state, json) io" where
  "request meth params =
     io_ensure (meth \<in> set rpc_methods) ''Bitcoin RPC method is not read-only/allowlisted''
     (io_get rs_sequence (\<lambda>i.
      io_then (io_modify (\<lambda>s. s\<lparr>rs_sequence := wrapping_add64 i 1\<rparr>)) (\<lambda>_.
      io_return (JObj [(''jsonrpc'', JStr ''1.0''), (''id'', jnat i), (''method'', JStr meth), (''params'', params)]))))"

fun io_map :: "('a \<Rightarrow> ('s, 'b) io) \<Rightarrow> 'a list \<Rightarrow> ('s, 'b list) io" where
  "io_map f [] = io_return []"
| "io_map f (x # xs) = io_then (f x) (\<lambda>y. io_then (io_map f xs) (\<lambda>ys. io_return (y # ys)))"

definition rpc_call :: "rpc \<Rightarrow> string \<Rightarrow> json \<Rightarrow> (rpc_state, json) io" where
  "rpc_call c meth params =
     io_then (request meth params) (\<lambda>r. io_then (dispatch c [r] False) (\<lambda>vs. io_return (hd vs)))"

definition rpc_batch :: "rpc \<Rightarrow> (string \<times> json) list \<Rightarrow> (rpc_state, json list) io" where
  "rpc_batch c calls =
     io_ensure (calls \<noteq> [] \<and> length calls \<le> 256) ''Bitcoin RPC batch must contain 1..256 calls''
     (if \<not> rp_batch (rc_policy c) \<or> length calls = 1 then io_map (\<lambda>(m, p). rpc_call c m p) calls
      else io_then (io_map (\<lambda>(m, p). request m p) calls) (\<lambda>rs. dispatch c rs True))"

definition genesis :: string where
  "genesis = ''000000000019d6689c085ae165831e934ff763ae46a2a6c172b3f1b60a8ce26f''"

definition rpc_height :: "rpc \<Rightarrow> (rpc_state, nat) io" where
  "rpc_height c =
     io_then (rpc_call c ''getblockcount'' (JArr [])) (\<lambda>v. io_need (as_u64 v) ''invalid RPC height'' io_return)"

definition rpc_block_hash :: "rpc \<Rightarrow> nat \<Rightarrow> (rpc_state, string) io" where
  "rpc_block_hash c h =
     io_then (rpc_call c ''getblockhash'' (JArr [jnat h])) (\<lambda>v.
     io_need (as_str v) ''invalid RPC block hash'' (\<lambda>t. io_attempt (btc_hash t) io_return))"

definition rpc_block :: "rpc \<Rightarrow> string \<Rightarrow> nat \<Rightarrow> (rpc_state, json) io" where
  "rpc_block c hash verbosity = rpc_call c ''getblock'' (JArr [JStr hash, jnat verbosity])"

definition validate_chain :: "rpc \<Rightarrow> (rpc_state, unit) io" where
  "validate_chain c =
     io_then (rpc_call c ''getblockchaininfo'' (JArr [])) (\<lambda>info.
     io_ensure (field info ''chain'' = JStr ''main'') ''Bitcoin RPC must use mainnet''
     (io_then (rpc_block_hash c 0) (\<lambda>h.
      io_ensure (h = genesis) ''Bitcoin RPC genesis mismatch'' (io_return ()))))"

text \<open>\<open>RpcPool::new\<close>: the URLs of the endpoints.\<close>

definition pool_new :: "string list \<Rightarrow> string list res" where
  "pool_new urls =
     ensure (urls \<noteq> [] \<and> length urls \<le> 5) ''configure 1..5 Bitcoin RPC endpoints''
     (ensure (distinct urls) ''duplicate Bitcoin RPC endpoints'' (Inr urls))"

section \<open>Answers in any order\<close>

definition answer :: "json \<Rightarrow> (nat \<times> json) option" where
  "answer row = (if field row ''error'' = JNull
     then Option.bind (as_u64 (field row ''id'')) (\<lambda>i. map_option (Pair i) (member row ''result'')) else None)"

lemma collect_ok:
  "collect ids rows m = Inr m' \<longleftrightarrow> (\<exists>es. map answer rows = map Some es \<and> distinct (map fst es) \<and>
     fst ` set es \<subseteq> set ids \<and> fst ` set es \<inter> dom m = {} \<and> m' = m ++ map_of es)"
proof (induction rows arbitrary: m)
  case Nil
  then show ?case by (auto intro: exI[of _ "[]"])
next
  case (Cons row rows)
  show ?case
  proof (cases "answer row")
    case None
    then show ?thesis by (auto simp: answer_def expected_id_def split: option.splits)
  next
    case (Some e)
    obtain i v where e: "e = (i, v)" by (cases e)
    from Some have a: "field row ''error'' = JNull" "as_u64 (field row ''id'') = Some i" "member row ''result'' = Some v"
      by (auto simp: answer_def e bind_eq_Some_conv split: if_splits)
    have "collect ids (row # rows) m = Inr m' \<longleftrightarrow> i \<in> set ids \<and> m i = None \<and> collect ids rows (m(i \<mapsto> v)) = Inr m'"
      using a by (simp add: expected_id_def)
    also have "\<dots> \<longleftrightarrow> (\<exists>es. map answer (row # rows) = map Some es \<and> distinct (map fst es) \<and>
        fst ` set es \<subseteq> set ids \<and> fst ` set es \<inter> dom m = {} \<and> m' = m ++ map_of es)" (is "?l = ?r")
    proof
      assume ?l
      then obtain es where es: "map answer rows = map Some es" "distinct (map fst es)" "fst ` set es \<subseteq> set ids"
        "fst ` set es \<inter> dom (m(i \<mapsto> v)) = {}" "m' = m(i \<mapsto> v) ++ map_of es" and i: "i \<in> set ids" "m i = None"
        unfolding Cons by blast
      have n: "map_of es i = None" using es(4) by (auto simp: map_of_eq_None_iff)
      have "m' = m ++ map_of ((i, v) # es)" unfolding es(5) using n by (auto simp: map_add_def fun_eq_iff split: option.split)
      then show ?r using es i Some e by (intro exI[of _ "(i, v) # es"]) auto
    next
      assume ?r
      then obtain es' where es': "map answer (row # rows) = map Some es'" "distinct (map fst es')" "fst ` set es' \<subseteq> set ids"
        "fst ` set es' \<inter> dom m = {}" "m' = m ++ map_of es'" by blast
      then obtain es where c: "es' = (i, v) # es" using Some e by (cases es') auto
      have n: "map_of es i = None" using es'(2) c by (auto simp: map_of_eq_None_iff)
      have "m' = m(i \<mapsto> v) ++ map_of es" unfolding es'(5) c using n
        by (auto simp: map_add_def fun_eq_iff split: option.split)
      then show ?l unfolding Cons using es' c by auto
    qed
    finally show ?thesis .
  qed
qed

lemma take_values_ok:
  "distinct ids \<Longrightarrow> take_values ids m = Inr vs \<longleftrightarrow> map m ids = map Some vs"
proof (induction ids arbitrary: m vs)
  case Nil
  then show ?case by auto
next
  case (Cons i ids)
  have o: "map (m(i := None)) ids = map m ids" using Cons.prems by auto
  show ?case
  proof (cases "m i")
    case None
    then show ?thesis by (cases vs) auto
  next
    case (Some v)
    show ?thesis
    proof (cases vs)
      case Nil
      with Some show ?thesis by (auto split: sum.splits)
    next
      case c: (Cons w ws)
      have "take_values (i # ids) m = Inr (w # ws) \<longleftrightarrow> v = w \<and> take_values ids (m(i := None)) = Inr ws"
        using Some by (auto split: sum.splits)
      moreover have "map m (i # ids) = map Some (w # ws) \<longleftrightarrow> v = w \<and> map m ids = map Some ws" using Some by auto
      moreover have "take_values ids (m(i := None)) = Inr ws \<longleftrightarrow> map m ids = map Some ws"
        using Cons.IH[of "m(i := None)" ws] Cons.prems unfolding o distinct.simps by blast
      ultimately show ?thesis unfolding c by blast
    qed
  qed
qed

lemma decode_batch:
  assumes "distinct ids"
  shows "decode (JArr rows) ids True = Inr vs \<longleftrightarrow>
    length vs = length ids \<and> mset (map answer rows) = mset (map Some (zip ids vs))"
proof
  assume "decode (JArr rows) ids True = Inr vs"
  then obtain m where l: "length rows = length ids" and c: "collect ids rows (\<lambda>_. None) = Inr m" and t: "take_values ids m = Inr vs"
    by (auto simp: decode_def split: if_splits sum.splits)
  from c obtain es where es: "map answer rows = map Some es" "distinct (map fst es)" "fst ` set es \<subseteq> set ids" "m = map_of es"
    unfolding collect_ok by auto
  have v: "map m ids = map Some vs" using t assms by (simp add: take_values_ok)
  then have lv: "length vs = length ids" by (metis length_map)
  have "zip ids vs = map (\<lambda>i. (i, the (m i))) ids"
  proof (rule nth_equalityI)
    fix k assume "k < length (zip ids vs)"
    then have k: "k < length ids" "k < length vs" by simp_all
    have "m (ids ! k) = Some (vs ! k)" using arg_cong[OF v, of "\<lambda>l. l ! k"] k by simp
    then show "zip ids vs ! k = map (\<lambda>i. (i, the (m i))) ids ! k" using k by simp
  qed (simp add: lv)
  moreover have "set es = (\<lambda>i. (i, the (m i))) ` set ids"
  proof -
    have "length es = length ids" using l es(1) by (metis length_map)
    then have "card (fst ` set es) = card (set ids)" using es(2) assms by (metis distinct_card length_map set_map)
    then have f: "fst ` set es = set ids" using es(3) by (simp add: card_subset_eq)
    have "(i, w) \<in> set es \<longleftrightarrow> i \<in> set ids \<and> w = the (m i)" for i w
    proof
      assume "(i, w) \<in> set es"
      then show "i \<in> set ids \<and> w = the (m i)" using es(2,3,4) by force
    next
      assume i: "i \<in> set ids \<and> w = the (m i)"
      then obtain u where "(i, u) \<in> set es" using f by force
      then show "(i, w) \<in> set es" using i es(2,4) by simp
    qed
    then show ?thesis by auto
  qed
  moreover have "distinct es" using es(2) by (simp add: distinct_map)
  ultimately have "mset es = mset (zip ids vs)"
    using assms by (subst set_eq_iff_mset_eq_distinct[symmetric]) (auto simp: distinct_map inj_on_def)
  then show "length vs = length ids \<and> mset (map answer rows) = mset (map Some (zip ids vs))"
    using lv es(1) by (metis mset_map)
next
  assume a: "length vs = length ids \<and> mset (map answer rows) = mset (map Some (zip ids vs))"
  have "None \<notin> set (map answer rows)" using a by (metis ex_map_conv mset_eq_setD option.distinct(1))
  define es where "es = map (the \<circ> answer) rows"
  have es: "map answer rows = map Some es"
    using \<open>None \<notin> _\<close> by (auto simp: es_def) (metis image_eqI option.collapse)
  then have "mset (map Some es) = mset (map Some (zip ids vs))" using a by simp
  then have "image_mset the (mset (map Some es)) = image_mset the (mset (map Some (zip ids vs)))" by simp
  then have m: "mset es = mset (zip ids vs)" by (simp add: multiset.map_comp comp_def)
  have f: "mset (map fst es) = mset ids" using a m by (metis map_fst_zip mset_map)
  have d: "distinct (map fst es)" using f assms by (metis mset_eq_imp_distinct_iff)
  have l: "length rows = length ids" using es f by (metis length_map size_mset)
  have s: "set es = set (zip ids vs)" using m by (rule mset_eq_setD)
  have "fst ` set es \<subseteq> set ids" using f by (metis mset_eq_setD set_map subset_refl)
  then have c: "collect ids rows (\<lambda>_. None) = Inr (map_of es)"
    unfolding collect_ok using es d by (intro exI[of _ es]) auto
  have "map (map_of es) ids = map Some vs"
  proof (rule nth_equalityI)
    fix k assume k: "k < length (map (map_of es) ids)"
    then have "(ids ! k, vs ! k) \<in> set es" unfolding s using a by (auto simp: set_zip)
    then show "map (map_of es) ids ! k = map Some vs ! k" using k a d by simp
  qed (use a in simp)
  then have "take_values ids (map_of es) = Inr vs" using assms by (simp add: take_values_ok)
  with c l show "decode (JArr rows) ids True = Inr vs" by (simp add: decode_def)
qed

text \<open>C11: a batch is answered exactly when its envelopes are, in whatever order, one successful answer to
  each request; the results are then in the order of the requests.\<close>

theorem batch_answers_any_order:
  assumes "distinct ids"
  shows "decode (JArr rows) ids True = Inr vs \<longleftrightarrow>
    length vs = length ids \<and> mset (map answer rows) = mset (map Some (zip ids vs))"
  using decode_batch[OF assms] .

definition sample_answer :: "nat \<Rightarrow> json" where
  "sample_answer i = JObj [(''id'', jnat i), (''error'', JNull), (''result'', jnat (10 * i))]"

theorem batch_answers_any_order_witness:
  "decode (JArr [sample_answer 2, sample_answer 1]) [1, 2] True = Inr [jnat 10, jnat 20]"
proof -
  have "map answer [sample_answer 2, sample_answer 1] = [Some (2, jnat 20), Some (1, jnat 10)]" by code_simp
  then show ?thesis using batch_answers_any_order[of "[1, 2]" "[sample_answer 2, sample_answer 1]" "[jnat 10, jnat 20]"]
    by simp
qed

section \<open>Retries\<close>

text \<open>What one exchange gives, with its answers matched.\<close>

definition exchange :: "rpc \<Rightarrow> json \<Rightarrow> nat list \<Rightarrow> bool \<Rightarrow> nat \<Rightarrow> rpc_failure + json list" where
  "exchange c payload ids batch n = (case read_reply c (rc_wire c n payload) of Inl f \<Rightarrow> Inl f | Inr v \<Rightarrow> decode v ids batch)"

lemma dispatch_loop_outcome:
  assumes "dispatch_loop c payload ids batch k (Suc left) s = (r, t)"
  shows "\<exists>n \<le> left. rs_sent t = rs_sent s + Suc n \<and> rs_sequence t = rs_sequence s \<and> rs_waited t \<le> rs_waited s + 10000 * n \<and>
    (\<forall>i < n. \<exists>f. exchange c payload ids batch (rs_sent s + i) = Inl f \<and> rf_retryable f) \<and>
    (case exchange c payload ids batch (rs_sent s + n) of Inr vs \<Rightarrow> r = Inr vs
     | Inl f \<Rightarrow> r = Inl (failure_text f) \<and> (rf_retryable f \<longrightarrow> n = left))"
  using assms
proof (induction left arbitrary: k s)
  case 0
  then show ?case by (auto simp: send_def exchange_def Let_def split: sum.splits if_splits)
next
  case (Suc left)
  let ?e = "exchange c payload ids batch (rs_sent s)"
  show ?case
  proof (cases "\<exists>f. ?e = Inl f \<and> rf_retryable f")
    case False
    then have "rs_sent t = rs_sent s + 1" "rs_sequence t = rs_sequence s" "rs_waited t = rs_waited s"
      "case ?e of Inr vs \<Rightarrow> r = Inr vs | Inl f \<Rightarrow> r = Inl (failure_text f)"
      using Suc.prems by (auto simp: send_def exchange_def Let_def split: sum.splits if_splits)
    then show ?thesis using False by (intro exI[of _ 0]) (auto split: sum.splits)
  next
    case True
    then obtain f where f: "?e = Inl f" "rf_retryable f" by blast
    let ?s = "s\<lparr>rs_sent := rs_sent s + 1, rs_waited := rs_waited s + rpc_delay (rc_policy c) k\<rparr>"
    have "dispatch_loop c payload ids batch (Suc k) (Suc left) ?s = (r, t)"
      using Suc.prems f by (auto simp: send_def exchange_def Let_def split: sum.splits if_splits)
    from Suc.IH[OF this] obtain n where n: "n \<le> left" "rs_sent t = rs_sent s + 1 + Suc n" "rs_sequence t = rs_sequence s"
      "rs_waited t \<le> rs_waited s + rpc_delay (rc_policy c) k + 10000 * n"
      "\<forall>i < n. \<exists>f. exchange c payload ids batch (rs_sent s + 1 + i) = Inl f \<and> rf_retryable f"
      "case exchange c payload ids batch (rs_sent s + 1 + n) of Inr vs \<Rightarrow> r = Inr vs
       | Inl f \<Rightarrow> r = Inl (failure_text f) \<and> (rf_retryable f \<longrightarrow> n = left)" by auto
    have "rpc_delay (rc_policy c) k \<le> 10000" by (simp add: rpc_delay_def)
    moreover have "\<exists>f. exchange c payload ids batch (rs_sent s + i) = Inl f \<and> rf_retryable f" if "i < Suc n" for i
      using that f n(5) by (cases i) auto
    ultimately show ?thesis using n by (intro exI[of _ "Suc n"]) (auto split: sum.splits)
  qed
qed

text \<open>As many answers as requests.\<close>

lemma take_values_length: "take_values ids m = Inr vs \<Longrightarrow> length vs = length ids"
  by (induction ids arbitrary: m vs) (auto split: option.splits sum.splits)

lemma decode_length: "decode v ids batch = Inr vs \<Longrightarrow> length vs = length ids"
  by (auto simp: decode_def dest: take_values_length split: option.splits if_splits sum.splits)

lemma dispatch_loop_length:
  "dispatch_loop c payload ids batch k left s = (Inr vs, t) \<Longrightarrow> length vs = length ids"
proof (induction left arbitrary: k s)
  case (Suc left)
  then show ?case by (auto simp: Let_def split: prod.splits sum.splits if_splits dest: decode_length)
qed simp

lemma io_map_length: "io_map f xs s = (Inr ys, t) \<Longrightarrow> length ys = length xs"
  by (induction xs arbitrary: ys s) (auto simp: io_simps)

lemma rpc_batch_length: "rpc_batch c calls s = (Inr vs, t) \<Longrightarrow> length vs = length calls"
  by (auto simp: rpc_batch_def dispatch_def io_simps dest!: dispatch_loop_length io_map_length split: if_splits)


text \<open>A node that is warming up once and then answers.\<close>

definition sample_rpc :: rpc where
  "sample_rpc = \<lparr>rc_wire = (\<lambda>n _. Some \<lparr>re_status = 200, re_chunks = [Some (show_nat n)]\<rparr>),
     rc_parse = (\<lambda>b. Some (if b = ''0'' then JObj [(''id'', jnat 1), (''error'', JObj [(''code'', JNum ''-28'')])]
                         else sample_answer 1)),
     rc_policy = default_rpc_policy\<lparr>rp_attempts := 3, rp_base_ms := 100\<rparr>\<rparr>"


end
