(* ===== verification/Resolver.thy ===== *)
theory Resolver
  imports Rpc_Client Block_Extraction Publication "HOL-Library.List_Lexorder" "HOL-Library.Char_ord" "HOL-Library.Product_Lexorder"
begin

text \<open>
  The world a node works in, and the resolution of the previous outputs a block spends
  (\<open>dockerizd_bitcoin/src/bitcoin/resolver.rs\<close>): first from the stored outputs, then from
  historical transactions fetched in batches. The query of stored outputs is a parameter, and so is
  the order in which concurrent tasks complete.
\<close>

section \<open>The world\<close>

text \<open>The warehouse, the clients of the endpoints, and the number of operations that read a clock.\<close>

record world =
  wd_store :: store
  wd_rpc :: "nat \<Rightarrow> rpc_state"
  wd_tick :: nat

definition on_store :: "(store, 'a) io \<Rightarrow> (world, 'a) io" where
  "on_store = io_zoom wd_store (\<lambda>t w. w\<lparr>wd_store := t\<rparr>)"

definition on_rpc :: "nat \<Rightarrow> (rpc_state, 'a) io \<Rightarrow> (world, 'a) io" where
  "on_rpc i = io_zoom (\<lambda>w. wd_rpc w i) (\<lambda>t w. w\<lparr>wd_rpc := (wd_rpc w)(i := t)\<rparr>)"

definition at_tick :: "(nat \<Rightarrow> (world, 'a) io) \<Rightarrow> (world, 'a) io" where
  "at_tick f = io_get wd_tick (\<lambda>n. io_then (io_modify (\<lambda>w. w\<lparr>wd_tick := n + 1\<rparr>)) (\<lambda>_. f n))"

text \<open>A list in the order given by positions.\<close>

definition in_order :: "(nat \<Rightarrow> nat list) \<Rightarrow> 'a list \<Rightarrow> 'a list" where
  "in_order ord xs = map ((!) xs) (ord (length xs))"

definition some_order :: "(nat \<Rightarrow> nat list) \<Rightarrow> bool" where
  "some_order ord \<longleftrightarrow> (\<forall>n. mset (ord n) = mset [0..<n])"

lemma in_order_mset: "some_order ord \<Longrightarrow> mset (in_order ord xs) = mset xs"
  by (metis in_order_def map_nth mset_map some_order_def)

lemma in_order_set: "some_order ord \<Longrightarrow> set (in_order ord xs) = set xs"
  using in_order_mset by (rule mset_eq_setD)

lemma some_order_id: "some_order (\<lambda>n. [0..<n])"
  by (simp add: some_order_def)

section \<open>What has to be resolved\<close>

record pipeline =
  pc_block_batch :: nat
  pc_block_tasks :: nat
  pc_prevout_batch :: nat
  pc_prevout_tasks :: nat
  pc_max_prevouts :: nat
  pc_max_bytes :: nat
  pc_cooldown :: nat

definition default_pipeline :: pipeline where
  "default_pipeline = \<lparr>pc_block_batch = 2, pc_block_tasks = 2, pc_prevout_batch = 128, pc_prevout_tasks = 2,
     pc_max_prevouts = 100000, pc_max_bytes = 67108864, pc_cooldown = 30\<rparr>"

definition validate_pipeline :: "pipeline \<Rightarrow> unit res" where
  "validate_pipeline p =
     ensure (1 \<le> pc_block_batch p \<and> pc_block_batch p \<le> 8 \<and> 1 \<le> pc_block_tasks p \<and> pc_block_tasks p \<le> 4 \<and>
             1 \<le> pc_prevout_batch p \<and> pc_prevout_batch p \<le> 256 \<and> 1 \<le> pc_prevout_tasks p \<and> pc_prevout_tasks p \<le> 4 \<and>
             1 \<le> pc_max_prevouts p \<and> pc_max_prevouts p \<le> 500000 \<and> 1024 \<le> pc_max_bytes p \<and> pc_max_bytes p \<le> 134217728 \<and>
             1 \<le> pc_cooldown p \<and> pc_cooldown p \<le> 600) ''invalid Bitcoin pipeline bounds'' (Inr ())"

definition hash_field :: "json \<Rightarrow> string \<Rightarrow> (string \<Rightarrow> 'a res) \<Rightarrow> 'a res" where
  "hash_field v msg k = need (as_str (field v ''txid'')) msg (\<lambda>raw. attempt (btc_hash raw) k)"

text \<open>The ordered set of outpoints an input adds to.\<close>

definition need_input :: "pipeline \<Rightarrow> string set \<Rightarrow> string set \<Rightarrow> json \<Rightarrow> (string \<times> nat) list \<Rightarrow> (string \<times> nat) list res" where
  "need_input cfg all earlier inp needed =
     (if member inp ''coinbase'' \<noteq> None then Inr needed else
      hash_field inp ''missing previous txid'' (\<lambda>h.
      ensure (h \<notin> all \<or> h \<in> earlier) ''input refers to a later transaction in the same block''
      (if member inp ''prevout'' \<noteq> None \<or> h \<in> earlier then Inr needed else
       need (as_u64 (field inp ''vout'')) ''missing vout'' (\<lambda>n.
       ensure (n < u32_lim) ''out of range integral type conversion attempted''
       (ensure (length (insort_insert (h, n) needed) \<le> pc_max_prevouts cfg) ''block exceeds configured prevout work limit''
        (Inr (insort_insert (h, n) needed)))))))"

definition need_tx :: "pipeline \<Rightarrow> string set \<Rightarrow> json \<Rightarrow> string set \<times> (string \<times> nat) list \<Rightarrow> (string set \<times> (string \<times> nat) list) res" where
  "need_tx cfg all tx st = (case st of (earlier, needed) \<Rightarrow>
     need (as_array (field tx ''vin'')) ''missing vin'' (\<lambda>vin.
     attempt (foldE (need_input cfg all earlier) vin needed) (\<lambda>needed'.
     hash_field tx ''missing txid'' (\<lambda>h. Inr (insert h earlier, needed')))))"

definition needed_outpoints :: "pipeline \<Rightarrow> json list \<Rightarrow> (string \<times> nat) list res" where
  "needed_outpoints cfg txs =
     attempt (mapE (\<lambda>tx. hash_field tx ''missing txid'' Inr) txs) (\<lambda>ids.
     attempt (foldE (need_tx cfg (set ids)) txs ({}, [])) (\<lambda>(_, needed). Inr needed))"

section \<open>Finding them\<close>

type_synonym resolution = "(string \<rightharpoonup> script_output) \<times> nat"

definition output_cost :: "script_output \<Rightarrow> nat" where
  "output_cost q = length (so_script_hex q) + length (so_address q) + length (so_script_type q) + 128"

definition charge :: "nat \<Rightarrow> script_output \<Rightarrow> nat \<Rightarrow> nat res" where
  "charge limit q bytes =
     (let charged = saturating_add64 (saturating_add64 (saturating_add64 (saturating_add64 bytes (length (so_script_hex q)))
        (length (so_address q))) (length (so_script_type q))) 128
      in ensure (charged \<le> limit) ''resolved prevouts exceed configured evidence byte budget'' (Inr charged))"

definition keep_output :: "pipeline \<Rightarrow> string \<times> script_output \<Rightarrow> resolution \<Rightarrow> resolution res" where
  "keep_output cfg kq st = (case kq of (k, q) \<Rightarrow> case st of (found, bytes) \<Rightarrow>
     attempt (charge (pc_max_bytes cfg) q bytes) (\<lambda>b. Inr (found(k \<mapsto> q), b)))"

record stored_output =
  sd_txid :: string
  sd_index :: nat
  sd_output :: script_output

record source =
  sc_lib :: btc_lib
  sc_stored :: "store \<Rightarrow> (string \<times> nat) list \<Rightarrow> stored_output list res"  \<comment> \<open>canonical outputs at the given outpoints\<close>
  sc_order :: "nat \<Rightarrow> nat list"     \<comment> \<open>the order in which concurrent tasks complete\<close>
  sc_bytes :: "json \<Rightarrow> nat"         \<comment> \<open>length of the JSON text\<close>

definition stored_chunk :: "source \<Rightarrow> pipeline \<Rightarrow> (string \<times> nat) list \<Rightarrow> resolution \<Rightarrow> (world, resolution) io" where
  "stored_chunk src cfg keys st =
     io_get (\<lambda>w. sc_stored src (wd_store w) keys) (\<lambda>answer. io_attempt answer (\<lambda>rows.
     io_attempt (foldE (keep_output cfg) (map (\<lambda>r. (outpoint (sd_txid r) (sd_index r), sd_output r)) rows) st) io_return))"

fun io_fold :: "('a \<Rightarrow> 'b \<Rightarrow> ('s, 'b) io) \<Rightarrow> 'a list \<Rightarrow> 'b \<Rightarrow> ('s, 'b) io" where
  "io_fold f [] acc = io_return acc"
| "io_fold f (x # xs) acc = io_then (f x acc) (io_fold f xs)"

text \<open>The outputs a historical transaction is asked for.\<close>

definition historical_output :: "source \<Rightarrow> pipeline \<Rightarrow> json \<Rightarrow> string \<Rightarrow> nat \<Rightarrow> resolution \<Rightarrow> resolution res" where
  "historical_output src cfg tx h n st =
     need (case as_array (field tx ''vout'') of None \<Rightarrow> None | Some xs \<Rightarrow> if n < length xs then Some (xs ! n) else None)
       ''historical prevout unavailable; provide undo data or txindex'' (\<lambda>out.
     ensure (as_u64 (field out ''n'') = Some n) ''previous output index mismatch''
     (attempt (so_from_rpc (sc_lib src) out) (\<lambda>q. keep_output cfg (outpoint h n, q) st)))"

definition historical_tx ::
  "source \<Rightarrow> pipeline \<Rightarrow> (string \<Rightarrow> nat list) \<Rightarrow> string \<times> json \<Rightarrow> resolution \<Rightarrow> resolution res" where
  "historical_tx src cfg requested hv st = (case hv of (h, tx) \<Rightarrow>
     ensure (field tx ''txid'' = JStr h) ''previous transaction mismatch''
     (foldE (historical_output src cfg tx h) (requested h) st))"

definition historical_batch :: "source \<Rightarrow> rpc \<Rightarrow> nat \<Rightarrow> pipeline \<Rightarrow> (string \<Rightarrow> nat list) \<Rightarrow> string list \<Rightarrow> resolution \<Rightarrow> (world, resolution) io" where
  "historical_batch src c i cfg requested hs st =
     io_then (on_rpc i (rpc_batch c (map (\<lambda>h. (''getrawtransaction'', JArr [JStr h, JBool True])) hs))) (\<lambda>values.
     io_attempt (foldE (historical_tx src cfg requested) (zip hs values) st) io_return)"

definition missing_keys :: "(string \<times> nat) list \<Rightarrow> (string \<rightharpoonup> script_output) \<Rightarrow> (string \<times> nat) list" where
  "missing_keys needed found = filter (\<lambda>(h, n). found (outpoint h n) = None) needed"

definition resolve_missing :: "source \<Rightarrow> rpc \<Rightarrow> nat \<Rightarrow> pipeline \<Rightarrow> (string \<times> nat) list \<Rightarrow> resolution \<Rightarrow> (world, resolution) io" where
  "resolve_missing src c i cfg missing st =
     (let hs = remdups_adj (map fst missing); requested = (\<lambda>h. map snd (filter (\<lambda>(g, n). g = h) missing))
      in io_fold (\<lambda>group. io_fold (historical_batch src c i cfg requested) (in_order (sc_order src) group))
           (chunks (pc_prevout_tasks cfg) (chunks (pc_prevout_batch cfg) hs)) st)"

definition resolve :: "source \<Rightarrow> rpc \<Rightarrow> nat \<Rightarrow> pipeline \<Rightarrow> json \<Rightarrow> (world, string \<rightharpoonup> script_output) io" where
  "resolve src c i cfg block =
     io_attempt (validate_pipeline cfg) (\<lambda>_.
     io_need (as_array (field block ''tx'')) ''missing decoded transactions'' (\<lambda>txs.
     io_attempt (needed_outpoints cfg txs) (\<lambda>needed.
     io_then (io_fold (stored_chunk src cfg) (chunks (pc_prevout_batch cfg) needed) (Map.empty, 0)) (\<lambda>st.
     io_then (resolve_missing src c i cfg (missing_keys needed (fst st)) st) (\<lambda>(found, bytes).
     io_ensure (list_all (\<lambda>(h, n). found (outpoint h n) \<noteq> None) needed) ''unresolved historical prevout''
       (io_return found))))))"

section \<open>Every spent output is served\<close>

text \<open>An input is served when it is a coinbase, carries its previous output, spends an earlier
  transaction of the block, or finds its outpoint among the resolved outputs.\<close>

definition input_served :: "string set \<Rightarrow> ((string \<times> nat) \<Rightarrow> bool) \<Rightarrow> json \<Rightarrow> bool" where
  "input_served earlier found inp \<longleftrightarrow> member inp ''coinbase'' \<noteq> None \<or>
     (\<exists>raw h. as_str (field inp ''txid'') = Some raw \<and> btc_hash raw = Inr h \<and>
        (h \<in> earlier \<or> member inp ''prevout'' \<noteq> None \<or>
         (\<exists>n < u32_lim. as_u64 (field inp ''vout'') = Some n \<and> found (h, n))))"

definition tx_hash :: "json \<Rightarrow> string option" where
  "tx_hash tx = Option.bind (as_str (field tx ''txid'')) (\<lambda>raw. ok (btc_hash raw))"

definition tx_served :: "((string \<times> nat) \<Rightarrow> bool) \<Rightarrow> json list \<Rightarrow> json \<Rightarrow> bool" where
  "tx_served found before tx \<longleftrightarrow> (\<exists>vin. field tx ''vin'' = JArr vin \<and>
     (\<forall>inp \<in> set vin. input_served {h. Some h \<in> tx_hash ` set before} found inp))"

lemma input_served_mono: "input_served e f inp \<Longrightarrow> (\<And>k. f k \<Longrightarrow> g k) \<Longrightarrow> input_served e g inp"
  unfolding input_served_def by blast

lemma hash_field_ok [ok_simps]:
  "hash_field v msg k = Inr r \<longleftrightarrow> (\<exists>raw h. as_str (field v ''txid'') = Some raw \<and> btc_hash raw = Inr h \<and> k h = Inr r)"
  by (auto simp: hash_field_def ok_simps)

lemma insort_insert_same: "insort_insert x xs = xs \<Longrightarrow> x \<in> set xs"
  by (metis insertI1 set_insort_insert)

lemma need_input_grows:
  "need_input cfg all earlier inp needed = Inr out \<Longrightarrow> set needed \<subseteq> set out \<and> input_served earlier (\<lambda>k. k \<in> set out) inp \<and>
     (length needed \<le> pc_max_prevouts cfg \<longrightarrow> length out \<le> pc_max_prevouts cfg)"
  by (auto simp: need_input_def input_served_def ok_simps set_insort_insert dest: insort_insert_same split: if_splits)

lemma need_inputs_grow:
  "foldE (need_input cfg all earlier) vin needed = Inr out \<Longrightarrow> set needed \<subseteq> set out \<and>
     (\<forall>inp \<in> set vin. input_served earlier (\<lambda>k. k \<in> set out) inp) \<and>
     (length needed \<le> pc_max_prevouts cfg \<longrightarrow> length out \<le> pc_max_prevouts cfg)"
proof (induction vin arbitrary: needed)
  case (Cons inp vin)
  then obtain mid where m: "need_input cfg all earlier inp needed = Inr mid" "foldE (need_input cfg all earlier) vin mid = Inr out"
    by (auto simp: ok_simps)
  note a = need_input_grows[OF m(1)] and b = Cons.IH[OF m(2)]
  then have "input_served earlier (\<lambda>k. k \<in> set out) inp" by (blast intro: input_served_mono)
  with a b show ?case by auto
qed simp

definition needed_inv :: "pipeline \<Rightarrow> json list \<Rightarrow> string set \<times> (string \<times> nat) list \<Rightarrow> bool" where
  "needed_inv cfg done st \<longleftrightarrow> fst st = {h. Some h \<in> tx_hash ` set done} \<and> length (snd st) \<le> pc_max_prevouts cfg \<and>
     each_after (tx_served (\<lambda>k. k \<in> set (snd st))) done"

lemma each_after_mono: "each_after P xs \<Longrightarrow> (\<And>ys x. P ys x \<Longrightarrow> Q ys x) \<Longrightarrow> each_after Q xs"
  by (simp add: each_after_def)

lemma need_tx_step:
  assumes "needed_inv cfg done st" "need_tx cfg all tx st = Inr st'"
  shows "needed_inv cfg (done @ [tx]) st'"
proof -
  obtain earlier needed where st: "st = (earlier, needed)" by (cases st)
  from assms(2) obtain vin out raw h where v: "field tx ''vin'' = JArr vin" "foldE (need_input cfg all earlier) vin needed = Inr out"
    "as_str (field tx ''txid'') = Some raw" "btc_hash raw = Inr h" "st' = (insert h earlier, out)"
    by (auto simp: need_tx_def st ok_simps)
  have e: "earlier = {h. Some h \<in> tx_hash ` set done}" using assms(1) by (simp add: needed_inv_def st)
  note g = need_inputs_grow[OF v(2)]
  have "tx_served (\<lambda>k. k \<in> set out) done tx" unfolding tx_served_def using v(1) g e by blast
  moreover have "each_after (tx_served (\<lambda>k. k \<in> set out)) done"
  proof (rule each_after_mono)
    show "each_after (tx_served (\<lambda>k. k \<in> set needed)) done" using assms(1) by (simp add: needed_inv_def st)
    fix ys x
    assume "tx_served (\<lambda>k. k \<in> set needed) ys x"
    then show "tx_served (\<lambda>k. k \<in> set out) ys x" unfolding tx_served_def using g by (blast intro: input_served_mono)
  qed
  moreover have "tx_hash tx = Some h" using v(3,4) by (simp add: tx_hash_def ok_def)
  ultimately show ?thesis using assms(1) g by (auto simp: needed_inv_def st v(5) e)
qed

lemma needed_outpoints_ok:
  assumes "needed_outpoints cfg txs = Inr needed"
  shows "each_after (tx_served (\<lambda>k. k \<in> set needed)) txs \<and> length needed \<le> pc_max_prevouts cfg"
proof -
  from assms obtain all earlier where "foldE (need_tx cfg all) txs ({}, []) = Inr (earlier, needed)"
    by (auto simp: needed_outpoints_def ok_simps)
  then have "needed_inv cfg txs (earlier, needed)"
  proof (rule foldE_invariant)
    show "needed_inv cfg [] ({}, [])" by (simp add: needed_inv_def)
  qed (rule need_tx_step)
  then show ?thesis by (simp add: needed_inv_def)
qed

text \<open>The bytes charged bound what is held.\<close>

definition held :: "(string \<rightharpoonup> script_output) \<Rightarrow> nat" where
  "held found = (\<Sum>k \<in> dom found. output_cost (the (found k)))"

definition within :: "pipeline \<Rightarrow> resolution \<Rightarrow> bool" where
  "within cfg st \<longleftrightarrow> finite (dom (fst st)) \<and> held (fst st) \<le> snd st \<and> snd st \<le> pc_max_bytes cfg"

lemma charge_ok:
  assumes "charge limit q bytes = Inr charged" "limit < u64_lim - 1"
  shows "charged = bytes + output_cost q \<and> charged \<le> limit"
  using assms by (auto simp: charge_def output_cost_def saturating_add64_def ok_simps min_def split: if_splits)

lemma held_upd:
  assumes "finite (dom found)"
  shows "held (found(k \<mapsto> q)) \<le> held found + output_cost q"
proof -
  have f: "finite (dom found - {k})" using assms by simp
  have "held (found(k \<mapsto> q)) = (\<Sum>j \<in> insert k (dom found - {k}). output_cost (the ((found(k \<mapsto> q)) j)))"
    unfolding held_def by (rule sum.cong) auto
  also have "\<dots> = output_cost q + (\<Sum>j \<in> dom found - {k}. output_cost (the ((found(k \<mapsto> q)) j)))"
    using f by (subst sum.insert) auto
  also have "(\<Sum>j \<in> dom found - {k}. output_cost (the ((found(k \<mapsto> q)) j))) = (\<Sum>j \<in> dom found - {k}. output_cost (the (found j)))"
    by (rule sum.cong) auto
  finally have "held (found(k \<mapsto> q)) = output_cost q + (\<Sum>j \<in> dom found - {k}. output_cost (the (found j)))" .
  moreover have "(\<Sum>j \<in> dom found - {k}. output_cost (the (found j))) \<le> held found"
    unfolding held_def using assms by (intro sum_mono2) auto
  ultimately show ?thesis by linarith
qed

lemma keep_output_within:
  assumes "keep_output cfg kq st = Inr st'" "within cfg st" "pc_max_bytes cfg < u64_lim - 1"
  shows "within cfg st'"
proof -
  obtain k q found bytes where e: "kq = (k, q)" "st = (found, bytes)" by (cases kq; cases st)
  from assms(1) obtain charged where c: "charge (pc_max_bytes cfg) q bytes = Inr charged" "st' = (found(k \<mapsto> q), charged)"
    by (auto simp: keep_output_def e ok_simps)
  have f: "finite (dom found)" using assms(2) by (simp add: within_def e)
  have "held (found(k \<mapsto> q)) \<le> held found + output_cost q" by (rule held_upd[OF f])
  then show ?thesis using charge_ok[OF c(1) assms(3)] assms(2) by (simp add: within_def e c(2) del: fun_upd_apply)
qed

lemma historical_within:
  assumes "foldE (historical_tx src cfg requested) hvs st = Inr st'" "within cfg st" "pc_max_bytes cfg < u64_lim - 1"
  shows "within cfg st'"
proof (rule foldE_keeps[where P = "within cfg", OF assms(1,2)])
  fix hv s u
  assume s: "within cfg s" and h: "historical_tx src cfg requested hv s = Inr u"
  obtain h tx where hv: "hv = (h, tx)" by (cases hv)
  from h have "foldE (historical_output src cfg tx h) (requested h) s = Inr u" by (simp add: historical_tx_def hv ok_simps)
  then show "within cfg u"
    by (rule foldE_keeps[where P = "within cfg", OF _ s])
      (auto simp: historical_output_def ok_simps intro: keep_output_within[OF _ _ assms(3)])
qed

lemma io_fold_keeps:
  assumes "io_fold f xs acc s = (Inr r, t)" "P acc"
    and "\<And>x a s r t. x \<in> set xs \<Longrightarrow> P a \<Longrightarrow> f x a s = (Inr r, t) \<Longrightarrow> P r"
  shows "P r"
  using assms
proof (induction xs arbitrary: acc s)
  case Nil
  then show ?case by (simp add: io_return_def)
next
  case (Cons x xs)
  from Cons.prems(1) obtain a u where a: "f x acc s = (Inr a, u)" "io_fold f xs a u = (Inr r, t)" by (auto simp: io_simps)
  have "P a" using Cons.prems(3)[OF _ Cons.prems(2) a(1)] by simp
  from a(2) this show ?case by (rule Cons.IH) (rule Cons.prems(3)[OF list.set_intros(2)])
qed

lemma resolve_ok:
  assumes run: "resolve src c i cfg block w = (Inr found, w')"
  shows "\<exists>txs needed. field block ''tx'' = JArr txs \<and> needed_outpoints cfg txs = Inr needed \<and>
    (\<forall>(h, n) \<in> set needed. found (outpoint h n) \<noteq> None) \<and> finite (dom found) \<and> held found \<le> pc_max_bytes cfg"
proof -
  from run obtain u txs needed st w1 bytes where v: "validate_pipeline cfg = Inr u" and
    t: "field block ''tx'' = JArr txs" "needed_outpoints cfg txs = Inr needed" and
    s: "io_fold (stored_chunk src cfg) (chunks (pc_prevout_batch cfg) needed) (Map.empty, 0) w = (Inr st, w1)" and
    m: "resolve_missing src c i cfg (missing_keys needed (fst st)) st w1 = (Inr (found, bytes), w')" and
    e: "list_all (\<lambda>(h, n). found (outpoint h n) \<noteq> None) needed"
    by (auto simp: resolve_def io_simps as_array_Some)
  have b: "pc_max_bytes cfg < u64_lim - 1" using v by (simp add: validate_pipeline_def ok_simps u64_lim_val)
  have "within cfg (Map.empty, 0)" by (simp add: within_def held_def)
  with s have st: "within cfg st"
  proof (rule io_fold_keeps)
    fix keys a w r t
    assume "within cfg a" "stored_chunk src cfg keys a w = (Inr r, t)"
    then obtain rows :: "stored_output list" where
      "foldE (keep_output cfg) (map (\<lambda>r. (outpoint (sd_txid r) (sd_index r), sd_output r)) rows) a = Inr r"
      by (auto simp: stored_chunk_def io_simps)
    then show "within cfg r" by (rule foldE_keeps) (auto intro: keep_output_within[OF _ _ b] \<open>within cfg a\<close>)
  qed
  let ?requested = "\<lambda>h. map snd (filter (\<lambda>(g, n). g = h) (missing_keys needed (fst st)))"
  from m have "io_fold (\<lambda>group. io_fold (historical_batch src c i cfg ?requested) (in_order (sc_order src) group))
      (chunks (pc_prevout_tasks cfg) (chunks (pc_prevout_batch cfg) (remdups_adj (map fst (missing_keys needed (fst st)))))) st w1 =
      (Inr (found, bytes), w')" by (simp add: resolve_missing_def Let_def)
  from this st have "within cfg (found, bytes)"
  proof (rule io_fold_keeps)
    fix group a w r t
    assume a: "within cfg a"
    assume "io_fold (historical_batch src c i cfg ?requested) (in_order (sc_order src) group) a w = (Inr r, t)"
    from this a show "within cfg r"
      by (rule io_fold_keeps) (auto simp: historical_batch_def io_simps intro: historical_within[OF _ _ b])
  qed
  then show ?thesis using t e by (intro exI[of _ txs] exI[of _ needed]) (auto simp: within_def list_all_iff)
qed


text \<open>A block that spends the second output of an old transaction, which a node serves.\<close>

definition old_tx :: json where
  "old_tx = JObj [(''txid'', JStr (sample_hash (CHR ''3''))), (''vout'', JArr [sample_out 0 ''20'', sample_out 1 ''30''])]"

definition old_rpc :: rpc where
  "old_rpc = \<lparr>rc_wire = (\<lambda>_ _. Some \<lparr>re_status = 200, re_chunks = []\<rparr>),
     rc_parse = (\<lambda>_. Some (JObj [(''id'', jnat 1), (''error'', JNull), (''result'', old_tx)])), rc_policy = default_rpc_policy\<rparr>"

definition sample_source :: source where
  "sample_source = \<lparr>sc_lib = sample_lib, sc_stored = (\<lambda>_ _. Inr []), sc_order = (\<lambda>n. [0..<n]), sc_bytes = (\<lambda>_. 100)\<rparr>"

definition spending_block :: json where
  "spending_block = JObj [(''tx'', JArr [
      JObj [(''txid'', JStr (sample_hash (CHR ''1''))), (''vin'', JArr [JObj [(''coinbase'', JStr ''00'')]])],
      JObj [(''txid'', JStr (sample_hash (CHR ''2''))), (''vin'', JArr [
        JObj [(''txid'', JStr (sample_hash (CHR ''3''))), (''vout'', JNum ''1'')],
        JObj [(''txid'', JStr (sample_hash (CHR ''1''))), (''vout'', JNum ''0'')]])]])]"

definition blank_world :: world where
  "blank_world = \<lparr>wd_store = \<lparr>identity = [network_id Bitcoin], states = [], blocks = [], facts = [], failures = [], seals = [],
     derived = [], budget = 100\<rparr>, wd_rpc = (\<lambda>_. rpc_new), wd_tick = 0\<rparr>"


end
