(* ===== verification/Block_Window.thy ===== *)
theory Block_Window
  imports Resolver
begin

text \<open>
  The bounded window of blocks (\<open>dockerizd_bitcoin/src/bitcoin/fetch.rs\<close>): hashes first, then the
  blocks by concurrent tasks, then the checks that make the window one chain, and the hashes again.
\<close>

definition window_budget :: nat where
  "window_budget = 134217728"

definition hash_calls :: "nat list \<Rightarrow> (string \<times> json) list" where
  "hash_calls heights = map (\<lambda>h. (''getblockhash'', JArr [jnat h])) heights"

type_synonym fetched = "(nat \<times> string \<times> json) list"

definition fetch_one :: "source \<Rightarrow> rpc \<Rightarrow> nat \<Rightarrow> nat \<Rightarrow> nat \<times> string \<Rightarrow> fetched \<times> nat \<Rightarrow> (world, fetched \<times> nat) io" where
  "fetch_one src c i verbosity job acc = (case job of (h, hash) \<Rightarrow> case acc of (fetched, bytes) \<Rightarrow>
     io_then (on_rpc i (rpc_block c hash verbosity)) (\<lambda>b.
     io_ensure (saturating_add64 bytes (sc_bytes src b) \<le> window_budget)
       ''block window exceeds 128 MiB JSON evidence budget; reduce block batch size''
       (io_return (fetched @ [(h, hash, b)], saturating_add64 bytes (sc_bytes src b)))))"

definition check_block :: "fetched \<Rightarrow> nat \<Rightarrow> unit res" where
  "check_block xs k = (case xs ! k of (h, hash, b) \<Rightarrow>
     ensure (as_u64 (field b ''height'') = Some h \<and> field b ''hash'' = JStr hash) ''RPC block identity mismatch''
     (ensure (0 < k \<longrightarrow> field b ''previousblockhash'' = field (snd (snd (xs ! (k - 1)))) ''hash'')
       ''non-contiguous RPC window'' (Inr ())))"

definition fetch_blocks :: "source \<Rightarrow> rpc \<Rightarrow> nat \<Rightarrow> nat \<Rightarrow> nat \<Rightarrow> nat \<Rightarrow> nat \<Rightarrow> nat \<Rightarrow> (world, json list) io" where
  "fetch_blocks src c i start till limit tasks verbosity =
     io_ensure (start \<le> till \<and> till < u32_lim \<and> 1 \<le> limit \<and> limit \<le> 8 \<and> 1 \<le> tasks \<and> tasks \<le> 4) ''invalid block fetch bounds''
     (let heights = [start..<Suc (min till (start + limit - 1))] in
      io_then (on_rpc i (rpc_batch c (hash_calls heights))) (\<lambda>values.
      io_attempt (mapE (\<lambda>v. need (as_str v) ''invalid block hash'' btc_hash) values) (\<lambda>hashes.
      io_then (io_fold (\<lambda>chunk. io_fold (fetch_one src c i verbosity) (in_order (sc_order src) chunk))
                 (chunks tasks (zip heights hashes)) ([], 0)) (\<lambda>acc.
      let xs = sort_key fst (fst acc) in
      io_attempt (forE (check_block xs) [0..<length xs]) (\<lambda>_.
      io_then (on_rpc i (rpc_batch c (hash_calls heights))) (\<lambda>again.
      io_ensure (list_all (\<lambda>(a, b). as_str a = Some b) (zip again hashes)) ''chain changed during block fetch; discard window''
        (io_return (map (snd \<circ> snd) xs))))))))"

section \<open>A window is a piece of one chain\<close>

lemma on_rpc_store: "on_rpc i m w = (r, w') \<Longrightarrow> wd_store w' = wd_store w"
  by (auto simp: on_rpc_def io_simps)

lemma fetch_one_adds:
  "fetch_one src c i v job acc w = (Inr acc', w') \<Longrightarrow>
     \<exists>b. fst acc' = fst acc @ [(fst job, snd job, b)]"
  by (auto simp: fetch_one_def io_simps split: prod.splits)

lemma fetch_fold_adds:
  "io_fold (fetch_one src c i v) jobs acc w = (Inr acc', w') \<Longrightarrow>
     \<exists>new. fst acc' = fst acc @ new \<and> map (\<lambda>(h, hash, b). (h, hash)) new = jobs"
proof (induction jobs arbitrary: acc w)
  case Nil
  then show ?case by (simp add: io_return_def)
next
  case (Cons job jobs)
  from Cons.prems obtain mid u where m: "fetch_one src c i v job acc w = (Inr mid, u)"
    "io_fold (fetch_one src c i v) jobs mid u = (Inr acc', w')" by (auto simp: io_simps)
  from fetch_one_adds[OF m(1)] Cons.IH[OF m(2)] obtain b new where
    "fst mid = fst acc @ [(fst job, snd job, b)]" "fst acc' = fst mid @ new" "map (\<lambda>(h, hash, b). (h, hash)) new = jobs" by blast
  then show ?case by (intro exI[of _ "(fst job, snd job, b) # new"]) simp
qed

lemma fetch_groups_add:
  assumes "some_order ord"
  shows "io_fold (\<lambda>chunk. io_fold (fetch_one src c i v) (in_order ord chunk)) groups acc w = (Inr acc', w') \<Longrightarrow>
     \<exists>new. fst acc' = fst acc @ new \<and> mset (map (\<lambda>(h, hash, b). (h, hash)) new) = mset (concat groups)"
proof (induction groups arbitrary: acc w)
  case Nil
  then show ?case by (simp add: io_return_def)
next
  case (Cons g groups)
  from Cons.prems obtain mid u where m: "io_fold (fetch_one src c i v) (in_order ord g) acc w = (Inr mid, u)"
    "io_fold (\<lambda>chunk. io_fold (fetch_one src c i v) (in_order ord chunk)) groups mid u = (Inr acc', w')" by (auto simp: io_simps)
  from fetch_fold_adds[OF m(1)] Cons.IH[OF m(2)] obtain a b where
    "fst mid = fst acc @ a" "map (\<lambda>(h, hash, b). (h, hash)) a = in_order ord g"
    "fst acc' = fst mid @ b" "mset (map (\<lambda>(h, hash, b). (h, hash)) b) = mset (concat groups)" by blast
  then show ?case using in_order_mset[OF assms, of g] by (intro exI[of _ "a @ b"]) simp
qed

lemma fetch_blocks_ok:
  assumes "fetch_blocks src c i start till limit tasks verbosity w = (Inr bs, w')" "some_order (sc_order src)"
  shows "start \<le> till \<and> till < u32_lim \<and> length bs = min limit (till - start + 1) \<and> limit \<le> 8 \<and> wd_store w' = wd_store w \<and>
    (\<forall>k < length bs. as_u64 (field (bs ! k) ''height'') = Some (start + k) \<and>
       (\<exists>h. field (bs ! k) ''hash'' = JStr h) \<and>
       (0 < k \<longrightarrow> field (bs ! k) ''previousblockhash'' = field (bs ! (k - 1)) ''hash''))"
proof -
  let ?heights = "[start..<Suc (min till (start + limit - 1))]"
  from assms(1) obtain vals hashes acc again w1 w2 u where
    b: "start \<le> till" "till < u32_lim" "1 \<le> limit" "limit \<le> 8" "1 \<le> tasks" and
    v: "on_rpc i (rpc_batch c (hash_calls ?heights)) w = (Inr vals, w1)"
    "mapE (\<lambda>v. need (as_str v) ''invalid block hash'' btc_hash) vals = Inr hashes" and
    f: "io_fold (\<lambda>chunk. io_fold (fetch_one src c i verbosity) (in_order (sc_order src) chunk))
                 (chunks tasks (zip ?heights hashes)) ([], 0) w1 = (Inr acc, w2)" and
    k: "forE (check_block (sort_key fst (fst acc))) [0..<length (sort_key fst (fst acc))] = Inr u" and
    a: "on_rpc i (rpc_batch c (hash_calls ?heights)) w2 = (Inr again, w')" and
    bs: "bs = map (snd \<circ> snd) (sort_key fst (fst acc))"
    unfolding fetch_blocks_def Let_def io_ensure_ok io_then_ok io_attempt_ok io_return_ok by auto
  define xs where "xs = sort_key fst (fst acc)"
  have "length vals = length ?heights"
    using v(1) rpc_batch_length[of c "hash_calls ?heights"] by (auto simp: on_rpc_def io_simps hash_calls_def)
  then have lh: "length hashes = length ?heights" using v(2) by (auto simp: mapE_ok dest: list_all2_lengthD)
  from fetch_groups_add[OF assms(2) f] b(5) have m: "mset (map (\<lambda>(h, hash, b). (h, hash)) (fst acc)) = mset (zip ?heights hashes)"
    by (simp add: concat_chunks)
  have "mset (map fst (map (\<lambda>(h, hash, b). (h, hash)) (fst acc))) = mset (map fst (zip ?heights hashes))"
    using m by (metis mset_map)
  moreover have "map fst (map (\<lambda>(h, hash, b). (h, hash)) ys) = map fst ys" for ys :: fetched by (induction ys) auto
  moreover have "map fst (zip ?heights hashes) = ?heights" by (rule map_fst_zip) (simp only: lh)
  ultimately have "mset (map fst (fst acc)) = mset ?heights" by (simp only:)
  then have "mset (map fst xs) = mset ?heights" unfolding xs_def by (metis mset_map mset_sort)
  moreover have "sorted (map fst xs)" unfolding xs_def by (rule sorted_sort_key)
  ultimately have hs: "map fst xs = ?heights" by (metis properties_for_sort sorted_sort sorted_upt sort_upt)
  then have lx: "length xs = length ?heights" by (metis length_map)
  have c: "check_block xs j = Inr ()" if "j < length xs" for j
    using k that by (auto simp: forE_ok xs_def)
  have bk: "bs ! j = snd (snd (xs ! j))" if "j < length xs" for j using that by (simp add: bs xs_def)
  have "as_u64 (field (bs ! j) ''height'') = Some (start + j) \<and> (\<exists>h. field (bs ! j) ''hash'' = JStr h) \<and>
       (0 < j \<longrightarrow> field (bs ! j) ''previousblockhash'' = field (bs ! (j - 1)) ''hash'')" if j: "j < length xs" for j
  proof -
    have "fst (xs ! j) = ?heights ! j" by (metis hs j nth_map)
    then have "fst (xs ! j) = start + j" using j lx by (simp del: upt_Suc)
    then show ?thesis using c[OF j] bk[OF j] bk[of "j - 1"] j
      by (auto simp: check_block_def ok_simps split: prod.splits)
  qed
  moreover have "length bs = length xs" by (simp add: bs xs_def)
  moreover have "length xs = min limit (till - start + 1)" using lx b by (simp del: upt_Suc)
  moreover have "wd_store w2 = wd_store w1"
  proof -
    have one: "wd_store t = wd_store s" if "fetch_one src c i verbosity job a s = (Inr r, t)" for job a s r t
      using that by (auto simp: fetch_one_def io_simps split: prod.splits dest: on_rpc_store)
    have "wd_store t = wd_store s" if "io_fold (fetch_one src c i verbosity) jobs a s = (Inr r, t)" for jobs a s r t
      using that by (induction jobs arbitrary: a s) (auto simp: io_simps dest: one)
    then have "wd_store t = wd_store s" if "io_fold (\<lambda>chunk. io_fold (fetch_one src c i verbosity) (in_order (sc_order src) chunk)) gs a s = (Inr r, t)"
      for gs a s r t using that by (induction gs arbitrary: a s) (auto simp: io_simps)
    with f show ?thesis by blast
  qed
  ultimately show ?thesis using b on_rpc_store[OF v(1)] on_rpc_store[OF a] by simp
qed

text \<open>C14: whatever order the tasks complete in, a fetched window holds the consecutive heights from its
  start, at most eight and none above the end, each block linked to the one before it.\<close>

theorem window_is_chain:
  assumes "fetch_blocks src c i start till limit tasks verbosity w = (Inr bs, w')" "some_order (sc_order src)"
  shows "length bs = min limit (till - start + 1) \<and> length bs \<le> 8 \<and>
    (\<forall>k < length bs. as_u64 (field (bs ! k) ''height'') = Some (start + k) \<and> start + k \<le> till \<and>
       (\<exists>h. field (bs ! k) ''hash'' = JStr h) \<and>
       (0 < k \<longrightarrow> field (bs ! k) ''previousblockhash'' = field (bs ! (k - 1)) ''hash''))"
  using fetch_blocks_ok[OF assms] by auto

text \<open>A node with two blocks, the tasks of a group completing in reverse.\<close>

definition window_block :: "nat \<Rightarrow> string \<Rightarrow> string \<Rightarrow> json" where
  "window_block n h p = JObj [(''height'', jnat n), (''hash'', JStr h), (''previousblockhash'', JStr p)]"

definition window_rpc :: rpc where
  "window_rpc = (let hs = JArr [JStr (sample_hash (CHR ''7'')), JStr (sample_hash (CHR ''8''))];
       a = window_block 7 (sample_hash (CHR ''7'')) (sample_hash (CHR ''6'')); b = window_block 8 (sample_hash (CHR ''8'')) (sample_hash (CHR ''7''));
       env = (\<lambda>i v. JObj [(''id'', jnat i), (''error'', JNull), (''result'', v)]) in
     \<lparr>rc_wire = (\<lambda>n _. Some \<lparr>re_status = 200, re_chunks = [Some (show_nat n)]\<rparr>),
      rc_parse = (\<lambda>t. Some (if t = ''0'' then JArr [env 2 (JStr (sample_hash (CHR ''8''))), env 1 (JStr (sample_hash (CHR ''7'')))]
                          else if t = ''1'' then env 3 b else if t = ''2'' then env 4 a
                          else JArr [env 5 (JStr (sample_hash (CHR ''7''))), env 6 (JStr (sample_hash (CHR ''8'')))])),
      rc_policy = default_rpc_policy\<rparr>)"

definition reverse_source :: source where
  "reverse_source = sample_source\<lparr>sc_order := (\<lambda>n. rev [0..<n])\<rparr>"

theorem window_is_chain_witness:
  "\<exists>bs w. fetch_blocks reverse_source window_rpc 0 7 9 2 2 3 blank_world = (Inr bs, w) \<and> length bs = 2 \<and>
     as_u64 (field (bs ! 1) ''height'') = Some 8"
proof -
  let ?f = "fetch_blocks reverse_source window_rpc 0 7 9 2 2 3 blank_world"
  have "is_ok (fst ?f)" by code_simp
  then obtain bs w where f: "?f = (Inr bs, w)" by (metis is_ok_iff prod.collapse)
  have o: "some_order (sc_order reverse_source)" by (simp add: some_order_def reverse_source_def)
  from window_is_chain[OF f o] f show ?thesis by simp
qed

end
