(* ===== verification/Ingestion.thy ===== *)
theory Ingestion
  imports Block_Window Writer Failures
begin

text \<open>
  The ingestion loop of the Bitcoin node (\<open>dockerizd_bitcoin/src/bitcoin/ingestion.rs\<close>): commits,
  reconciliation with the primary endpoint after a reorganisation, and the loop over endpoints and
  windows. Every round may end in an error at any call; the readiness checks of the schema are
  parameters, and an operation reads the clock at the tick it starts at.
\<close>

record ingest_config =
  ic_start :: nat
  ic_end :: "nat option"
  ic_confirmations :: nat
  ic_depth :: nat
  ic_poll :: nat
  ic_verbosity :: nat

record node =
  nd_map :: map_lib
  nd_wh :: wh
  nd_source :: source
  nd_pool :: "rpc list"
  nd_ready :: "store \<Rightarrow> unit res"       \<comment> \<open>schema, identity and legacy history\<close>
  nd_clock :: "nat \<Rightarrow> nat \<Rightarrow> nat"        \<comment> \<open>wall clock readings of the operation at a tick\<close>
  nd_instant :: "nat \<Rightarrow> nat"            \<comment> \<open>monotonic clock, in seconds\<close>
  nd_config :: ingest_config
  nd_tuning :: pipeline
  nd_policy :: policy
  nd_once :: bool
  nd_repair :: "nat option"

abbreviation unforced :: "node \<Rightarrow> bool" where
  "unforced n \<equiv> nd_repair n = None"

text \<open>An operation on the warehouse that reads the clock.\<close>

definition timed :: "node \<Rightarrow> ((nat \<Rightarrow> nat) \<Rightarrow> (store, 'a) io) \<Rightarrow> (world, 'a) io" where
  "timed n f = at_tick (\<lambda>k. on_store (f (nd_clock n k)))"

definition node_state :: "(world, sync_state) io" where
  "node_state = on_store (io_get (current_state Bitcoin) io_return)"

definition next_height_of :: "ingest_config \<Rightarrow> sync_state \<Rightarrow> nat" where
  "next_height_of cfg st = (if st_initialized st = 1 then wrapping_add64 (st_last st) 1 else ic_start cfg)"

definition past_end :: "ingest_config \<Rightarrow> sync_state \<Rightarrow> bool" where
  "past_end cfg st \<longleftrightarrow> (\<exists>e \<in> set_option (ic_end cfg). st_initialized st = 1 \<and> e \<le> st_last st)"

definition record_at :: "node \<Rightarrow> nat \<Rightarrow> string option \<Rightarrow> stage \<Rightarrow> bool \<Rightarrow> (world, unit) io" where
  "record_at n h hash st counted =
     io_then (timed n (\<lambda>clk. record_failure (nd_wh n) clk h hash st (nd_policy n) counted)) (\<lambda>_. io_return ())"

section \<open>Commits\<close>

definition commit_block :: "node \<Rightarrow> sync_state \<Rightarrow> json \<Rightarrow> (string \<rightharpoonup> script_output) \<Rightarrow> nat \<Rightarrow> (world, sync_state) io" where
  "commit_block n st block found observed =
     io_need (as_u64 (field block ''height'')) ''missing block height'' (\<lambda>height.
     io_ensure (height = next_height_of (nd_config n) st) ''non-contiguous block ingestion''
     (io_ensure (st_initialized st = 1 \<longrightarrow> field block ''previousblockhash'' = JStr (st_hash st)) ''block parent changed''
     (io_need (as_str (field block ''hash'')) ''missing hash'' (\<lambda>hash.
      io_attempt (extract_block (sc_lib (nd_source n)) block (''rpc-'' @ hash) found) (\<lambda>ev.
      io_need (as_u64 (field block ''time'')) ''missing block timestamp'' (\<lambda>time.
      io_ensure (length (transactions ev) < u32_lim) ''out of range integral type conversion attempted''
      (timed n (\<lambda>clk. write_block (nd_map n) (nd_wh n) clk st
         \<lparr>lb_height = height, lb_hash = hash, lb_parent = text_of (field block ''previousblockhash''), lb_time = time,
          lb_commit = ''rpc-'' @ hash, lb_count = length (transactions ev)\<rparr> ev
         \<lparr>wc_observed = observed, wc_start = ic_start (nd_config n), wc_source = ''bitcoin_core_rpc'', wc_legacy = None\<rparr>))))))))"

section \<open>Reconciliation\<close>

text \<open>The highest of the given heights whose canonical hash the endpoint agrees with.\<close>

fun find_ancestor :: "rpc \<Rightarrow> nat \<Rightarrow> nat list \<Rightarrow> (world, nat option) io" where
  "find_ancestor c i [] = io_return None"
| "find_ancestor c i (h # hs) =
     io_get (\<lambda>w. map_option b_hash (canonical_at Bitcoin h (wd_store w))) (\<lambda>mine.
     io_then (on_rpc i (rpc_block_hash c h)) (\<lambda>theirs.
     if mine = Some theirs then io_return (Some h) else find_ancestor c i hs))"

definition wrapping_sub64 :: "nat \<Rightarrow> nat \<Rightarrow> nat" where
  "wrapping_sub64 a b = (if b \<le> a then a - b else a + u64_lim - b)"

definition reconcile_heights :: "nat \<Rightarrow> sync_state \<Rightarrow> nat \<Rightarrow> nat list" where
  "reconcile_heights depth st head = rev [max (saturating_sub (st_last st) depth) (st_start st)..<Suc (min (st_last st) head)]"

definition rolled_state :: "sync_state \<Rightarrow> nat \<Rightarrow> nat option \<Rightarrow> string \<Rightarrow> nat \<Rightarrow> nat \<Rightarrow> sync_state" where
  "rolled_state st ver ancestor hash head now = st\<lparr>st_revision := ver, st_initialized := (if ancestor = None then 0 else 1),
     st_last := (case ancestor of None \<Rightarrow> 0 | Some h \<Rightarrow> h), st_hash := hash, st_observed := head, st_published := now\<rparr>"

definition roll_back :: "node \<Rightarrow> rpc \<Rightarrow> nat \<Rightarrow> sync_state \<Rightarrow> nat \<Rightarrow> (world, sync_state) io" where
  "roll_back n c i st head =
     io_then (find_ancestor c i (reconcile_heights (ic_depth (nd_config n)) st head)) (\<lambda>ancestor.
     io_ensure (ancestor \<noteq> None \<or> wrapping_sub64 (st_last st) (st_start st) < ic_depth (nd_config n))
       ''reorg exceeds BITCOIN_REORG_MAX_DEPTH; operator recovery required''
     (io_then (timed n (\<lambda>clk. db_revision clk (st_revision st))) (\<lambda>ver.
      io_then (case ancestor of None \<Rightarrow> io_return [] | Some h \<Rightarrow> on_rpc i (rpc_block_hash c h)) (\<lambda>hash.
      at_tick (\<lambda>k. let new = rolled_state st ver ancestor hash head (nd_clock n k 0) in
        io_then (on_store (publish (nd_wh n) Bitcoin st new)) (\<lambda>_. io_return new))))))"

definition reconcile :: "node \<Rightarrow> rpc \<Rightarrow> nat \<Rightarrow> sync_state \<Rightarrow> nat \<Rightarrow> (world, sync_state) io" where
  "reconcile n c i st head =
     (if st_initialized st = 0 then io_return st
      else if st_last st \<le> head then
        io_then (on_rpc i (rpc_block_hash c (st_last st))) (\<lambda>h.
        if h = st_hash st then io_return st else roll_back n c i st head)
      else roll_back n c i st head)"

section \<open>One window\<close>

text \<open>How an attempt at a source ends: the run is over, it waits, its window was committed, or the next
  source is tried.\<close>

datatype source_end = Over | Waits | Committed | Next string

text \<open>What has to hold before a block is committed.\<close>

definition prepare_block :: "node \<Rightarrow> rpc \<Rightarrow> nat \<Rightarrow> sync_state \<Rightarrow> json \<Rightarrow> (world, string \<rightharpoonup> script_output) io" where
  "prepare_block n c i st block =
     io_ensure (st_initialized st = 1 \<longrightarrow> field block ''previousblockhash'' = JStr (st_hash st)) ''block parent changed''
     (io_then (resolve (nd_source n) c i (nd_tuning n) block) (\<lambda>found.
      io_need (as_u64 (field block ''height'')) ''missing block height'' (\<lambda>height.
      io_then (on_rpc i (rpc_block_hash c height)) (\<lambda>h.
      io_ensure (field block ''hash'' = JStr h) ''chain changed while resolving block''
      (io_attempt (extract_block (sc_lib (nd_source n)) block ''rpc-validation'' found) (\<lambda>_. io_return found))))))"

definition window_gate :: "node \<Rightarrow> json \<Rightarrow> (world, string option) io" where
  "window_gate n block =
     (if unforced n then
        io_need (as_u64 (field block ''height'')) ''missing block height'' (\<lambda>height.
        io_then (timed n (\<lambda>clk. gate (nd_wh n) clk height (nd_policy n) (nd_once n))) (\<lambda>reason.
        io_return (map_option (\<lambda>r. r @ '' at height='' @ show_nat height @ ''; explicit repair required'') reason)))
      else io_return None)"

definition commit_recorded :: "node \<Rightarrow> sync_state \<Rightarrow> json \<Rightarrow> (string \<rightharpoonup> script_output) \<Rightarrow> nat \<Rightarrow> (world, sync_state) io" where
  "commit_recorded n st block found head =
     io_then (io_try (commit_block n st block found head)) (\<lambda>r. case r of
       Inr new \<Rightarrow>
         io_then (timed n (\<lambda>clk. resolved (nd_wh n) clk (st_last new) (st_hash new) (unforced n))) (\<lambda>_. io_return new)
     | Inl e \<Rightarrow>
         io_need (as_u64 (field block ''height'')) ''missing block height'' (\<lambda>height.
         io_then (io_try (record_at n height (as_str (field block ''hash'')) Commit (unforced n))) (\<lambda>_. io_fail e)))"

fun ingest_blocks :: "node \<Rightarrow> rpc \<Rightarrow> nat \<Rightarrow> nat \<Rightarrow> json list \<Rightarrow> sync_state \<Rightarrow> (world, source_end) io" where
  "ingest_blocks n c i head [] st = io_return Committed"
| "ingest_blocks n c i head (block # bs) st =
     io_then (window_gate n block) (\<lambda>reason. case reason of
       Some reason \<Rightarrow> if nd_once n then io_fail (''ingestion blocked by '' @ reason) else io_return Waits
     | None \<Rightarrow>
         io_then (io_try (prepare_block n c i st block)) (\<lambda>r. case r of
           Inl e \<Rightarrow>
             io_need (as_u64 (field block ''height'')) ''missing failure height'' (\<lambda>height.
             io_then (record_at n height (as_str (field block ''hash'')) Resolve (unforced n)) (\<lambda>_. io_return (Next e)))
         | Inr found \<Rightarrow> io_then (commit_recorded n st block found head) (ingest_blocks n c i head bs)))"

section \<open>One source\<close>

definition check_source :: "node \<Rightarrow> rpc \<Rightarrow> nat \<Rightarrow> sync_state \<Rightarrow> (world, nat) io" where
  "check_source n c i st =
     io_then (on_rpc i (validate_chain c)) (\<lambda>_.
     io_then (on_rpc i (rpc_height c)) (\<lambda>head.
     io_ensure (head \<le> u32_max) ''RPC height out of range''
     (io_ensure (st_initialized st = 1 \<longrightarrow> st_last st \<le> head) ''RPC is behind the published checkpoint; refusing rollback''
     (if st_initialized st = 1 \<and> (0 < i \<or> \<not> unforced n) then
        io_then (on_rpc i (rpc_block_hash c (st_last st))) (\<lambda>h.
        io_ensure (h = st_hash st) ''fallback disagrees with the published checkpoint; refusing rollback'' (io_return head))
      else io_return head))))"

definition window_end :: "ingest_config \<Rightarrow> nat \<Rightarrow> nat option" where
  "window_end cfg head = map_option (\<lambda>h. case ic_end cfg of None \<Rightarrow> h | Some e \<Rightarrow> min e h)
     (confirmed_tip head (ic_confirmations cfg))"

definition reconcile_recorded :: "node \<Rightarrow> rpc \<Rightarrow> nat \<Rightarrow> sync_state \<Rightarrow> nat \<Rightarrow> (world, sync_state) io" where
  "reconcile_recorded n c i st head =
     io_then (io_try (reconcile n c i st head)) (\<lambda>r. case r of
       Inr new \<Rightarrow> io_return new
     | Inl e \<Rightarrow> io_then (io_try (record_at n (next_height_of (nd_config n) st) None Reconcile True)) (\<lambda>_. io_fail e))"

definition fetch_recorded :: "node \<Rightarrow> rpc \<Rightarrow> nat \<Rightarrow> sync_state \<Rightarrow> nat \<Rightarrow> (world, source_end) io" where
  "fetch_recorded n c i st head =
     (let next = next_height_of (nd_config n) st in
      io_ensure (\<forall>h \<in> set_option (nd_repair n). h = next) ''repair cannot rewind or skip the published checkpoint''
      (case window_end (nd_config n) head of
         None \<Rightarrow> io_return (if nd_once n then Over else Waits)
       | Some till \<Rightarrow>
           if till < next then io_return (if nd_once n then Over else Waits) else
           io_then (io_try (fetch_blocks (nd_source n) c i next till (pc_block_batch (nd_tuning n)) (pc_block_tasks (nd_tuning n))
              (ic_verbosity (nd_config n)))) (\<lambda>r. case r of
             Inl e \<Rightarrow> io_then (record_at n next None Fetch (unforced n)) (\<lambda>_. io_return (Next e))
           | Inr window \<Rightarrow> ingest_blocks n c i head window st)))"

definition try_source :: "node \<Rightarrow> nat \<Rightarrow> (world, source_end) io" where
  "try_source n i =
     io_then node_state (\<lambda>st.
     io_ensure (st_revision st = 0 \<or> st_start st = ic_start (nd_config n)) ''BITCOIN_START_BLOCK differs from persisted history''
     (if past_end (nd_config n) st then io_return Over else
      (let c = nd_pool n ! i in
       io_then (io_try (check_source n c i st)) (\<lambda>r. case r of
         Inl e \<Rightarrow> io_then (record_at n (next_height_of (nd_config n) st) None Source (unforced n)) (\<lambda>_. io_return (Next e))
       | Inr head \<Rightarrow>
           io_then (if i = 0 \<and> unforced n then reconcile_recorded n c i st head else io_return st) (\<lambda>st.
           fetch_recorded n c i st head)))))"

section \<open>The loop\<close>

record loop_state =
  lp_active :: nat
  lp_retry_at :: nat

definition source_order :: "nat \<Rightarrow> loop_state \<Rightarrow> nat \<Rightarrow> nat list" where
  "source_order endpoints lp now =
     (if 0 < lp_active lp \<and> now < lp_retry_at lp
      then lp_active lp # filter (\<lambda>i. i \<noteq> lp_active lp \<and> i \<noteq> 0) [0..<endpoints] @ [0]
      else [0..<endpoints])"

definition loop_after :: "node \<Rightarrow> loop_state \<Rightarrow> nat \<Rightarrow> nat \<Rightarrow> loop_state" where
  "loop_after n lp i now =
     \<lparr>lp_active = i, lp_retry_at = (if 0 < i \<and> (lp_active lp \<noteq> i \<or> lp_retry_at lp \<le> now)
        then now + pc_cooldown (nd_tuning n) else lp_retry_at lp)\<rparr>"

text \<open>The outcome of a round: \<open>None\<close> when the run is over.\<close>

fun try_sources :: "node \<Rightarrow> loop_state \<Rightarrow> nat list \<Rightarrow> string option \<Rightarrow> (world, loop_state option) io" where
  "try_sources n lp [] err =
     (if nd_once n then io_fail (case err of None \<Rightarrow> ''no usable Bitcoin RPC source'' | Some e \<Rightarrow> e) else io_return (Some lp))"
| "try_sources n lp (i # is) err =
     io_then (try_source n i) (\<lambda>r. case r of
       Over \<Rightarrow> io_return None
     | Waits \<Rightarrow> io_return (Some lp)
     | Committed \<Rightarrow> at_tick (\<lambda>k. io_return (Some (loop_after n lp i (nd_instant n k))))
     | Next e \<Rightarrow> try_sources n lp is (Some e))"

definition frontier_gate :: "node \<Rightarrow> sync_state \<Rightarrow> (world, string option) io" where
  "frontier_gate n st =
     (if next_height_of (nd_config n) st \<le> u32_max
      then timed n (\<lambda>clk. gate (nd_wh n) clk (next_height_of (nd_config n) st) (nd_policy n) (nd_once n))
      else io_return None)"

definition run_sources :: "node \<Rightarrow> loop_state \<Rightarrow> (world, loop_state option) io" where
  "run_sources n lp = at_tick (\<lambda>k. try_sources n lp (source_order (length (nd_pool n)) lp (nd_instant n k)) None)"

definition work_round :: "node \<Rightarrow> loop_state \<Rightarrow> (world, loop_state option) io" where
  "work_round n lp =
     (if unforced n then
        io_then node_state (\<lambda>st.
        if past_end (nd_config n) st then io_return None else
        io_then (frontier_gate n st) (\<lambda>reason. case reason of
          None \<Rightarrow> run_sources n lp
        | Some reason \<Rightarrow> if nd_once n then io_fail (''ingestion blocked by '' @ reason @ ''; inspect failures and explicitly repair the next block'')
          else io_return (Some lp)))
      else run_sources n lp)"

text \<open>At most \<open>k\<close> rounds; \<open>False\<close> when the loop would go on.\<close>

fun run_rounds :: "node \<Rightarrow> nat \<Rightarrow> loop_state \<Rightarrow> (world, bool) io" where
  "run_rounds n 0 lp = io_return False"
| "run_rounds n (Suc k) lp =
     io_then (work_round n lp) (\<lambda>r. case r of None \<Rightarrow> io_return True | Some lp' \<Rightarrow> run_rounds n k lp')"

definition validate_range :: "ingest_config \<Rightarrow> unit res" where
  "validate_range cfg =
     ensure (1 \<le> ic_confirmations cfg \<and> ic_confirmations cfg \<le> 1000 \<and> ic_verbosity cfg \<in> {2, 3} \<and> ic_start cfg \<le> u32_max \<and>
             (\<forall>e \<in> set_option (ic_end cfg). ic_start cfg \<le> e \<and> e \<le> u32_max)) ''invalid ingestion range'' (Inr ())"

definition run_owned :: "node \<Rightarrow> nat \<Rightarrow> (world, bool) io" where
  "run_owned n k =
     io_attempt (validate_policy (nd_policy n)) (\<lambda>_.
     io_attempt (validate_pipeline (nd_tuning n)) (\<lambda>_.
     io_attempt (validate_range (nd_config n)) (\<lambda>_.
     io_get (\<lambda>w. nd_ready n (wd_store w)) (\<lambda>ready. io_attempt ready (\<lambda>_.
     io_then (if unforced n then
        io_then (timed n (\<lambda>clk. recover_interrupted (nd_wh n) clk (nd_policy n))) (\<lambda>_.
        io_then node_state (\<lambda>st. at_tick (\<lambda>k. on_store (settle_published (nd_wh n) (\<lambda>j. nd_clock n (k + j)) st))))
      else io_return ()) (\<lambda>_.
     at_tick (\<lambda>t. run_rounds n k \<lparr>lp_active = 0, lp_retry_at = nd_instant n t\<rparr>)))))))"

section \<open>Steps that leave the warehouse alone\<close>

interpretation same_store: effect_order "\<lambda>w w'. wd_store w' = wd_store w"
  by unfold_locales auto

lemma leads_on_rpc: "leads (\<lambda>w w'. wd_store w' = wd_store w) (on_rpc i m)"
  by (auto simp: leads_def on_rpc_def io_zoom_def split: prod.split)

lemma leads_io_fold:
  "(\<And>x a. leads (\<lambda>w w'. wd_store w' = wd_store w) (f x a)) \<Longrightarrow> leads (\<lambda>w w'. wd_store w' = wd_store w) (io_fold f xs a)"
  by (induction xs arbitrary: a) (simp_all add: same_store.leads_return same_store.leads_then)

lemma leads_at_tick:
  "(\<And>k. leads (\<lambda>w w'. wd_store w' = wd_store w) (f k)) \<Longrightarrow> leads (\<lambda>w w'. wd_store w' = wd_store w) (at_tick f)"
  unfolding at_tick_def by (intro same_store.leads_get same_store.leads_then leads_modify) auto

lemma leads_resolve: "leads (\<lambda>w w'. wd_store w' = wd_store w) (resolve src c i cfg block)"
  unfolding resolve_def resolve_missing_def stored_chunk_def historical_batch_def Let_def
  by (intro same_store.leads_steps leads_io_fold leads_on_rpc) (auto split: prod.split intro!: same_store.leads_steps)

lemma leads_fetch: "leads (\<lambda>w w'. wd_store w' = wd_store w) (fetch_blocks src c i start till limit tasks v)"
  unfolding fetch_blocks_def fetch_one_def Let_def
  by (intro same_store.leads_steps leads_io_fold leads_on_rpc) (auto split: prod.split intro!: same_store.leads_steps leads_on_rpc)

lemma leads_prepare: "leads (\<lambda>w w'. wd_store w' = wd_store w) (prepare_block n c i st block)"
  unfolding prepare_block_def by (intro same_store.leads_steps leads_resolve leads_on_rpc)

lemma leads_check: "leads (\<lambda>w w'. wd_store w' = wd_store w) (check_source n c i st)"
  unfolding check_source_def by (intro same_store.leads_steps same_store.leads_if leads_on_rpc)

lemma leads_ancestor: "leads (\<lambda>w w'. wd_store w' = wd_store w) (find_ancestor c i hs)"
  by (induction hs) (auto intro!: same_store.leads_steps leads_on_rpc)

text \<open>The failure ledger leaves the chain alone.\<close>

definition same_chain :: "store \<Rightarrow> store \<Rightarrow> bool" where
  "same_chain s t \<longleftrightarrow> states t = states s \<and> blocks t = blocks s"

interpretation same_chain: effect_order same_chain
  by unfold_locales (auto simp: same_chain_def)

lemma leads_save: "leads same_chain (save w xs)"
proof -
  have "same_chain s (snd (save w xs s))" for s
    using save_appends[of w xs s "fst (save w xs s)" "snd (save w xs s)"] by (auto simp: same_chain_def)
  then show ?thesis by (simp add: leads_def)
qed

lemma leads_current: "leads same_chain (current h)"
  unfolding current_def by (intro same_chain.leads_steps)

lemmas ledger_steps = same_chain.leads_steps same_chain.leads_if leads_save leads_current

lemma leads_option: "leads R m \<Longrightarrow> (\<And>x. leads R (k x)) \<Longrightarrow> leads R (case v of None \<Rightarrow> m | Some x \<Rightarrow> k x)"
  by (cases v) simp_all

lemma leads_record: "leads same_chain (record_failure w clk h hash st p counted)"
  unfolding record_failure_def by (intro ledger_steps)

lemma leads_resolved: "leads same_chain (resolved w clk h hash counted)"
  unfolding resolved_def by (intro ledger_steps leads_option)

lemma leads_gate: "leads same_chain (gate w clk h p once)"
  unfolding gate_def by (intro ledger_steps leads_option)

lemma leads_recover: "leads same_chain (recover_interrupted w clk p)"
  unfolding recover_interrupted_def by (intro ledger_steps)

lemma leads_settle: "leads same_chain (settle_published w clk st)"
  unfolding settle_published_def by (intro ledger_steps) (auto intro!: ledger_steps leads_option leads_resolved split: prod.split)

section \<open>What the loop may do to the chain\<close>

definition sound :: "store \<Rightarrow> bool" where
  "sound s \<longleftrightarrow> chain_ok Bitcoin s \<and> settled Bitcoin s"

text \<open>A confirmed tip within the configured range.\<close>

definition confirmed :: "ingest_config \<Rightarrow> nat \<Rightarrow> nat \<Rightarrow> bool" where
  "confirmed cfg observed h \<longleftrightarrow> h + ic_confirmations cfg \<le> observed + 1 \<and> (\<forall>e \<in> set_option (ic_end cfg). h \<le> e)"

text \<open>The chain is left alone or extended by confirmed blocks: nothing below the tip changes.\<close>

definition extends :: "ingest_config \<Rightarrow> store \<Rightarrow> store \<Rightarrow> bool" where
  "extends cfg s t \<longleftrightarrow> (let c = current_state Bitcoin s; d = current_state Bitcoin t in
     (d = c \<or> st_initialized d = 1 \<and> confirmed cfg (st_observed d) (st_last d) \<and>
        (st_initialized c = 1 \<longrightarrow> st_last c < st_last d \<and> st_start d = st_start c)) \<and>
     (st_initialized c = 1 \<longrightarrow> (\<forall>h \<le> st_last c. canonical_at Bitcoin h t = canonical_at Bitcoin h s)))"

lemma extends_refl: "extends cfg s s"
  by (simp add: extends_def)

lemma extends_trans: "extends cfg s t \<Longrightarrow> extends cfg t u \<Longrightarrow> extends cfg s u"
  unfolding extends_def Let_def by (elim conjE disjE; intro conjI impI allI; (simp; fail)?) auto

lemma same_chain_views:
  assumes "same_chain s t"
  shows "current_state Bitcoin t = current_state Bitcoin s" "canonical_at Bitcoin h t = canonical_at Bitcoin h s"
    "chain_ok Bitcoin t = chain_ok Bitcoin s" "settled Bitcoin t = settled Bitcoin s"
proof -
  have r: "sync_row Bitcoin t = sync_row Bitcoin s" using assms by (simp add: sync_row_def same_chain_def)
  then show c: "current_state Bitcoin t = current_state Bitcoin s" by (simp add: current_state_def)
  have q: "rows_at Bitcoin h v t = rows_at Bitcoin h v s" for h v using assms by (simp add: rows_at_def same_chain_def)
  have k: "canonical_at Bitcoin h t = canonical_at Bitcoin h s" for h
    unfolding canonical_at_def r q ..
  then show "canonical_at Bitcoin h t = canonical_at Bitcoin h s" .
  show "chain_ok Bitcoin t = chain_ok Bitcoin s" by (simp add: chain_ok_iff c k)
  show "settled Bitcoin t = settled Bitcoin s" using assms by (simp add: settled_def c same_chain_def)
qed

lemma same_chain_extends: "same_chain s t \<Longrightarrow> extends cfg s t"
  by (simp add: extends_def same_chain_views)

text \<open>Every step so far, and the checkpoint now.\<close>

definition good :: "ingest_config \<Rightarrow> store \<Rightarrow> sync_state \<Rightarrow> store \<Rightarrow> bool" where
  "good cfg s0 st s \<longleftrightarrow> sound s \<and> extends cfg s0 s \<and> current_state Bitcoin s = st"

lemma good_same: "same_chain s t \<Longrightarrow> good cfg s0 st s \<Longrightarrow> good cfg s0 st t"
  using same_chain_extends[of s t cfg] extends_trans[of cfg s0 s t] by (auto simp: good_def sound_def same_chain_views)

section \<open>Outcomes over the warehouse\<close>

lemma runs_store:
  assumes "leads (\<lambda>w w'. wd_store w' = wd_store w) m"
  shows "runs (\<lambda>w. p (wd_store w)) m (\<lambda>_ w. p (wd_store w)) (\<lambda>w. p (wd_store w))"
proof (rule runsI)
  fix w x w'
  assume "p (wd_store w)" "m w = (Inr x, w')"
  then show "p (wd_store w')" using leadsD[OF assms] by simp
next
  fix w e w'
  assume "p (wd_store w)" "m w = (Inl e, w')"
  then show "p (wd_store w')" using leadsD[OF assms] by simp
qed

lemma runs_on_store:
  assumes "runs p m q e"
  shows "runs (\<lambda>w. p (wd_store w)) (on_store m) (\<lambda>x w. q x (wd_store w)) (\<lambda>w. e (wd_store w))"
proof (rule runsI)
  fix w x w'
  assume p: "p (wd_store w)" and m: "on_store m w = (Inr x, w')"
  from m obtain t where t: "m (wd_store w) = (Inr x, t)" "w' = w\<lparr>wd_store := t\<rparr>" by (auto simp: on_store_def io_simps)
  from runsD(1)[OF assms p t(1)] t(2) show "q x (wd_store w')" by simp
next
  fix w err w'
  assume p: "p (wd_store w)" and m: "on_store m w = (Inl err, w')"
  from m obtain t where t: "m (wd_store w) = (Inl err, t)" "w' = w\<lparr>wd_store := t\<rparr>" by (auto simp: on_store_def io_simps)
  from runsD(2)[OF assms p t(1)] t(2) show "e (wd_store w')" by simp
qed

lemma runs_at_tick:
  assumes "\<And>k. runs (\<lambda>w. p (wd_store w)) (f k) Q E"
  shows "runs (\<lambda>w. p (wd_store w)) (at_tick f) Q E"
  unfolding at_tick_def
proof (intro runs_get runs_then)
  fix k
  show "runs (\<lambda>w. p (wd_store w) \<and> wd_tick w = k) (io_modify (\<lambda>w. w\<lparr>wd_tick := k + 1\<rparr>)) (\<lambda>_ w. p (wd_store w)) E"
    by (rule runs_modify) simp
qed (rule assms)

lemma runs_timed:
  "(\<And>clk. runs p (f clk) q e) \<Longrightarrow> runs (\<lambda>w. p (wd_store w)) (timed n f) (\<lambda>x w. q x (wd_store w)) (\<lambda>w. e (wd_store w))"
  unfolding timed_def by (intro runs_at_tick runs_on_store)

lemma runs_good:
  assumes "leads same_chain m"
  shows "runs (good cfg s0 st) m (\<lambda>_. good cfg s0 st) (good cfg s0 st)"
proof (rule runsI)
  fix s x t
  assume "good cfg s0 st s" "m s = (Inr x, t)"
  then show "good cfg s0 st t" using leadsD[OF assms] good_same by blast
next
  fix s e t
  assume "good cfg s0 st s" "m s = (Inl e, t)"
  then show "good cfg s0 st t" using leadsD[OF assms] good_same by blast
qed

text \<open>The same at the world.\<close>

abbreviation at_good :: "ingest_config \<Rightarrow> store \<Rightarrow> sync_state \<Rightarrow> world \<Rightarrow> bool" where
  "at_good cfg s0 st w \<equiv> good cfg s0 st (wd_store w)"

lemma runs_ledger:
  "(\<And>clk. leads same_chain (f clk)) \<Longrightarrow> runs (at_good cfg s0 st) (timed n f) (\<lambda>_. at_good cfg s0 st) (at_good cfg s0 st)"
  by (rule runs_timed) (rule runs_good)

lemma runs_record: "runs (at_good cfg s0 st) (record_at n h hash stg counted) (\<lambda>_. at_good cfg s0 st) (at_good cfg s0 st)"
  unfolding record_at_def by (rule runs_then[OF runs_ledger[OF leads_record]]) (rule runs_return)

section \<open>Writing a block, at every outcome\<close>

text \<open>A good state, whatever its checkpoint.\<close>

definition fine :: "ingest_config \<Rightarrow> store \<Rightarrow> store \<Rightarrow> bool" where
  "fine cfg s0 s \<longleftrightarrow> sound s \<and> extends cfg s0 s"

lemma good_fine: "good cfg s0 st s \<Longrightarrow> fine cfg s0 s"
  by (simp add: good_def fine_def)

abbreviation at_fine :: "ingest_config \<Rightarrow> store \<Rightarrow> world \<Rightarrow> bool" where
  "at_fine cfg s0 w \<equiv> fine cfg s0 (wd_store w)"

lemma runs_write:
  assumes "confirmed cfg (wc_observed wc) (lb_height lb)"
  shows "runs (good cfg s0 st) (write_block lib w clk st lb ev wc) (good cfg s0) (good cfg s0 st)"
proof (rule runsI)
  fix s new t
  assume g: "good cfg s0 st s" and run: "write_block lib w clk st lb ev wc s = (Inr new, t)"
  from g have inv: "chain_ok Bitcoin s" "settled Bitcoin s" and c: "current_state Bitcoin s = st" by (simp_all add: good_def sound_def)
  have k: "chain_ok Bitcoin t \<and> settled Bitcoin t \<and> current_state Bitcoin t = new" by (rule write_block_keeps_chain[OF run inv])
  obtain h: "next_height st wc (lb_height lb)" and n: "\<exists>ver. new = written_state clk st lb wc ver"
    by (rule write_block_staged[OF run]) (rule that)
  have "st_initialized new = 1" "st_last new = lb_height lb" "st_observed new = wc_observed wc"
    "st_initialized st = 1 \<longrightarrow> st_start new = st_start st" using n by (auto simp: written_state_def)
  moreover have "st_initialized st = 1 \<longrightarrow> st_last st < lb_height lb" using next_height_above[OF h] by simp
  moreover have "st_initialized st = 1 \<longrightarrow> (\<forall>h \<le> st_last st. canonical_at Bitcoin h t = canonical_at Bitcoin h s)"
    using write_block_keeps_blocks[OF run inv] by blast
  ultimately have "extends cfg s t" using assms k by (simp add: extends_def Let_def c)
  then show "good cfg s0 new t" using g k extends_trans[of cfg s0 s t] by (simp add: good_def sound_def)
next
  fix s e t
  assume g: "good cfg s0 st s" and run: "write_block lib w clk st lb ev wc s = (Inl e, t)"
  then have c: "current_state Bitcoin s = st" by (simp add: good_def)
  have a: "ahead (current_state Bitcoin s) s t" unfolding c by (rule write_block_error[OF run])
  have "extends cfg s t" using ahead_current[OF a] ahead_canonical[OF a] by (simp add: extends_def)
  moreover have "sound t" using g ahead_chain[OF a] write_block_error_settled[OF run _ c] by (simp add: good_def sound_def)
  ultimately show "good cfg s0 st t" using g ahead_current[OF a] extends_trans[of cfg s0 s t] by (simp add: good_def)
qed

definition confirmed_block :: "ingest_config \<Rightarrow> nat \<Rightarrow> json \<Rightarrow> bool" where
  "confirmed_block cfg head block \<longleftrightarrow> (\<forall>h. as_u64 (field block ''height'') = Some h \<longrightarrow> confirmed cfg head h)"

lemma runs_commit:
  assumes "confirmed_block (nd_config n) head block"
  shows "runs (at_good (nd_config n) s0 st) (commit_block n st block found head) (at_good (nd_config n) s0) (at_good (nd_config n) s0 st)"
  unfolding commit_block_def
  using assms by (intro runs_need runs_ensure runs_attempt runs_timed runs_write) (auto simp: confirmed_block_def)

lemma runs_commit_recorded:
  assumes "confirmed_block (nd_config n) head block"
  shows "runs (at_good (nd_config n) s0 st) (commit_recorded n st block found head) (at_good (nd_config n) s0) (at_fine (nd_config n) s0)"
  unfolding commit_recorded_def
proof (rule runs_then[OF runs_try[OF runs_commit[OF assms]]])
  fix r
  show "runs (\<lambda>w. case r of Inl e \<Rightarrow> at_good (nd_config n) s0 st w | Inr x \<Rightarrow> at_good (nd_config n) s0 x w)
    (case r of Inl e \<Rightarrow> io_need (as_u64 (field block ''height'')) ''missing block height'' (\<lambda>height.
         io_then (io_try (record_at n height (as_str (field block ''hash'')) Commit (unforced n))) (\<lambda>_. io_fail e))
      | Inr new \<Rightarrow> io_then (timed n (\<lambda>clk. resolved (nd_wh n) clk (st_last new) (st_hash new) (unforced n))) (\<lambda>_. io_return new))
    (at_good (nd_config n) s0) (at_fine (nd_config n) s0)"
  proof (cases r)
    case (Inl e)
    have t: "runs (at_good (nd_config n) s0 st) (io_try (record_at n h x Commit (unforced n))) (\<lambda>_. at_good (nd_config n) s0 st) E" for h x E
      by (rule runs_post[OF runs_try[OF runs_record]]) (simp split: sum.splits)
    show ?thesis unfolding Inl sum.case by (intro runs_need runs_then[OF t] runs_fail) (auto intro: good_fine)
  next
    case (Inr new)
    have t: "runs (at_good (nd_config n) s0 new) (timed n (\<lambda>clk. resolved (nd_wh n) clk (st_last new) (st_hash new) (unforced n)))
      (\<lambda>_. at_good (nd_config n) s0 new) (at_fine (nd_config n) s0)"
      by (rule runs_err[OF runs_ledger[OF leads_resolved] good_fine])
    show ?thesis unfolding Inr sum.case by (intro runs_then[OF t] runs_return)
  qed
qed

lemma runs_window_gate:
  "runs (at_good cfg s0 st) (window_gate n block) (\<lambda>_. at_good cfg s0 st) (at_fine cfg s0)"
  unfolding window_gate_def
  by (intro runs_if runs_need runs_return runs_then[OF runs_err[OF runs_ledger[OF leads_gate] good_fine]]) (auto intro: good_fine)

lemma runs_ingest:
  "\<forall>b \<in> set bs. confirmed_block (nd_config n) head b \<Longrightarrow>
   runs (at_good (nd_config n) s0 st) (ingest_blocks n c i head bs st) (\<lambda>_. at_fine (nd_config n) s0) (at_fine (nd_config n) s0)"
proof (induction bs arbitrary: st)
  case Nil
  show ?case by (auto intro!: runs_return good_fine)
next
  case (Cons block bs)
  have p: "runs (at_good (nd_config n) s0 st) (io_try (prepare_block n c i st block)) (\<lambda>_. at_good (nd_config n) s0 st) E" for E
    by (rule runs_post[OF runs_try[OF runs_store[OF leads_prepare]]]) (simp split: sum.splits)
  have rec: "runs (at_good (nd_config n) s0 st) (record_at n h x g b) (\<lambda>_. at_good (nd_config n) s0 st) (at_fine (nd_config n) s0)" for h x g b
    by (rule runs_err[OF runs_record good_fine])
  have m: "runs (at_good (nd_config n) s0 st) (io_then (commit_recorded n st block found head) (ingest_blocks n c i head bs))
      (\<lambda>_. at_fine (nd_config n) s0) (at_fine (nd_config n) s0)" for found
    using Cons.prems by (intro runs_then[OF runs_commit_recorded Cons.IH]) auto
  show ?case
    unfolding ingest_blocks.simps
    by (intro runs_then[OF runs_window_gate] runs_option runs_then[OF p] runs_sum m runs_need runs_then[OF rec] runs_return
        runs_if runs_fail) (auto intro: good_fine)
qed

section \<open>One source, at every outcome\<close>

lemma window_end_confirmed:
  assumes "window_end cfg head = Some till" "h \<le> till"
  shows "confirmed cfg head h"
  using assms by (auto simp: window_end_def confirmed_tip_def confirmed_def bind_eq_Some_conv ok_simps split: option.splits)

lemma runs_fetch:
  assumes "some_order (sc_order src)"
  shows "runs (at_good cfg s0 st) (fetch_blocks src c i start till limit tasks v)
    (\<lambda>bs w. at_good cfg s0 st w \<and> (\<forall>b \<in> set bs. \<forall>h. as_u64 (field b ''height'') = Some h \<longrightarrow> h \<le> till)) (at_good cfg s0 st)"
proof (rule runsI)
  fix w bs w'
  assume g: "at_good cfg s0 st w" and run: "fetch_blocks src c i start till limit tasks v w = (Inr bs, w')"
  note f = fetch_blocks_ok[OF run assms]
  have "h \<le> till" if "b \<in> set bs" "as_u64 (field b ''height'') = Some h" for b h
  proof -
    from that(1) obtain k where k: "k < length bs" "b = bs ! k" by (auto simp: in_set_conv_nth)
    with f that(2) have "h = start + k" by fastforce
    then show ?thesis using f k(1) by auto
  qed
  with f g show "at_good cfg s0 st w' \<and> (\<forall>b \<in> set bs. \<forall>h. as_u64 (field b ''height'') = Some h \<longrightarrow> h \<le> till)" by auto
next
  fix w e w'
  assume "at_good cfg s0 st w" "fetch_blocks src c i start till limit tasks v w = (Inl e, w')"
  then show "at_good cfg s0 st w'" using leadsD[OF leads_fetch] by metis
qed

lemma runs_fetch_recorded:
  assumes "some_order (sc_order (nd_source n))"
  shows "runs (at_good (nd_config n) s0 st) (fetch_recorded n c i st head) (\<lambda>_. at_fine (nd_config n) s0) (at_fine (nd_config n) s0)"
proof -
  have rec: "runs (at_good (nd_config n) s0 st) (record_at n h x g b) (\<lambda>_. at_good (nd_config n) s0 st) (at_fine (nd_config n) s0)" for h x g b
    by (rule runs_err[OF runs_record good_fine])
  have f: "runs (at_good (nd_config n) s0 st)
      (io_then (io_try (fetch_blocks (nd_source n) c i next till (pc_block_batch (nd_tuning n)) (pc_block_tasks (nd_tuning n))
              (ic_verbosity (nd_config n)))) (\<lambda>r. case r of
             Inl e \<Rightarrow> io_then (record_at n next None Fetch (unforced n)) (\<lambda>_. io_return (Next e))
           | Inr window \<Rightarrow> ingest_blocks n c i head window st))
      (\<lambda>_. at_fine (nd_config n) s0) (at_fine (nd_config n) s0)"
    if "window_end (nd_config n) head = Some till" for till "next"
  proof (rule runs_then[OF runs_try[OF runs_fetch[OF assms]]])
    fix r :: "json list res"
    show "runs (\<lambda>w. case r of Inl e \<Rightarrow> at_good (nd_config n) s0 st w
        | Inr bs \<Rightarrow> at_good (nd_config n) s0 st w \<and> (\<forall>b \<in> set bs. \<forall>h. as_u64 (field b ''height'') = Some h \<longrightarrow> h \<le> till))
      (case r of Inl e \<Rightarrow> io_then (record_at n next None Fetch (unforced n)) (\<lambda>_. io_return (Next e))
        | Inr window \<Rightarrow> ingest_blocks n c i head window st) (\<lambda>_. at_fine (nd_config n) s0) (at_fine (nd_config n) s0)"
    proof (cases r)
      case (Inl e)
      show ?thesis unfolding Inl sum.case by (intro runs_then[OF rec] runs_return) (rule good_fine)
    next
      case (Inr bs)
      show ?thesis unfolding Inr sum.case
      proof (rule runs_pure)
        assume "\<forall>b \<in> set bs. \<forall>h. as_u64 (field b ''height'') = Some h \<longrightarrow> h \<le> till"
        then have "\<forall>b \<in> set bs. confirmed_block (nd_config n) head b"
          using window_end_confirmed[OF that] by (auto simp: confirmed_block_def)
        then show "runs (at_good (nd_config n) s0 st) (ingest_blocks n c i head bs st) (\<lambda>_. at_fine (nd_config n) s0) (at_fine (nd_config n) s0)"
          by (rule runs_ingest)
      qed
    qed
  qed
  show ?thesis
    unfolding fetch_recorded_def Let_def
    by (intro runs_ensure runs_option runs_if f runs_return) (auto intro: good_fine)
qed

section \<open>Rollbacks\<close>

text \<open>A rollback keeps the blocks up to a new tip at most \<open>ic_depth\<close> below the old one, or drops a
  chain shorter than that altogether.\<close>

definition rolled :: "ingest_config \<Rightarrow> store \<Rightarrow> store \<Rightarrow> bool" where
  "rolled cfg s t \<longleftrightarrow> (let c = current_state Bitcoin s; d = current_state Bitcoin t in t = s \<or>
     st_initialized c = 1 \<and>
     (if st_initialized d = 1
      then st_start c \<le> st_last d \<and> st_last d \<le> st_last c \<and> st_last c \<le> st_last d + ic_depth cfg \<and> st_start d = st_start c \<and>
        (\<forall>h b. h \<le> st_last d \<longrightarrow> canonical_at Bitcoin h s = Some b \<longrightarrow> canonical_at Bitcoin h t = Some b)
      else wrapping_sub64 (st_last c) (st_start c) < ic_depth cfg))"

lemma runs_unmoved:
  assumes "leads (\<lambda>w w'. wd_store w' = wd_store w) m" "\<And>x w w'. m w = (Inr x, w') \<Longrightarrow> R x (wd_store w)"
  shows "runs (\<lambda>w. wd_store w = s0) m (\<lambda>x w. wd_store w = s0 \<and> R x s0) (\<lambda>w. wd_store w = s0)"
proof (rule runsI)
  fix w x w'
  assume s: "wd_store w = s0" and m: "m w = (Inr x, w')"
  with leadsD[OF assms(1) m] assms(2)[OF m] show "wd_store w' = s0 \<and> R x s0" by simp
next
  fix w e w'
  assume "wd_store w = s0" "m w = (Inl e, w')"
  with leadsD[OF assms(1)] show "wd_store w' = s0" by metis
qed

lemma find_ancestor_in:
  assumes "find_ancestor c i hs w = (Inr (Some h), w')"
  shows "h \<in> set hs \<and> canonical_at Bitcoin h (wd_store w) \<noteq> None"
  using assms
proof (induction hs arbitrary: w)
  case (Cons k hs)
  then obtain theirs w1 where r: "on_rpc i (rpc_block_hash c k) w = (Inr theirs, w1)"
    "(if map_option b_hash (canonical_at Bitcoin k (wd_store w)) = Some theirs then io_return (Some k) else find_ancestor c i hs) w1 = (Inr (Some h), w')"
    by (auto simp: io_simps)
  with Cons.IH[of w1] on_rpc_store[OF r(1)] show ?case by (auto simp: io_simps split: if_splits)
qed (simp add: io_simps)

lemma db_revision_ok: "db_revision clk prev s = (Inr ver, t) \<Longrightarrow> t = s \<and> rows_below Bitcoin ver s"
  unfolding db_revision_def using next_revision_above[of Bitcoin "max prev (saturating_mul64 (clk 0) 1000)" s ver t]
  by (auto simp: rows_below_def)

lemma next_revision_store: "next_revision net prev s = (r, t) \<Longrightarrow> t = s"
  by (auto simp: next_revision_def io_get_def io_need_def io_return_def io_fail_def split: option.splits)

lemma leads_revision: "leads (\<lambda>w w'. wd_store w' = wd_store w) (timed n (\<lambda>clk. db_revision clk prev))"
  unfolding timed_def
  by (intro leads_at_tick) (auto simp: leads_def on_store_def io_zoom_def db_revision_def split: prod.split dest: next_revision_store)

lemma revision_ok: "timed n (\<lambda>clk. db_revision clk prev) w = (Inr ver, w') \<Longrightarrow> rows_below Bitcoin ver (wd_store w)"
  by (auto simp: timed_def at_tick_def on_store_def io_simps dest: db_revision_ok)

lemma publish_initialized: "publish w net p n s = (Inr x, t) \<Longrightarrow> st_initialized p \<le> 1"
  by (auto simp: publish_def io_simps snapshot_of_def ok_simps)

text \<open>Publishing the state a rollback found.\<close>

lemma publish_rolled:
  assumes run: "publish w Bitcoin st (rolled_state st ver ancestor hash head now) s = (Inr x, t)"
    and sound: "sound s" and some: "st_initialized st \<noteq> 0" and below: "rows_below Bitcoin ver s"
    and found: "\<And>h. ancestor = Some h \<Longrightarrow> h \<in> set (reconcile_heights (ic_depth cfg) st head)"
    and depth: "ancestor \<noteq> None \<or> wrapping_sub64 (st_last st) (st_start st) < ic_depth cfg"
  shows "sound t \<and> rolled cfg s t \<and> current_state Bitcoin t = rolled_state st ver ancestor hash head now"
proof -
  let ?n = "rolled_state st ver ancestor hash head now"
  have b: "rows_below Bitcoin (st_revision ?n) s" using below by (simp add: rolled_state_def)
  have inv: "chain_ok Bitcoin s" "settled Bitcoin s" using sound by (simp_all add: sound_def)
  have c: "current_state Bitcoin s = st" by (rule publish_ok[OF run])
  have st: "st_initialized st = 1" using publish_initialized[OF run] some by simp
  have t: "chain_ok Bitcoin t \<and> settled Bitcoin t \<and> current_state Bitcoin t = ?n"
    using st by (intro publish_keeps_chain[OF run inv b]) simp
  have keep: "canonical_at Bitcoin k t = Some b" if "st_initialized ?n = 1" "canonical_at Bitcoin k s = Some b" "k \<le> st_last ?n" for k b
    by (rule publish_keeps_block[OF run inv(2) b st that])
  have "rolled cfg s t"
  proof (cases ancestor)
    case None
    with depth st t show ?thesis by (simp add: rolled_def c rolled_state_def)
  next
    case (Some h)
    have h: "max (saturating_sub (st_last st) (ic_depth cfg)) (st_start st) \<le> h" "h \<le> st_last st"
      using found[OF Some] by (auto simp: reconcile_heights_def simp del: upt_Suc)
    then have "st_last st \<le> h + ic_depth cfg" "st_start st \<le> h" by (auto simp: saturating_sub_nat)
    moreover have "st_initialized ?n = 1" "st_last ?n = h" "st_start ?n = st_start st" using Some by (simp_all add: rolled_state_def)
    ultimately show ?thesis using h(2) st t keep by (simp add: rolled_def c)
  qed
  with t show ?thesis by (simp add: sound_def)
qed
text \<open>What an operation leaves of a sound store \<open>s0\<close>: on success a rollback of it, with the new checkpoint.\<close>

definition rewound :: "ingest_config \<Rightarrow> store \<Rightarrow> sync_state \<Rightarrow> store \<Rightarrow> bool" where
  "rewound cfg s0 st s \<longleftrightarrow> sound s \<and> rolled cfg s0 s \<and> current_state Bitcoin s = st"

abbreviation at_chain :: "world \<Rightarrow> bool" where
  "at_chain w \<equiv> chain_ok Bitcoin (wd_store w)"

lemma runs_roll_back:
  assumes "sound s0" "current_state Bitcoin s0 = st" "st_initialized st \<noteq> 0"
  shows "runs (\<lambda>w. wd_store w = s0) (roll_back n c i st head) (\<lambda>new w. rewound (nd_config n) s0 new (wd_store w)) at_chain"
proof -
  let ?cfg = "nd_config n" and ?hs = "reconcile_heights (ic_depth (nd_config n)) st head"
  have chain: "chain_ok Bitcoin s0" using assms(1) by (simp add: sound_def)
  have a: "runs (\<lambda>w. wd_store w = s0) (find_ancestor c i ?hs) (\<lambda>v w. wd_store w = s0 \<and> (\<forall>h. v = Some h \<longrightarrow> h \<in> set ?hs)) (\<lambda>w. wd_store w = s0)"
    using find_ancestor_in by (intro runs_unmoved[OF leads_ancestor]) blast
  have r: "runs (\<lambda>w. wd_store w = s0) (timed n (\<lambda>clk. db_revision clk (st_revision st)))
      (\<lambda>ver w. wd_store w = s0 \<and> rows_below Bitcoin ver s0) (\<lambda>w. wd_store w = s0)"
    using revision_ok by (intro runs_unmoved[OF leads_revision]) blast
  have h: "runs (\<lambda>w. wd_store w = s0) (case v of None \<Rightarrow> io_return [] | Some h \<Rightarrow> on_rpc i (rpc_block_hash c h)) (\<lambda>_ w. wd_store w = s0) at_chain" for v
    using chain by (intro runs_weaken[OF runs_store[where p = "\<lambda>s. s = s0"]])
      (auto intro: leads_on_rpc same_store.leads_return split: option.split)
  have p: "runs (\<lambda>w. wd_store w = s0) (at_tick (\<lambda>k. let new = rolled_state st ver v hash head (nd_clock n k 0) in
        io_then (on_store (publish (nd_wh n) Bitcoin st new)) (\<lambda>_. io_return new)))
      (\<lambda>new w. rewound ?cfg s0 new (wd_store w)) at_chain"
    if "\<forall>h. v = Some h \<longrightarrow> h \<in> set ?hs" "v \<noteq> None \<or> wrapping_sub64 (st_last st) (st_start st) < ic_depth ?cfg"
      "rows_below Bitcoin ver s0" for v ver hash
  proof (rule runs_at_tick[where p = "\<lambda>s. s = s0"])
    fix k
    let ?new = "rolled_state st ver v hash head (nd_clock n k 0)"
    have "runs (\<lambda>s. s = s0) (publish (nd_wh n) Bitcoin st ?new) (\<lambda>_ s. rewound ?cfg s0 ?new s) (chain_ok Bitcoin)"
    proof (rule runsI)
      fix s x t
      assume "s = s0" "publish (nd_wh n) Bitcoin st ?new s = (Inr x, t)"
      with publish_rolled[of "nd_wh n" st ver v hash head "nd_clock n k 0" s0 x t ?cfg] assms that
      show "rewound ?cfg s0 ?new t" by (simp add: rewound_def)
    next
      fix s e t
      assume "s = s0" "publish (nd_wh n) Bitcoin st ?new s = (Inl e, t)"
      with publish_error[of "nd_wh n" Bitcoin st ?new s0 e t] chain show "chain_ok Bitcoin t"
        using ahead_chain[of Bitcoin s0 t] by (simp add: assms(2))
    qed
    then have "runs (\<lambda>w. wd_store w = s0) (on_store (publish (nd_wh n) Bitcoin st ?new)) (\<lambda>_ w. rewound ?cfg s0 ?new (wd_store w)) at_chain"
      by (rule runs_on_store)
    then show "runs (\<lambda>w. wd_store w = s0) (let new = ?new in io_then (on_store (publish (nd_wh n) Bitcoin st new)) (\<lambda>_. io_return new))
        (\<lambda>new w. rewound ?cfg s0 new (wd_store w)) at_chain"
      unfolding Let_def by (rule runs_then) (rule runs_return)
  qed
  show ?thesis
    unfolding roll_back_def
    apply (rule runs_then[OF runs_err[OF a]])
    subgoal using chain by simp
    apply (rule runs_pure, rule runs_ensure)
    subgoal
      apply (rule runs_then[OF runs_err[OF r]])
      subgoal using chain by simp
      apply (rule runs_pure)
      apply (rule runs_then[OF h])
      apply (rule p)
      by assumption+
    using chain by simp
qed

lemma rewound_refl: "sound s \<Longrightarrow> current_state Bitcoin s = st \<Longrightarrow> rewound cfg s st s"
  by (simp add: rewound_def rolled_def Let_def)

lemma runs_reconcile:
  assumes "sound s0" "current_state Bitcoin s0 = st"
  shows "runs (\<lambda>w. wd_store w = s0) (reconcile n c i st head) (\<lambda>new w. rewound (nd_config n) s0 new (wd_store w)) at_chain"
proof -
  have r: "runs (\<lambda>w. wd_store w = s0) (io_return st) (\<lambda>new w. rewound (nd_config n) s0 new (wd_store w)) E" for E
    using rewound_refl[OF assms(1,2)] by (auto intro: runs_return)
  have h: "runs (\<lambda>w. wd_store w = s0) (on_rpc i (rpc_block_hash c k)) (\<lambda>_ w. wd_store w = s0) at_chain" for k
    using assms(1) by (intro runs_err[OF runs_store[where p = "\<lambda>s. s = s0"]] leads_on_rpc) (auto simp: sound_def)
  show ?thesis
    unfolding reconcile_def using assms by (intro runs_if r runs_then[OF h] runs_roll_back) auto
qed
section \<open>The loop, at every outcome\<close>

text \<open>A sound store, and what an attempt makes of it: a rollback within the depth, of the primary only,
  and confirmed blocks after it.\<close>

definition attempted :: "ingest_config \<Rightarrow> bool \<Rightarrow> store \<Rightarrow> store \<Rightarrow> bool" where
  "attempted cfg primary s0 s \<longleftrightarrow> (\<exists>u. rolled cfg s0 u \<and> (u = s0 \<or> primary) \<and> fine cfg u s)"

definition kept :: "ingest_config \<Rightarrow> bool \<Rightarrow> store \<Rightarrow> store \<Rightarrow> bool" where
  "kept cfg primary s0 s \<longleftrightarrow> chain_ok Bitcoin s \<and> (primary \<or> fine cfg s0 s)"

lemma good_refl: "sound s \<Longrightarrow> current_state Bitcoin s = st \<Longrightarrow> good cfg s st s"
  by (simp add: good_def extends_refl)

lemma rewound_good: "rewound cfg s0 st u \<Longrightarrow> good cfg u st u"
  by (simp add: rewound_def good_refl)

lemma fine_chain: "fine cfg s0 s \<Longrightarrow> chain_ok Bitcoin s"
  by (simp add: fine_def sound_def)

lemma fine_kept: "fine cfg s0 s \<Longrightarrow> kept cfg b s0 s"
  by (simp add: kept_def fine_chain)

lemma fine_attempted: "fine cfg s0 s \<Longrightarrow> attempted cfg b s0 s"
  by (auto simp: attempted_def rolled_def Let_def)

lemma attempted_sound: "attempted cfg b s0 s \<Longrightarrow> sound s"
  by (auto simp: attempted_def fine_def)

lemma runs_fixed: "(\<And>s. p s \<Longrightarrow> runs (\<lambda>w. wd_store w = s) m Q E) \<Longrightarrow> runs (\<lambda>w. p (wd_store w)) m Q E"
  unfolding runs_def by blast

lemma runs_node_state:
  "runs (\<lambda>w. p (wd_store w)) node_state (\<lambda>st w. p (wd_store w) \<and> current_state Bitcoin (wd_store w) = st) E"
  by (auto simp: runs_def node_state_def on_store_def io_zoom_def io_get_def io_return_def)

lemma runs_reconcile_recorded:
  assumes "sound s0" "current_state Bitcoin s0 = st"
  shows "runs (\<lambda>w. wd_store w = s0) (reconcile_recorded n c i st head) (\<lambda>new w. rewound (nd_config n) s0 new (wd_store w)) at_chain"
  unfolding reconcile_recorded_def
proof (rule runs_then[OF runs_try[OF runs_reconcile[OF assms]]])
  fix r
  have same: "runs at_chain (record_at n h x g b) (\<lambda>_. at_chain) at_chain" for h x g b
  proof -
    have l: "runs (chain_ok Bitcoin) (record_failure w clk h x g p b) (\<lambda>_. chain_ok Bitcoin) (chain_ok Bitcoin)" for w clk p
    proof (rule runsI)
      fix s y t
      assume "chain_ok Bitcoin s" "record_failure w clk h x g p b s = (Inr y, t)"
      with leadsD[OF leads_record] same_chain_views(3) show "chain_ok Bitcoin t" by metis
    next
      fix s e t
      assume "chain_ok Bitcoin s" "record_failure w clk h x g p b s = (Inl e, t)"
      with leadsD[OF leads_record] same_chain_views(3) show "chain_ok Bitcoin t" by metis
    qed
    show ?thesis unfolding record_at_def by (rule runs_then[OF runs_timed[OF l]]) (rule runs_return)
  qed
  have t: "runs at_chain (io_try (record_at n h x g b)) (\<lambda>_. at_chain) E" for h x g b E
    by (rule runs_post[OF runs_try[OF same]]) (simp split: sum.splits)
  show "runs (\<lambda>w. case r of Inl e \<Rightarrow> at_chain w | Inr new \<Rightarrow> rewound (nd_config n) s0 new (wd_store w))
     (case r of Inl e \<Rightarrow> io_then (io_try (record_at n (next_height_of (nd_config n) st) None Reconcile True)) (\<lambda>_. io_fail e)
      | Inr new \<Rightarrow> io_return new) (\<lambda>new w. rewound (nd_config n) s0 new (wd_store w)) at_chain"
    by (cases r) (auto intro!: runs_return runs_then[OF t] runs_fail)
qed

lemma runs_fetch_after:
  assumes "some_order (sc_order (nd_source n))" "rolled (nd_config n) s0 u" "u = s0 \<or> primary" "good (nd_config n) u st u"
  shows "runs (\<lambda>w. wd_store w = u) (fetch_recorded n c i st head)
    (\<lambda>_ w. attempted (nd_config n) primary s0 (wd_store w)) (\<lambda>w. kept (nd_config n) primary s0 (wd_store w))"
proof (rule runs_weaken[OF runs_pre[OF runs_fetch_recorded[OF assms(1)]]])
  fix w :: world
  assume "wd_store w = u"
  with assms(4) show "at_good (nd_config n) u st w" by simp
next
  fix x and w :: world
  assume "at_fine (nd_config n) u w"
  with assms(2,3) show "attempted (nd_config n) primary s0 (wd_store w)" by (auto simp: attempted_def)
next
  fix w :: world
  assume "at_fine (nd_config n) u w"
  with assms(3) show "kept (nd_config n) primary s0 (wd_store w)" by (auto simp: kept_def fine_chain)
qed

lemma runs_try_source:
  assumes "some_order (sc_order (nd_source n))" "sound s0"
  shows "runs (\<lambda>w. wd_store w = s0) (try_source n i)
    (\<lambda>_ w. attempted (nd_config n) (i = 0 \<and> unforced n) s0 (wd_store w))
    (\<lambda>w. kept (nd_config n) (i = 0 \<and> unforced n) s0 (wd_store w))"
proof -
  let ?cfg = "nd_config n" and ?b = "i = 0 \<and> unforced n" and ?st = "current_state Bitcoin s0"
  have g: "good ?cfg s0 ?st s0" using good_refl[OF assms(2)] by blast
  then have f: "fine ?cfg s0 s0" by (rule good_fine)
  have chk: "runs (\<lambda>w. wd_store w = s0) (io_try (check_source n c i st)) (\<lambda>_ w. wd_store w = s0) E" for c st E
    by (rule runs_post[OF runs_try[OF runs_store[where p = "\<lambda>s. s = s0", OF leads_check]]]) (simp split: sum.splits)
  have rec: "runs (\<lambda>w. wd_store w = s0) (record_at n h x k b) (\<lambda>_ w. fine ?cfg s0 (wd_store w)) (\<lambda>w. kept ?cfg ?b s0 (wd_store w))" for h x k b
    using g by (intro runs_weaken[OF runs_pre[OF runs_record[of ?cfg s0 ?st]]]) (auto intro: good_fine fine_kept)
  have rr: "runs (\<lambda>w. wd_store w = s0) (if ?b then reconcile_recorded n c i ?st head else io_return ?st)
      (\<lambda>st w. \<exists>u. (u = wd_store w \<and> rolled ?cfg s0 u \<and> (u = s0 \<or> ?b) \<and> good ?cfg u st u)) (\<lambda>w. kept ?cfg ?b s0 (wd_store w))" for c head
  proof (rule runs_if)
    assume b: ?b
    show "runs (\<lambda>w. wd_store w = s0) (reconcile_recorded n c i ?st head)
      (\<lambda>st w. \<exists>u. (u = wd_store w \<and> rolled ?cfg s0 u \<and> (u = s0 \<or> ?b) \<and> good ?cfg u st u)) (\<lambda>w. kept ?cfg ?b s0 (wd_store w))"
      using b by (intro runs_weaken[OF runs_reconcile_recorded[OF assms(2) refl]])
        (auto simp: kept_def rewound_def intro: rewound_good[unfolded rewound_def])
  next
    assume "\<not> ?b"
    show "runs (\<lambda>w. wd_store w = s0) (io_return ?st)
      (\<lambda>st w. \<exists>u. (u = wd_store w \<and> rolled ?cfg s0 u \<and> (u = s0 \<or> ?b) \<and> good ?cfg u st u)) (\<lambda>w. kept ?cfg ?b s0 (wd_store w))"
      using g by (intro runs_return) (auto simp: rolled_def Let_def)
  qed
  have fa: "runs (\<lambda>w. \<exists>u. (u = wd_store w \<and> rolled ?cfg s0 u \<and> (u = s0 \<or> ?b) \<and> good ?cfg u st u)) (fetch_recorded n c i st head)
      (\<lambda>_ w. attempted ?cfg ?b s0 (wd_store w)) (\<lambda>w. kept ?cfg ?b s0 (wd_store w))" for c st head
    by (rule runs_ex, rule runs_pre[OF runs_fixed[where p = "\<lambda>u. rolled ?cfg s0 u \<and> (u = s0 \<or> ?b) \<and> good ?cfg u st u", OF runs_fetch_after[OF assms(1)]]])
      auto
  have tail: "runs (\<lambda>w. wd_store w = s0) (io_then (if ?b then reconcile_recorded n c i ?st head else io_return ?st)
      (\<lambda>st. fetch_recorded n c i st head)) (\<lambda>_ w. attempted ?cfg ?b s0 (wd_store w)) (\<lambda>w. kept ?cfg ?b s0 (wd_store w))" for c head
    by (rule runs_then[OF rr fa])
  have body: "runs (\<lambda>w. wd_store w = s0 \<and> current_state Bitcoin (wd_store w) = st)
      (io_ensure (st_revision st = 0 \<or> st_start st = ic_start ?cfg) ''BITCOIN_START_BLOCK differs from persisted history''
       (if past_end ?cfg st then io_return Over else
        (let c = nd_pool n ! i in
         io_then (io_try (check_source n c i st)) (\<lambda>r. case r of
           Inl e \<Rightarrow> io_then (record_at n (next_height_of ?cfg st) None Source (unforced n)) (\<lambda>_. io_return (Next e))
         | Inr head \<Rightarrow> io_then (if ?b then reconcile_recorded n c i st head else io_return st) (\<lambda>st. fetch_recorded n c i st head)))))
      (\<lambda>_ w. attempted ?cfg ?b s0 (wd_store w)) (\<lambda>w. kept ?cfg ?b s0 (wd_store w))" (is "runs _ ?m _ _") for st
  proof -
    have "runs (\<lambda>w. wd_store w = s0 \<and> ?st = st) ?m
      (\<lambda>_ w. attempted ?cfg ?b s0 (wd_store w)) (\<lambda>w. kept ?cfg ?b s0 (wd_store w))"
    proof (rule runs_pure)
      assume st: "?st = st"
      show "runs (\<lambda>w. wd_store w = s0) ?m (\<lambda>_ w. attempted ?cfg ?b s0 (wd_store w)) (\<lambda>w. kept ?cfg ?b s0 (wd_store w))"
        unfolding Let_def using f
        by (intro runs_ensure runs_if runs_return runs_then[OF chk] runs_sum runs_then[OF rec] tail[unfolded st])
          (auto intro: fine_attempted fine_kept)
    qed
    then show ?thesis by (rule runs_pre) auto
  qed
  show ?thesis unfolding try_source_def by (rule runs_then[OF runs_node_state[where p = "\<lambda>s. s = s0"] body])
qed
text \<open>A condition on the store that every attempt keeps, the ledger does not affect, and that implies what is
  left to hold when an operation fails.\<close>

definition each_source :: "node \<Rightarrow> (store \<Rightarrow> bool) \<Rightarrow> (store \<Rightarrow> bool) \<Rightarrow> bool" where
  "each_source n p e \<longleftrightarrow>
     (\<forall>i. runs (\<lambda>w. p (wd_store w)) (try_source n i) (\<lambda>_ w. p (wd_store w)) (\<lambda>w. e (wd_store w))) \<and>
     (\<forall>s. p s \<longrightarrow> e s) \<and> (\<forall>s t. same_chain s t \<longrightarrow> p s \<longrightarrow> p t)"

lemma each_sourceD:
  assumes "each_source n p e"
  shows "runs (\<lambda>w. p (wd_store w)) (try_source n i) (\<lambda>_ w. p (wd_store w)) (\<lambda>w. e (wd_store w))"
    "p s \<Longrightarrow> e s" "same_chain s t \<Longrightarrow> p s \<Longrightarrow> p t"
  using assms by (auto simp: each_source_def)

lemma runs_same:
  assumes "leads same_chain m" "\<And>s t. same_chain s t \<Longrightarrow> p s \<Longrightarrow> p t" "\<And>s. p s \<Longrightarrow> e s"
  shows "runs p m (\<lambda>_. p) e"
proof (rule runsI)
  fix s x t
  assume "p s" "m s = (Inr x, t)"
  with leadsD[OF assms(1)] assms(2) show "p t" by blast
next
  fix s err t
  assume "p s" "m s = (Inl err, t)"
  with leadsD[OF assms(1)] assms(2,3) show "e t" by blast
qed

lemma runs_ledger_of:
  assumes "each_source n p e" "\<And>clk. leads same_chain (f clk)"
  shows "runs (\<lambda>w. p (wd_store w)) (timed n' f) (\<lambda>_ w. p (wd_store w)) (\<lambda>w. e (wd_store w))"
  by (rule runs_timed) (rule runs_same[OF assms(2) each_sourceD(3,2)[OF assms(1)]])

lemma runs_state_of: "runs (\<lambda>w. p (wd_store w)) node_state (\<lambda>_ w. p (wd_store w)) E"
  by (rule runs_post[OF runs_node_state]) simp

lemma runs_try_sources:
  assumes "each_source n p e"
  shows "runs (\<lambda>w. p (wd_store w)) (try_sources n lp is err) (\<lambda>_ w. p (wd_store w)) (\<lambda>w. e (wd_store w))"
proof (induction "is" arbitrary: err)
  case Nil
  show ?case by (auto intro!: runs_fail runs_return each_sourceD(2)[OF assms])
next
  case (Cons i "is")
  have ends: "runs (\<lambda>w. p (wd_store w)) (case r of Over \<Rightarrow> io_return None | Waits \<Rightarrow> io_return (Some lp)
     | Committed \<Rightarrow> at_tick (\<lambda>k. io_return (Some (loop_after n lp i (nd_instant n k))))
     | Next e \<Rightarrow> try_sources n lp is (Some e)) (\<lambda>_ w. p (wd_store w)) (\<lambda>w. e (wd_store w))" for r
    by (cases r) (auto intro!: runs_return runs_at_tick Cons.IH)
  show ?case unfolding try_sources.simps by (rule runs_then[OF each_sourceD(1)[OF assms] ends])
qed

lemma runs_round:
  assumes "each_source n p e"
  shows "runs (\<lambda>w. p (wd_store w)) (work_round n lp) (\<lambda>_ w. p (wd_store w)) (\<lambda>w. e (wd_store w))"
proof -
  have s: "runs (\<lambda>w. p (wd_store w)) (run_sources n lp) (\<lambda>_ w. p (wd_store w)) (\<lambda>w. e (wd_store w))"
    unfolding run_sources_def by (rule runs_at_tick) (rule runs_try_sources[OF assms])
  have g: "runs (\<lambda>w. p (wd_store w)) (frontier_gate n st) (\<lambda>_ w. p (wd_store w)) (\<lambda>w. e (wd_store w))" for st
    unfolding frontier_gate_def by (intro runs_if runs_ledger_of[OF assms] leads_gate runs_return)
  show ?thesis
    unfolding work_round_def
    by (intro runs_if s runs_then[OF runs_state_of] runs_return runs_then[OF g] runs_option runs_fail)
      (auto intro: each_sourceD(2)[OF assms])
qed

lemma runs_rounds:
  assumes "each_source n p e"
  shows "runs (\<lambda>w. p (wd_store w)) (run_rounds n k lp) (\<lambda>_ w. p (wd_store w)) (\<lambda>w. e (wd_store w))"
proof (induction k arbitrary: lp)
  case 0
  show ?case by (auto intro: runs_return)
next
  case (Suc k)
  show ?case
    unfolding run_rounds.simps by (intro runs_then[OF runs_round[OF assms]] runs_option runs_return Suc.IH)
qed

lemma runs_owned:
  assumes "each_source n p e"
  shows "runs (\<lambda>w. p (wd_store w)) (run_owned n k) (\<lambda>_ w. p (wd_store w)) (\<lambda>w. e (wd_store w))"
proof -
  let ?P = "\<lambda>w. p (wd_store w)" and ?E = "\<lambda>w. e (wd_store w)"
  have settle: "runs ?P (on_store (settle_published (nd_wh n) clk st)) (\<lambda>_. ?P) ?E" for clk st
    by (rule runs_on_store) (rule runs_same[OF leads_settle each_sourceD(3,2)[OF assms]])
  have begun: "runs ?P (if unforced n then
        io_then (timed n (\<lambda>clk. recover_interrupted (nd_wh n) clk (nd_policy n))) (\<lambda>_.
        io_then node_state (\<lambda>st. at_tick (\<lambda>k. on_store (settle_published (nd_wh n) (\<lambda>j. nd_clock n (k + j)) st))))
      else io_return ()) (\<lambda>_. ?P) ?E"
    by (intro runs_if runs_return runs_then[OF runs_ledger_of[OF assms leads_recover]] runs_then[OF runs_state_of]
        runs_at_tick settle)
  have rounds: "runs ?P (at_tick (\<lambda>t. run_rounds n k \<lparr>lp_active = 0, lp_retry_at = nd_instant n t\<rparr>)) (\<lambda>_. ?P) ?E"
    by (rule runs_at_tick) (rule runs_rounds[OF assms])
  have all: "runs ?P (io_attempt v (\<lambda>_. io_then (if unforced n then
        io_then (timed n (\<lambda>clk. recover_interrupted (nd_wh n) clk (nd_policy n))) (\<lambda>_.
        io_then node_state (\<lambda>st. at_tick (\<lambda>k. on_store (settle_published (nd_wh n) (\<lambda>j. nd_clock n (k + j)) st))))
      else io_return ()) (\<lambda>_. at_tick (\<lambda>t. run_rounds n k \<lparr>lp_active = 0, lp_retry_at = nd_instant n t\<rparr>))))
      (\<lambda>_. ?P) ?E" for v :: "unit res"
    by (intro runs_attempt runs_then[OF begun rounds]) (auto intro: each_sourceD(2)[OF assms])
  show ?thesis
    unfolding run_owned_def by (intro runs_attempt[OF runs_attempt[OF runs_attempt[OF runs_get[OF runs_pre[OF all]]]]])
      (auto intro: each_sourceD(2)[OF assms])
qed

lemma same_sound: "same_chain s t \<Longrightarrow> sound s \<Longrightarrow> sound t"
  by (simp add: sound_def same_chain_views)

lemma sound_sources:
  assumes "some_order (sc_order (nd_source n))"
  shows "each_source n sound (chain_ok Bitcoin)"
proof -
  have "runs (\<lambda>w. sound (wd_store w)) (try_source n i) (\<lambda>_ w. sound (wd_store w)) at_chain" for i
    by (rule runs_fixed) (rule runs_weaken[OF runs_try_source[OF assms]]; auto simp: kept_def dest: attempted_sound)
  then show ?thesis using same_sound by (auto simp: each_source_def sound_def)
qed

text \<open>Without the primary, or in a repair, nothing is taken back.\<close>

lemma fine_trans: "fine cfg s0 s \<Longrightarrow> fine cfg s t \<Longrightarrow> fine cfg s0 t"
  using extends_trans by (auto simp: fine_def)

lemma repair_sources:
  assumes "some_order (sc_order (nd_source n))" "\<not> unforced n"
  shows "each_source n (fine (nd_config n) s0) (fine (nd_config n) s0)"
proof -
  have "runs (\<lambda>w. fine (nd_config n) s0 (wd_store w)) (try_source n i) (\<lambda>_ w. fine (nd_config n) s0 (wd_store w))
      (\<lambda>w. fine (nd_config n) s0 (wd_store w))" for i
  proof (rule runs_fixed)
    fix s
    assume f: "fine (nd_config n) s0 s"
    then have "sound s" by (simp add: fine_def)
    then show "runs (\<lambda>w. wd_store w = s) (try_source n i) (\<lambda>_ w. fine (nd_config n) s0 (wd_store w)) (\<lambda>w. fine (nd_config n) s0 (wd_store w))"
      using assms(2) by (intro runs_weaken[OF runs_try_source[OF assms(1)]])
        (auto simp: attempted_def kept_def intro: fine_trans[OF f])
  qed
  moreover have "fine (nd_config n) s0 t" if "same_chain s t" "fine (nd_config n) s0 s" for s t
    using that same_sound same_chain_extends extends_trans by (auto simp: fine_def)
  ultimately show ?thesis by (simp add: each_source_def)
qed

end
