(* ===== verification/Reorganisation.thy ===== *)
theory Reorganisation
  imports Ingestion Fence
begin

text \<open>
  What a run of the ingestion loop makes of a published chain: it stays linked and free of gaps, only the
  primary endpoint takes blocks back, within the configured depth, and reconciliation finds the highest
  block both sides agree on. An endpoint whose chain parts from a published one serves as example.
\<close>

section \<open>Properties\<close>



text \<open>An endpoint that keeps to one chain while it is asked.\<close>

definition steady :: "rpc \<Rightarrow> nat \<Rightarrow> (nat \<Rightarrow> string) \<Rightarrow> bool" where
  "steady c i told \<longleftrightarrow> (\<forall>h w. fst (on_rpc i (rpc_block_hash c h) w) = Inr (told h))"

definition agrees :: "store \<Rightarrow> (nat \<Rightarrow> string) \<Rightarrow> nat \<Rightarrow> bool" where
  "agrees s told h \<longleftrightarrow> map_option b_hash (canonical_at Bitcoin h s) = Some (told h)"

lemma steady_run:
  assumes "steady c i told"
  obtains w' where "on_rpc i (rpc_block_hash c h) w = (Inr (told h), w')" "wd_store w' = wd_store w"
proof -
  obtain r w' where r: "on_rpc i (rpc_block_hash c h) w = (r, w')" by (metis surj_pair)
  moreover from this assms have "r = Inr (told h)" by (metis steady_def fst_conv)
  ultimately show ?thesis using that on_rpc_store by metis
qed

lemma find_ancestor_steady:
  assumes "steady c i told"
  shows "\<exists>w'. find_ancestor c i hs w = (Inr (find (agrees (wd_store w) told) hs), w') \<and> wd_store w' = wd_store w"
proof (induction hs arbitrary: w)
  case Nil
  show ?case by (simp add: io_return_def)
next
  case (Cons h hs)
  obtain w1 where "on_rpc i (rpc_block_hash c h) w = (Inr (told h), w1)" "wd_store w1 = wd_store w"
    by (rule steady_run[OF assms]) (rule that)
  with Cons.IH[of w1] show ?case by (auto simp: io_get_def io_then_def io_return_def agrees_def)
qed

lemma publish_current:
  assumes "publish w net p n s = (Inr x, t)"
  shows "current_state net t = n"
proof -
  obtain u where u: "current_state net s = p" "st_network n = network_id net" "st_revision p < st_revision n"
    "ahead p s u" "published n u t" by (rule publish_ok[OF assms]) (rule that)
  then have "st_revision (current_state net u) < st_revision n" using ahead_current by metis
  from sync_row_current(1)[OF published_sync_row[OF u(5,2) this]] show ?thesis .
qed

lemma roll_back_steady:
  assumes "steady c i told" "roll_back n c i st head w = (Inr new, w')"
  defines "found \<equiv> find (agrees (wd_store w) told) (reconcile_heights (ic_depth (nd_config n)) st head)"
  shows "(found \<noteq> None \<or> wrapping_sub64 (st_last st) (st_start st) < ic_depth (nd_config n)) \<and>
    current_state Bitcoin (wd_store w') = new \<and>
    (\<exists>ver now. new = rolled_state st ver found (case found of None \<Rightarrow> [] | Some h \<Rightarrow> told h) head now)"
proof -
  obtain w1 where f: "find_ancestor c i (reconcile_heights (ic_depth (nd_config n)) st head) w = (Inr found, w1)"
    using find_ancestor_steady[OF assms(1)] unfolding found_def by blast
  from assms(2) obtain w2 w3 ver hash where
    d: "found \<noteq> None \<or> wrapping_sub64 (st_last st) (st_start st) < ic_depth (nd_config n)" and
    h: "(case found of None \<Rightarrow> io_return [] | Some h \<Rightarrow> on_rpc i (rpc_block_hash c h)) w2 = (Inr hash, w3)" and
    p: "at_tick (\<lambda>k. let new = rolled_state st ver found hash head (nd_clock n k 0) in
        io_then (on_store (publish (nd_wh n) Bitcoin st new)) (\<lambda>_. io_return new)) w3 = (Inr new, w')"
    by (auto simp: roll_back_def io_simps f)
  have "hash = (case found of None \<Rightarrow> [] | Some h \<Rightarrow> told h)"
  proof (cases found)
    case (Some k)
    obtain w' where "on_rpc i (rpc_block_hash c k) w2 = (Inr (told k), w')" by (rule steady_run[OF assms(1)]) (rule that)
    with h Some show ?thesis by simp
  qed (use h in \<open>simp add: io_simps\<close>)
  with d p show ?thesis by (auto simp: at_tick_def on_store_def Let_def io_simps dest: publish_current)
qed

lemma find_rev_upt:
  "find P (rev [a..<b]) = (let H = {h. a \<le> h \<and> h < b \<and> P h} in if H = {} then None else Some (Max H))"
proof (induction b)
  case 0
  show ?case by simp
next
  case (Suc b)
  let ?H = "\<lambda>b. {h. a \<le> h \<and> h < b \<and> P h}"
  show ?case
  proof (cases "a \<le> b \<and> P b")
    case True
    then have s: "?H (Suc b) = insert b (?H b)" by (auto simp: less_Suc_eq)
    have "Max (insert b (?H b)) = b" by (rule Max_eqI) auto
    with True show ?thesis unfolding s Let_def by simp
  next
    case False
    then have "?H (Suc b) = ?H b" by (auto simp: less_Suc_eq)
    moreover have "find P (rev [a..<Suc b]) = find P (rev [a..<b])" using False by auto
    ultimately show ?thesis using Suc.IH by (simp only: Let_def)
  qed
qed

text \<open>C16: a reconciliation with an endpoint that keeps to one chain moves the checkpoint to the highest height
  within the depth, the endpoint's head and the published range whose canonical block the endpoint agrees
  with, or drops the whole chain if there is none and it is shorter than the depth.\<close>

theorem reconcile_finds_fork:
  assumes "reconcile n c i st head w = (Inr new, w')" "steady c i told"
    and "st_initialized st = 1" "\<not> (st_last st \<le> head \<and> told (st_last st) = st_hash st)"
  shows "current_state Bitcoin (wd_store w') = new \<and>
    (let common = {h. st_start st \<le> h \<and> h \<le> st_last st \<and> h \<le> head \<and> st_last st \<le> h + ic_depth (nd_config n) \<and>
                      agrees (wd_store w) told h} in
     if common = {} then st_initialized new = 0 \<and> wrapping_sub64 (st_last st) (st_start st) < ic_depth (nd_config n)
     else st_initialized new = 1 \<and> st_last new = Max common \<and> st_hash new = told (Max common))"
proof -
  obtain w1 where r: "roll_back n c i st head w1 = (Inr new, w')" "wd_store w1 = wd_store w"
  proof (cases "st_last st \<le> head")
    case True
    obtain w1 where "on_rpc i (rpc_block_hash c (st_last st)) w = (Inr (told (st_last st)), w1)" "wd_store w1 = wd_store w"
      by (rule steady_run[OF assms(2)]) (rule that)
    with assms True that show ?thesis by (auto simp: reconcile_def io_simps)
  qed (use assms that in \<open>auto simp: reconcile_def\<close>)
  let ?P = "agrees (wd_store w) told" and ?d = "ic_depth (nd_config n)"
  let ?common = "{h. st_start st \<le> h \<and> h \<le> st_last st \<and> h \<le> head \<and> st_last st \<le> h + ?d \<and> ?P h}"
  let ?a = "max (saturating_sub (st_last st) ?d) (st_start st)" and ?b = "Suc (min (st_last st) head)"
  define common where "common = ?common"
  have "{h. ?a \<le> h \<and> h < ?b \<and> ?P h} = common" by (auto simp: saturating_sub_nat common_def)
  then have f: "find ?P (reconcile_heights ?d st head) = (if common = {} then None else Some (Max common))"
    unfolding reconcile_heights_def find_rev_upt Let_def by simp
  note b = roll_back_steady[OF assms(2) r(1), unfolded r(2) f]
  show ?thesis
    unfolding Let_def common_def[symmetric] using b by (cases "common = {}") (auto simp: rolled_state_def)
qed

text \<open>Three published blocks from height 5, and an endpoint whose chain parts from them after height 6.\<close>

definition fork_block :: "nat \<Rightarrow> string \<Rightarrow> string \<Rightarrow> block" where
  "fork_block h hash parent = sample_b\<lparr>b_number := h, b_hash := hash, b_parent := parent, b_revision := 3 * (h - 4),
     b_canonical := 1, b_status := ''complete''\<rparr>"

definition fork_state :: sync_state where
  "fork_state = \<lparr>st_network = network_id Bitcoin, st_revision = 9, st_initialized = 1, st_start = 5, st_last = 7,
     st_hash = sample_hash (CHR ''7''), st_observed = 8, st_published = 1\<rparr>"

definition fork_store :: store where
  "fork_store = (wd_store blank_world)\<lparr>states := [fork_state],
     blocks := [fork_block 5 (sample_hash (CHR ''5'')) (sample_hash (CHR ''4'')),
                fork_block 6 (sample_hash (CHR ''6'')) (sample_hash (CHR ''5'')),
                fork_block 7 (sample_hash (CHR ''7'')) (sample_hash (CHR ''6''))]\<rparr>"

definition fork_world :: world where
  "fork_world = blank_world\<lparr>wd_store := fork_store\<rparr>"

definition fork_chain :: "nat \<Rightarrow> string" where
  "fork_chain h = (if h = 0 then genesis else if h = 5 then sample_hash (CHR ''5'')
     else if h = 6 then sample_hash (CHR ''6'') else sample_hash (CHR ''8''))"

text \<open>The body of a reply names the request by its identity and its result by a tag.\<close>

definition fork_results :: "(char \<times> json) list" where
  "fork_results = [(CHR ''i'', JObj [(''chain'', JStr ''main'')]), (CHR ''n'', jnat 9), (CHR ''g'', JStr genesis),
     (CHR ''5'', JStr (sample_hash (CHR ''5''))), (CHR ''6'', JStr (sample_hash (CHR ''6''))), (CHR ''8'', JStr (sample_hash (CHR ''8'')))]"

definition fork_tag :: "json \<Rightarrow> char" where
  "fork_tag q = (let m = field q ''method''; h = (case field q ''params'' of JArr [h] \<Rightarrow> as_u64 h | _ \<Rightarrow> None) in
     if m = JStr ''getblockchaininfo'' then CHR ''i'' else if m = JStr ''getblockcount'' then CHR ''n''
     else if h = Some 0 then CHR ''g'' else if h = Some 5 then CHR ''5'' else if h = Some 6 then CHR ''6'' else CHR ''8'')"

definition fork_rpc :: rpc where
  "fork_rpc = \<lparr>rc_wire = (\<lambda>_ q. Some \<lparr>re_status = 200, re_chunks = [Some [fork_tag q], Some (show_nat (request_id q))]\<rparr>),
     rc_parse = (\<lambda>t. case t of [] \<Rightarrow> None | c # digits \<Rightarrow>
       map_option (\<lambda>v. JObj [(''id'', jnat (nat_of_digits digits)), (''error'', JNull), (''result'', v)]) (map_of fork_results c)),
     rc_policy = default_rpc_policy\<rparr>"

definition fork_node :: node where
  "fork_node = \<lparr>nd_map = sample_map, nd_wh = demo_wh, nd_source = sample_source, nd_pool = [fork_rpc, fork_rpc],
     nd_ready = (\<lambda>_. Inr ()), nd_clock = (\<lambda>_ _. 1000), nd_instant = (\<lambda>k. k),
     nd_config = \<lparr>ic_start = 5, ic_end = None, ic_confirmations = 6, ic_depth = 3, ic_poll = 1, ic_verbosity = 3\<rparr>,
     nd_tuning = default_pipeline, nd_policy = default_policy, nd_once = True, nd_repair = None\<rparr>"

text \<open>What a call of this endpoint leaves behind.\<close>

definition asked :: "nat \<Rightarrow> world \<Rightarrow> world" where
  "asked i w = w\<lparr>wd_rpc := (wd_rpc w)(i := (wd_rpc w i)\<lparr>rs_sequence := wrapping_add64 (rs_sequence (wd_rpc w i)) 1,
     rs_sent := rs_sent (wd_rpc w i) + 1\<rparr>)\<rparr>"

lemma asked_simps [simp]: "wd_store (asked i w) = wd_store w" "wd_tick (asked i w) = wd_tick w"
  by (simp_all add: asked_def)

definition call_json :: "nat \<Rightarrow> string \<Rightarrow> json \<Rightarrow> json" where
  "call_json k meth params = JObj [(''jsonrpc'', JStr ''1.0''), (''id'', jnat k), (''method'', JStr meth), (''params'', params)]"

lemma request_id_below: "request_id q < u64_lim"
  by (auto simp: request_id_def u64_lim_def dest: as_u64_less split: option.split)

lemma show_nat_length: "n < 10 ^ Suc k \<Longrightarrow> length (show_nat n) \<le> Suc k"
proof (induction k arbitrary: n)
  case (Suc k)
  then have "n div 10 < 10 ^ Suc k" by (simp add: less_mult_imp_div_less)
  with Suc.IH[of "n div 10"] show ?case by (subst show_nat.simps) simp
qed (simp add: show_nat.simps)

lemma id_text_length: "length (show_nat (request_id q)) \<le> 20"
proof -
  have "request_id q < 10 ^ Suc 19" using request_id_below[of q] by (simp add: u64_lim_def)
  from show_nat_length[OF this] show ?thesis by simp
qed

lemma fork_call:
  assumes "meth \<in> set rpc_methods" "map_of fork_results (fork_tag (call_json (rs_sequence s) meth params)) = Some v"
  shows "rpc_call fork_rpc meth params s =
    (Inr v, s\<lparr>rs_sequence := wrapping_add64 (rs_sequence s) 1, rs_sent := rs_sent s + 1\<rparr>)"
proof -
  let ?q = "call_json (rs_sequence s) meth params"
  let ?s = "s\<lparr>rs_sequence := wrapping_add64 (rs_sequence s) 1\<rparr>"
  have r: "request meth params s = (Inr ?q, ?s)"
    using assms(1) by (simp add: request_def io_ensure_def io_get_def io_then_def io_modify_def io_return_def call_json_def)
  have i: "as_u64 (jnat (request_id ?q)) = Some (request_id ?q)" using request_id_below by (simp add: as_u64_jnat)
  have "send fork_rpc ?q ?s = (Inr (JObj [(''id'', jnat (request_id ?q)), (''error'', JNull), (''result'', v)]),
      ?s\<lparr>rs_sent := rs_sent s + 1\<rparr>)"
    using assms(2) id_text_length[of ?q] by (simp add: send_def fork_rpc_def read_reply_def default_rpc_policy_def server_error_def success_def)
  then have "dispatch fork_rpc [?q] False ?s = (Inr [v], ?s\<lparr>rs_sent := rs_sent s + 1\<rparr>)"
    using i by (simp add: dispatch_def fork_rpc_def default_rpc_policy_def decode_def expected_id_def)
  then show ?thesis by (simp add: rpc_call_def io_then_def io_return_def r)
qed
lemma parse_above: "\<not> n < bound \<Longrightarrow> parse_below bound (show_nat n) = None"
proof (cases "show_nat n")
  case (Cons c cs)
  moreover have "is_digit c" using show_nat_digits[of n] Cons by simp
  moreover assume "\<not> n < bound"
  ultimately show ?thesis using nat_of_digits_show[of n] by (auto simp: parse_below_def is_digit_def)
qed simp

lemma fork_hash_call:
  "rpc_call fork_rpc ''getblockhash'' (JArr [jnat h]) s =
    (Inr (JStr (fork_chain h)), s\<lparr>rs_sequence := wrapping_add64 (rs_sequence s) 1, rs_sent := rs_sent s + 1\<rparr>)"
proof (rule fork_call)
  have j: "as_u64 (jnat h) = (if h < u64_lim then Some h else None)"
    by (simp add: jnat_def parse_above)
  show "map_of fork_results (fork_tag (call_json (rs_sequence s) ''getblockhash'' (JArr [jnat h]))) = Some (JStr (fork_chain h))"
    by (auto simp: fork_tag_def call_json_def Let_def j fork_results_def fork_chain_def u64_lim_def)
qed (simp add: rpc_methods_def)

lemma fork_hash: "btc_hash (fork_chain h) = Inr (fork_chain h)"
proof -
  have "btc_hash genesis = Inr genesis \<and> btc_hash (sample_hash (CHR ''5'')) = Inr (sample_hash (CHR ''5'')) \<and>
    btc_hash (sample_hash (CHR ''6'')) = Inr (sample_hash (CHR ''6'')) \<and> btc_hash (sample_hash (CHR ''8'')) = Inr (sample_hash (CHR ''8''))"
    by code_simp
  then show ?thesis by (simp add: fork_chain_def)
qed

lemma fork_block_hash: "on_rpc i (rpc_block_hash fork_rpc h) w = (Inr (fork_chain h), asked i w)"
  by (simp add: on_rpc_def io_zoom_def rpc_block_hash_def io_then_def fork_hash_call io_need_def io_attempt_def fork_hash
      io_return_def asked_def)

lemma fork_steady: "steady fork_rpc i fork_chain"
  by (simp add: steady_def fork_block_hash)

lemma fork_height: "on_rpc i (rpc_height fork_rpc) w = (Inr 9, asked i w)"
proof -
  have "rpc_call fork_rpc ''getblockcount'' (JArr []) s =
    (Inr (jnat 9), s\<lparr>rs_sequence := wrapping_add64 (rs_sequence s) 1, rs_sent := rs_sent s + 1\<rparr>)" for s
    by (rule fork_call) (simp_all add: rpc_methods_def fork_tag_def call_json_def fork_results_def)
  then show ?thesis
    by (simp add: on_rpc_def io_zoom_def rpc_height_def io_then_def io_need_def io_return_def asked_def u64_lim_def)
qed

lemma fork_valid: "on_rpc i (validate_chain fork_rpc) w = (Inr (), asked i (asked i w))"
proof -
  have c: "rpc_call fork_rpc ''getblockchaininfo'' (JArr []) s = (Inr (JObj [(''chain'', JStr ''main'')]),
      s\<lparr>rs_sequence := wrapping_add64 (rs_sequence s) 1, rs_sent := rs_sent s + 1\<rparr>)" for s
    by (rule fork_call) (simp_all add: rpc_methods_def fork_tag_def call_json_def fork_results_def)
  have h: "btc_hash genesis = Inr genesis" using fork_hash[of 0] by (simp add: fork_chain_def)
  show ?thesis
    by (simp add: on_rpc_def io_zoom_def validate_chain_def rpc_block_hash_def io_then_def c fork_hash_call io_ensure_def io_need_def
        io_attempt_def io_return_def asked_def fork_chain_def h)
qed
definition fork_back :: sync_state where
  "fork_back = rolled_state fork_state 1000003 (Some 6) (fork_chain 6) 9 1000"

definition fork_after :: store where
  "fork_after = snd (publish demo_wh Bitcoin fork_state fork_back fork_store)"

lemma fork_published: "publish demo_wh Bitcoin fork_state fork_back fork_store = (Inr (), fork_after)"
proof -
  have "is_ok (fst (publish demo_wh Bitcoin fork_state fork_back fork_store))" by code_simp
  then show ?thesis by (auto simp: fork_after_def is_ok_iff prod_eq_iff)
qed

lemma fork_views: "current_state Bitcoin fork_store = fork_state"
    "canonical_at Bitcoin 7 fork_store = Some (fork_block 7 (sample_hash (CHR ''7'')) (sample_hash (CHR ''6'')))"
    "canonical_at Bitcoin 6 fork_store = Some (fork_block 6 (sample_hash (CHR ''6'')) (sample_hash (CHR ''5'')))"
    "reconcile_heights 3 fork_state 9 = [7, 6, 5]"
    "next_revision Bitcoin 1000000 fork_store = (Inr 1000003, fork_store)"
  by code_simp+

lemma sample_hash_eq: "sample_hash a = sample_hash b \<longleftrightarrow> a = b"
  by (simp add: sample_hash_def)

lemma fork_block_of: "b_hash (fork_block h hash parent) = hash"
  by (simp add: fork_block_def)

lemma fork_fields: "nd_wh fork_node = demo_wh" "nd_clock fork_node k j = 1000" "ic_depth (nd_config fork_node) = 3"
    "nd_pool fork_node = [fork_rpc, fork_rpc]" "nd_repair fork_node = None" "nd_once fork_node = True"
  by (simp_all add: fork_node_def)

lemmas io_run = io_then_def io_get_def io_return_def io_ensure_def io_attempt_def io_need_def io_fail_def on_store_def io_zoom_def
  io_try_def io_modify_def

lemma fork_state_fields: "st_initialized fork_state = 1" "st_last fork_state = 7" "st_start fork_state = 5"
    "st_hash fork_state = sample_hash (CHR ''7'')" "st_revision fork_state = 9"
  by (simp_all add: fork_state_def)

lemma fork_ancestor:
  assumes "wd_store w = fork_store"
  shows "find_ancestor fork_rpc i [7, 6, 5] w = (Inr (Some 6), asked i (asked i w))"
  using assms by (simp add: io_run fork_block_hash fork_views fork_chain_def sample_hash_eq fork_block_of)

lemma fork_roll_back:
  assumes "wd_store w = fork_store"
  obtains w' where "roll_back fork_node fork_rpc i fork_state 9 w = (Inr fork_back, w')" "wd_store w' = fork_after"
proof -
  have t: "timed fork_node (\<lambda>clk. db_revision clk 9) u = (Inr 1000003, u\<lparr>wd_tick := wd_tick u + 1\<rparr>)" if "wd_store u = fork_store" for u
    using that by (simp add: timed_def at_tick_def io_run db_revision_def fork_fields fork_views saturating_mul64_def u64_lim_def)
  show ?thesis
    by (rule that[of "snd (roll_back fork_node fork_rpc i fork_state 9 w)"])
      (simp_all add: roll_back_def io_run fork_fields fork_views fork_state_fields assms fork_ancestor t fork_block_hash at_tick_def
        fork_back_def[symmetric] fork_published Let_def del: find_ancestor.simps)
qed
lemma fork_config: "nd_config fork_node = \<lparr>ic_start = 5, ic_end = None, ic_confirmations = 6, ic_depth = 3, ic_poll = 1, ic_verbosity = 3\<rparr>"
    "nd_policy fork_node = default_policy" "nd_tuning fork_node = default_pipeline" "nd_ready fork_node s = Inr ()" "nd_instant fork_node k = k"
  by (simp_all add: fork_node_def)

lemma fork_opening:
  "validate_policy default_policy = Inr ()" "validate_pipeline default_pipeline = Inr ()" "validate_range (nd_config fork_node) = Inr ()"
  by code_simp+

lemma fork_ledger:
  "is_ok (fst (recover_interrupted demo_wh (\<lambda>_. 1000) default_policy fork_store))" "snd (recover_interrupted demo_wh (\<lambda>_. 1000) default_policy fork_store) = fork_store"
  "is_ok (fst (settle_published demo_wh (\<lambda>_ _. 1000) fork_state fork_store))" "snd (settle_published demo_wh (\<lambda>_ _. 1000) fork_state fork_store) = fork_store"
  "gate demo_wh (\<lambda>_. 1000) 8 default_policy True fork_store = (Inr None, fork_store)"
  "is_ok (fst (record_failure demo_wh (\<lambda>_. 1000) 8 None Source default_policy True fork_store))"
  by code_simp+

lemma fork_clock: "nd_clock fork_node k = (\<lambda>_. 1000)"
  by (simp add: fork_node_def)

lemma node_state_run: "node_state w = (Inr (current_state Bitcoin (wd_store w)), w)"
  by (simp add: node_state_def io_run)

lemma fork_source_primary:
  assumes "wd_store w = fork_store"
  obtains w' where "try_source fork_node 0 w = (Inr Over, w')" "wd_store w' = fork_after"
proof -
  have chk: "check_source fork_node fork_rpc 0 fork_state u = (Inr 9, asked 0 (asked 0 (asked 0 u)))" for u
    by (simp add: check_source_def io_run fork_valid fork_height fork_state_fields u32_lim_def fork_fields)
  obtain w' where r: "roll_back fork_node fork_rpc 0 fork_state 9 (asked 0 (asked 0 (asked 0 (asked 0 w)))) = (Inr fork_back, w')" "wd_store w' = fork_after"
    by (rule fork_roll_back[of "asked 0 (asked 0 (asked 0 (asked 0 w)))"]) (use assms that in auto)
  have "reconcile_recorded fork_node fork_rpc 0 fork_state 9 (asked 0 (asked 0 (asked 0 w))) = (Inr fork_back, w')"
    by (simp add: reconcile_recorded_def reconcile_def io_run fork_state_fields fork_block_hash fork_chain_def sample_hash_eq r)
  moreover have "fetch_recorded fork_node fork_rpc 0 fork_back 9 w' = (Inr Over, w')"
  proof -
    have "next_height_of (nd_config fork_node) fork_back = 7" "window_end (nd_config fork_node) 9 = Some 4" by code_simp+
    then show ?thesis by (simp add: fetch_recorded_def io_run fork_fields)
  qed
  ultimately have "try_source fork_node 0 w = (Inr Over, w')"
    by (simp add: try_source_def node_state_run io_run assms fork_views fork_state_fields fork_fields past_end_def fork_config
        chk Let_def)
  with r(2) that show ?thesis by blast
qed

lemma fork_run:
  obtains w' where "run_owned fork_node 1 fork_world = (Inr True, w')" "wd_store w' = fork_after"
proof -
  have s: "wd_store fork_world = fork_store" by (simp add: fork_world_def)
  obtain xs where xs: "recover_interrupted demo_wh (\<lambda>_. 1000) default_policy fork_store = (Inr xs, fork_store)"
    using fork_ledger(1,2) by (metis is_ok_iff prod.collapse)
  obtain ys where ys: "settle_published demo_wh (\<lambda>_ _. 1000) fork_state fork_store = (Inr ys, fork_store)"
    using fork_ledger(3,4) by (metis is_ok_iff prod.collapse)
  have round: "\<exists>w'. work_round fork_node \<lparr>lp_active = 0, lp_retry_at = t\<rparr> w = (Inr None, w') \<and> wd_store w' = fork_after"
    if here: "wd_store w = fork_store" for w t
  proof -
    let ?w = "w\<lparr>wd_tick := wd_tick w + 1\<rparr>"
    have g: "frontier_gate fork_node fork_state w = (Inr None, ?w)"
      using here by (simp add: frontier_gate_def timed_def at_tick_def io_run next_height_of_def fork_state_fields wrapping_add64_def
          u64_lim_def u32_lim_def fork_clock fork_fields fork_config fork_ledger)
    obtain w' where "try_source fork_node 0 (?w\<lparr>wd_tick := wd_tick ?w + 1\<rparr>) = (Inr Over, w')" "wd_store w' = fork_after"
      by (rule fork_source_primary[of "?w\<lparr>wd_tick := wd_tick ?w + 1\<rparr>"]) (use here in auto)
    moreover have "source_order (Suc (Suc 0)) \<lparr>lp_active = 0, lp_retry_at = t\<rparr> k = [0, 1]" for k
      by (simp add: source_order_def upt_rec)
    ultimately show ?thesis
      by (simp add: work_round_def fork_fields node_state_run io_run here fork_views past_end_def fork_config g run_sources_def at_tick_def)
  qed
  show ?thesis
    using round[of "fork_world\<lparr>wd_store := fork_store, wd_tick := Suc (Suc (Suc (wd_tick fork_world)))\<rparr>" "Suc (Suc (wd_tick fork_world))"] that
    by (auto simp: run_owned_def io_run fork_config(2-5) fork_opening s fork_fields timed_def at_tick_def fork_clock xs ys
        node_state_run fork_views)
qed
lemma fork_ready: "some_order (sc_order (nd_source fork_node))" "chain_ok Bitcoin fork_store" "settled Bitcoin fork_store"
proof -
  show "some_order (sc_order (nd_source fork_node))" by (simp add: some_order_def fork_node_def sample_source_def)
qed code_simp+




theorem reconcile_finds_fork_witness:
  "\<exists>w'. reconcile fork_node fork_rpc 0 fork_state 9 fork_world = (Inr fork_back, w') \<and> st_last fork_back =
     Max {h. 5 \<le> h \<and> h \<le> 7 \<and> h \<le> 9 \<and> 7 \<le> h + 3 \<and> agrees fork_store fork_chain h}"
proof -
  have s: "wd_store fork_world = fork_store" by (simp add: fork_world_def)
  obtain w' where r: "roll_back fork_node fork_rpc 0 fork_state 9 (asked 0 fork_world) = (Inr fork_back, w')"
    by (rule fork_roll_back[of "asked 0 fork_world"]) (use s that in auto)
  have c: "reconcile fork_node fork_rpc 0 fork_state 9 fork_world = (Inr fork_back, w')"
    by (simp add: reconcile_def io_run fork_state_fields fork_block_hash fork_chain_def sample_hash_eq r)
  have "\<not> (st_last fork_state \<le> 9 \<and> fork_chain (st_last fork_state) = st_hash fork_state)"
    by (simp add: fork_state_fields fork_chain_def sample_hash_eq)
  note f = reconcile_finds_fork[OF c fork_steady fork_state_fields(1) this]
  have "st_initialized fork_back \<noteq> 0" by (simp add: fork_back_def rolled_state_def)
  with f have "st_last fork_back = Max {h. 5 \<le> h \<and> h \<le> 7 \<and> h \<le> 9 \<and> 7 \<le> h + 3 \<and> agrees fork_store fork_chain h}"
    by (simp add: Let_def fork_state_fields fork_fields s split: if_splits)
  with c show ?thesis by blast
qed
end
