(* ===== verification/Repair.thy ===== *)
theory Repair
  imports Reorganisation
begin

text \<open>
  The operator's tools over the failure ledger (\<open>dockerizd_bitcoin/src/bitcoin/repair.rs\<close>): the repair of
  selected blocks in order, the scan for gaps, and the options of both. A repair runs the ingestion loop
  for one height; \<open>repair_rounds\<close> rounds of it are enough, which is proved.
\<close>

definition repair_rounds :: nat where
  "repair_rounds = 2"

text \<open>The ingestion of one height, on its own.\<close>

definition repair_node :: "node \<Rightarrow> nat \<Rightarrow> node" where
  "repair_node n h = n\<lparr>nd_config := (nd_config n)\<lparr>ic_end := Some h\<rparr>, nd_once := True, nd_repair := Some h\<rparr>"

text \<open>What becomes of a selected height.\<close>

datatype repair_outcome = Already_canonical | Needs_replay | Not_next nat | Repaired | Not_repaired bool

fun outcome_doc :: "nat \<Rightarrow> repair_outcome \<Rightarrow> json" where
  "outcome_doc h Already_canonical = JObj [(''failure_id'', JStr (failure_id h)), (''status'', JStr ''already_canonical'')]"
| "outcome_doc h Needs_replay = JObj [(''failure_id'', JStr (failure_id h)), (''status'', JStr ''blocked''),
     (''reason'', JStr ''historical_gap_requires_replay'')]"
| "outcome_doc h (Not_next k) = JObj [(''failure_id'', JStr (failure_id h)), (''status'', JStr ''blocked''),
     (''reason'', JStr ''repair_must_start_at_next_unpublished_block''), (''next_block'', jnat k)]"
| "outcome_doc h Repaired = JObj [(''failure_id'', JStr (failure_id h)), (''status'', JStr ''resolved'')]"
| "outcome_doc h (Not_repaired ended) = JObj [(''failure_id'', JStr (failure_id h)), (''status'', JStr ''failed''),
     (''reason'', JStr (if ended then ''no_confirmed_block_available'' else ''attempt_failed''))]"

fun outcome_status :: "repair_outcome \<Rightarrow> string" where
  "outcome_status Needs_replay = ''blocked''"
| "outcome_status (Not_next _) = ''blocked''"
| "outcome_status (Not_repaired _) = ''failed''"
| "outcome_status _ = ''complete''"

definition repair_published :: "node \<Rightarrow> nat \<Rightarrow> sync_state \<Rightarrow> (world, repair_outcome) io" where
  "repair_published n h st =
     io_get (\<lambda>w. healthy h st (wd_store w)) (\<lambda>ok.
     io_get (\<lambda>w. map_option b_hash (canonical_at Bitcoin h (wd_store w))) (\<lambda>found.
     if ok then io_need found ''missing canonical hash'' (\<lambda>hash.
       io_then (timed n (\<lambda>clk. resolved (nd_wh n) clk h hash False)) (\<lambda>_. io_return Already_canonical))
     else io_then (timed n (\<lambda>clk. mark_gap (nd_wh n) clk h found)) (\<lambda>_. io_return Needs_replay)))"

definition repair_next :: "node \<Rightarrow> nat \<Rightarrow> (world, repair_outcome) io" where
  "repair_next n h =
     io_then (timed n (\<lambda>clk. begin_repair (nd_wh n) clk h)) (\<lambda>_.
     io_then (io_try (run_owned (repair_node n h) repair_rounds)) (\<lambda>attempt.
     io_then node_state (\<lambda>after.
     io_get (\<lambda>w. healthy h after (wd_store w)) (\<lambda>ok.
     if ok then io_then (timed n (\<lambda>clk. resolved (nd_wh n) clk h (st_hash after) False)) (\<lambda>_. io_return Repaired)
     else io_then (on_store (current h)) (\<lambda>found.
       io_need found ''repair failure record disappeared'' (\<lambda>row.
       io_then (if e_status row = ''repairing'' then record_at n h None Source False else io_return ()) (\<lambda>_.
       io_return (Not_repaired (is_ok attempt)))))))))"

definition repair_height :: "node \<Rightarrow> nat \<Rightarrow> (world, repair_outcome) io" where
  "repair_height n h =
     io_then node_state (\<lambda>st.
     if st_initialized st = 1 \<and> h \<le> st_last st then repair_published n h st
     else if h \<noteq> next_height_of (nd_config n) st then io_return (Not_next (next_height_of (nd_config n) st))
     else repair_next n h)"

text \<open>The heights in order, until one is not complete.\<close>

fun repair_heights :: "node \<Rightarrow> nat list \<Rightarrow> (world, (nat \<times> repair_outcome) list) io" where
  "repair_heights n [] = io_return []"
| "repair_heights n (h # hs) =
     io_then (repair_height n h) (\<lambda>r.
     if outcome_status r = ''complete'' then io_then (repair_heights n hs) (\<lambda>rs. io_return ((h, r) # rs))
     else io_return [(h, r)])"

definition repair_status :: "(nat \<times> repair_outcome) list \<Rightarrow> string" where
  "repair_status rs = (if rs = [] then ''complete'' else outcome_status (snd (last rs)))"

definition selected_heights :: "string list \<Rightarrow> nat \<Rightarrow> nat list res" where
  "selected_heights ids limit =
     attempt (mapE height_from_id ids) (\<lambda>hs.
     ensure (hs \<noteq> [] \<and> card (set hs) = length ids \<and> 1 \<le> limit \<and> limit \<le> 1000 \<and> card (set hs) \<le> limit)
       ''select unique failure ids within max-blocks (1..1000)'' (Inr (sort (remdups hs))))"

definition repair_report :: "nat \<Rightarrow> sync_state \<Rightarrow> sync_state \<Rightarrow> (nat \<times> repair_outcome) list \<Rightarrow> json" where
  "repair_report chosen prior after rs =
     JObj [(''network_id'', JStr (network_id Bitcoin)), (''status'', JStr (repair_status rs)),
       (''results'', JArr (map (\<lambda>(h, r). outcome_doc h r) rs)), (''selected'', jnat chosen),
       (''checkpoint_changed'', JBool (st_revision prior \<noteq> st_revision after)),
       (''last_synced_block'', if st_initialized after = 1 then jnat (st_last after) else JNull),
       (''revision'', jtext (st_revision after)), (''historical_replay_performed'', JBool False)]"

definition run_repair :: "node \<Rightarrow> string list \<Rightarrow> nat \<Rightarrow> (world, (nat \<times> repair_outcome) list \<times> json) io" where
  "run_repair n ids limit =
     io_attempt (selected_heights ids limit) (\<lambda>heights.
     io_attempt (validate_policy (nd_policy n)) (\<lambda>_.
     io_attempt (validate_pipeline (nd_tuning n)) (\<lambda>_.
     io_get (\<lambda>w. nd_ready n (wd_store w)) (\<lambda>ready. io_attempt ready (\<lambda>_.
     io_then (timed n (\<lambda>clk. recover_interrupted (nd_wh n) clk (nd_policy n))) (\<lambda>_.
     io_then node_state (\<lambda>prior.
     io_ensure (st_revision prior = 0 \<or> st_start prior = ic_start (nd_config n)) ''BITCOIN_START_BLOCK differs from persisted history''
     (io_then (io_for (\<lambda>h. io_then (on_store (current h)) (\<lambda>found.
         io_ensure (found \<noteq> None) ''selected failure does not exist'' (io_return ()))) heights) (\<lambda>_.
      io_then (repair_heights n heights) (\<lambda>rs.
      io_then node_state (\<lambda>after.
      io_return (rs, repair_report (length ids) prior after rs))))))))))))"

text \<open>\<open>scan\<close>: the check for gaps, once the warehouse is ready.\<close>

definition scan_tool :: "node \<Rightarrow> (nat \<Rightarrow> nat \<Rightarrow> nat) \<Rightarrow> nat \<Rightarrow> nat \<Rightarrow> nat \<Rightarrow> (world, nat \<times> string list) io" where
  "scan_tool n clk from till limit =
     io_get (\<lambda>w. nd_ready n (wd_store w)) (\<lambda>ready. io_attempt ready (\<lambda>_.
     on_store (scan_gaps (nd_wh n) clk from till limit)))"

section \<open>Options\<close>

record tool_options =
  to_query :: failure_query
  to_ids :: "string list"
  to_limit :: "nat option"

definition no_options :: tool_options where
  "no_options = \<lparr>to_query = \<lparr>q_status = None, q_from = None, q_to = None, q_after = None, q_limit = None\<rparr>, to_ids = [], to_limit = None\<rparr>"

definition parse_number :: "string \<Rightarrow> nat res" where
  "parse_number v = need (parse_u64 v) ''invalid digit found in string'' Inr"

definition tool_option :: "string \<Rightarrow> string \<Rightarrow> string \<Rightarrow> tool_options \<Rightarrow> tool_options res" where
  "tool_option meth flag v p =
     (if meth = ''failures'' \<and> flag = ''--status'' then Inr (p\<lparr>to_query := (to_query p)\<lparr>q_status := Some v\<rparr>\<rparr>)
      else if meth \<in> {''failures'', ''scan-gaps''} \<and> flag = ''--from-block'' then
        attempt (parse_number v) (\<lambda>k. Inr (p\<lparr>to_query := (to_query p)\<lparr>q_from := Some k\<rparr>\<rparr>))
      else if meth \<in> {''failures'', ''scan-gaps''} \<and> flag = ''--to-block'' then
        attempt (parse_number v) (\<lambda>k. Inr (p\<lparr>to_query := (to_query p)\<lparr>q_to := Some k\<rparr>\<rparr>))
      else if meth = ''failures'' \<and> flag = ''--after-block'' then
        attempt (parse_number v) (\<lambda>k. Inr (p\<lparr>to_query := (to_query p)\<lparr>q_after := Some k\<rparr>\<rparr>))
      else if meth = ''failures'' \<and> flag = ''--limit'' then
        attempt (parse_number v) (\<lambda>k. Inr (p\<lparr>to_query := (to_query p)\<lparr>q_limit := Some k\<rparr>\<rparr>))
      else if meth = ''repair'' \<and> flag = ''--failure-id'' then
        attempt (height_from_id v) (\<lambda>_. Inr (p\<lparr>to_ids := to_ids p @ [v]\<rparr>))
      else if meth \<in> {''repair'', ''scan-gaps''} \<and> flag = ''--max-blocks'' then
        attempt (parse_number v) (\<lambda>k. Inr (p\<lparr>to_limit := Some k\<rparr>))
      else Inl ''unsupported tool option'')"

fun tool_pairs :: "string \<Rightarrow> string list \<Rightarrow> string set \<Rightarrow> tool_options \<Rightarrow> tool_options res" where
  "tool_pairs meth (flag # v # args) seen p =
     ensure (flag = ''--failure-id'' \<or> flag \<notin> seen) ''duplicate tool option''
     (attempt (tool_option meth flag v p) (tool_pairs meth args (insert flag seen)))"
| "tool_pairs meth _ seen p = Inr p"

definition check_options :: "string \<Rightarrow> tool_options \<Rightarrow> unit res" where
  "check_options meth p =
     (if meth = ''repair'' then
        ensure (to_ids p \<noteq> [] \<and> length (to_ids p) \<le> 1000) ''repair requires unique --failure-id values and --max-blocks 1..1000''
        (need (to_limit p) ''repair requires --max-blocks'' (\<lambda>limit.
         ensure (length (to_ids p) \<le> limit \<and> 1 \<le> limit \<and> limit \<le> 1000 \<and> distinct (to_ids p))
           ''repair requires unique --failure-id values and --max-blocks 1..1000'' (Inr ())))
      else if meth = ''scan-gaps'' then
        need (q_from (to_query p)) ''scan-gaps requires --from-block'' (\<lambda>from.
        need (q_to (to_query p)) ''scan-gaps requires --to-block'' (\<lambda>till.
        need (to_limit p) ''scan-gaps requires --max-blocks'' (\<lambda>limit.
        ensure (1 \<le> limit \<and> limit \<le> 10000 \<and> wrapping_sub64 till from < limit) ''gap scan exceeds max-blocks (1..10000)'' (Inr ()))))
      else if meth = ''failures'' then Inr () else Inl ''unknown failure tool'')"

definition parse_options :: "string \<Rightarrow> string list \<Rightarrow> tool_options res" where
  "parse_options meth args =
     ensure (even (length args)) ''tool options require a value''
     (attempt (tool_pairs meth args {} no_options) (\<lambda>p.
      attempt (validate_query (to_query p)) (\<lambda>_.
      attempt (check_options meth p) (\<lambda>_. Inr p))))"

section \<open>Repairs only extend the chain\<close>

lemma leads_begin_repair: "leads same_chain (begin_repair w clk h)"
  unfolding begin_repair_def Let_def by (intro ledger_steps)

lemma leads_mark_gap: "leads same_chain (mark_gap w clk h hash)"
  unfolding mark_gap_def by (intro ledger_steps)

text \<open>The blocks a repair adds are confirmed, whatever the configured end.\<close>

abbreviation open_config :: "node \<Rightarrow> ingest_config" where
  "open_config n \<equiv> (nd_config n)\<lparr>ic_end := None\<rparr>"

lemma fine_open: "fine (cfg\<lparr>ic_end := e\<rparr>) s t \<Longrightarrow> fine (cfg\<lparr>ic_end := None\<rparr>) s t"
  by (auto simp: fine_def extends_def confirmed_def Let_def)

lemma same_fine: "same_chain s t \<Longrightarrow> fine cfg s0 s \<Longrightarrow> fine cfg s0 t"
  using same_sound same_chain_extends extends_trans by (auto simp: fine_def)

lemma runs_read: "(\<And>x. runs P (k x) Q E) \<Longrightarrow> runs P (io_get f k) Q E"
  by (auto simp: runs_def io_get_def)

abbreviation at_open :: "node \<Rightarrow> store \<Rightarrow> world \<Rightarrow> bool" where
  "at_open n s0 w \<equiv> fine (open_config n) s0 (wd_store w)"

lemma runs_open_ledger:
  assumes "\<And>clk. leads same_chain (f clk)"
  shows "runs (at_open n s0) (timed n' f) (\<lambda>_. at_open n s0) (at_open n s0)"
  by (rule runs_timed) (rule runs_same[OF assms same_fine])

lemma runs_repair_node:
  assumes "some_order (sc_order (nd_source n))"
  shows "runs (at_open n s0) (run_owned (repair_node n h) k) (\<lambda>_. at_open n s0) (at_open n s0)"
proof (rule runs_fixed)
  fix s
  assume f: "fine (open_config n) s0 s"
  let ?n = "repair_node n h"
  have "fine (nd_config ?n) s s" using f by (simp add: fine_def extends_refl)
  then have "runs (\<lambda>w. wd_store w = s) (run_owned ?n k) (\<lambda>_ w. fine (nd_config ?n) s (wd_store w)) (\<lambda>w. fine (nd_config ?n) s (wd_store w))"
    using assms by (intro runs_pre[OF runs_owned[OF repair_sources]]) (auto simp: repair_node_def)
  then show "runs (\<lambda>w. wd_store w = s) (run_owned ?n k) (\<lambda>_. at_open n s0) (at_open n s0)"
    by (rule runs_weaken) (auto simp: repair_node_def intro: fine_trans[OF f] fine_open)
qed

lemma runs_record_open: "runs (at_open n s0) (record_at n' h hash st b) (\<lambda>_. at_open n s0) (at_open n s0)"
  unfolding record_at_def by (rule runs_then[OF runs_open_ledger[OF leads_record]]) (rule runs_return)

lemma runs_current_open: "runs (at_open n s0) (on_store (current h)) (\<lambda>_. at_open n s0) (at_open n s0)"
  by (rule runs_on_store) (rule runs_same[OF leads_current same_fine])

lemma runs_repair_height:
  assumes "some_order (sc_order (nd_source n))"
  shows "runs (at_open n s0) (repair_height n h) (\<lambda>_. at_open n s0) (at_open n s0)"
proof -
  have t: "runs (at_open n s0) (io_try (run_owned (repair_node n h) k)) (\<lambda>_. at_open n s0) E" for k E
    by (rule runs_post[OF runs_try[OF runs_repair_node[OF assms]]]) (simp split: sum.splits)
  have p: "runs (at_open n s0) (repair_published n h st) (\<lambda>_. at_open n s0) (at_open n s0)" for st
    unfolding repair_published_def
    by (intro runs_read runs_if runs_need runs_then[OF runs_open_ledger] runs_return leads_resolved leads_mark_gap)
  have rec: "runs (at_open n s0) (if c then record_at n h x g b else io_return ()) (\<lambda>_. at_open n s0) (at_open n s0)" for c x g b
    by (intro runs_if runs_record_open runs_return)
  have q: "runs (at_open n s0) (repair_next n h) (\<lambda>_. at_open n s0) (at_open n s0)"
    unfolding repair_next_def
    by (intro runs_then[OF runs_open_ledger] runs_then[OF t] runs_then[OF runs_state_of] runs_read runs_if runs_return
        runs_then[OF runs_current_open] runs_need runs_then[OF rec] leads_begin_repair leads_resolved)
  show ?thesis
    unfolding repair_height_def by (intro runs_then[OF runs_state_of] runs_if p q runs_return)
qed

lemma runs_repair_heights:
  assumes "some_order (sc_order (nd_source n))"
  shows "runs (at_open n s0) (repair_heights n hs) (\<lambda>_. at_open n s0) (at_open n s0)"
  by (induction hs) (auto intro!: runs_return runs_then[OF runs_repair_height[OF assms]] runs_then)

section \<open>Reported heights are published\<close>

lemma extends_keeps:
  assumes "extends cfg s t" "canonical_at Bitcoin h s = Some b"
  shows "canonical_at Bitcoin h t = Some b"
proof -
  have "st_initialized (current_state Bitcoin s) = 1 \<and> h \<le> st_last (current_state Bitcoin s)"
  proof (cases "sync_row Bitcoin s")
    case None
    with assms(2) show ?thesis by (simp add: canonical_at_def)
  next
    case (Some c)
    from assms(2) show ?thesis unfolding canonical_at_iff[OF Some] sync_row_current(1)[OF Some] by simp
  qed
  with assms show ?thesis by (auto simp: extends_def Let_def)
qed

lemma healthy_canonical: "healthy h st s \<Longrightarrow> canonical_at Bitcoin h s \<noteq> None"
  by (auto simp: healthy_def split: if_splits option.splits)

lemma healthy_resolved:
  assumes "healthy h st (wd_store u)" "timed m (\<lambda>clk. resolved x clk k hash b) u = (Inr y, v)"
  shows "canonical_at Bitcoin h (wd_store v) \<noteq> None"
proof -
  from assms(2) obtain clk t where "resolved x clk k hash b (wd_store u) = (Inr y, t)" "wd_store v = t"
    by (auto simp: timed_def at_tick_def on_store_def io_simps)
  with leadsD[OF leads_resolved] same_chain_views(2) healthy_canonical[OF assms(1)] show ?thesis by metis
qed

text \<open>What holds of a report at a store.\<close>

definition truthful :: "store \<Rightarrow> nat list \<Rightarrow> (nat \<times> repair_outcome) list \<Rightarrow> bool" where
  "truthful s hs rs \<longleftrightarrow> (\<exists>k \<le> length hs. map fst rs = take k hs) \<and>
     (\<forall>(h, r) \<in> set (butlast rs). outcome_status r = ''complete'') \<and>
     (repair_status rs = ''complete'' \<longrightarrow> map fst rs = hs) \<and>
     (\<forall>(h, r) \<in> set rs. outcome_status r = ''complete'' \<longrightarrow> canonical_at Bitcoin h s \<noteq> None)"

lemma repair_height_published:
  assumes "repair_height n h w = (Inr r, w')" "outcome_status r = ''complete''"
    and "some_order (sc_order (nd_source n))" "sound (wd_store w)"
  shows "canonical_at Bitcoin h (wd_store w') \<noteq> None"
proof -
  from assms(1,2) show ?thesis
    by (auto simp: repair_height_def repair_published_def repair_next_def io_simps node_state_run split: if_splits
        dest: healthy_resolved)
qed

lemma repair_heights_truthful:
  assumes "repair_heights n hs w = (Inr rs, w')" "some_order (sc_order (nd_source n))" "sound (wd_store w)"
  shows "truthful (wd_store w') hs rs"
  using assms(1,3)
proof (induction hs arbitrary: w rs)
  case Nil
  then show ?case by (simp add: truthful_def repair_status_def io_simps)
next
  case (Cons h hs)
  from Cons.prems(1) obtain r w1 where r: "repair_height n h w = (Inr r, w1)" and
    rest: "(if outcome_status r = ''complete'' then io_then (repair_heights n hs) (\<lambda>rs. io_return ((h, r) # rs))
     else io_return [(h, r)]) w1 = (Inr rs, w')" by (auto simp: io_simps)
  have f: "fine (open_config n) (wd_store w) (wd_store w)" using Cons.prems(2) by (simp add: fine_def extends_refl)
  from runsD(1)[OF runs_repair_height[OF assms(2)] f r] have s1: "sound (wd_store w1)" by (simp add: fine_def)
  show ?case
  proof (cases "outcome_status r = ''complete''")
    case True
    with rest obtain rs' where rs: "repair_heights n hs w1 = (Inr rs', w')" "rs = (h, r) # rs'" by (auto simp: io_simps)
    have f1: "fine (open_config n) (wd_store w1) (wd_store w1)" using s1 by (simp add: fine_def extends_refl)
    have "extends (open_config n) (wd_store w1) (wd_store w')"
      using runsD(1)[OF runs_repair_heights[OF assms(2)] f1 rs(1)] by (simp add: fine_def)
    moreover have "canonical_at Bitcoin h (wd_store w1) \<noteq> None" by (rule repair_height_published[OF r True assms(2) Cons.prems(2)])
    ultimately have h: "canonical_at Bitcoin h (wd_store w') \<noteq> None" using extends_keeps by blast
    from Cons.IH[OF rs(1) s1] have t: "truthful (wd_store w') hs rs'" .
    then obtain k where k: "k \<le> length hs" "map fst rs' = take k hs" by (auto simp: truthful_def)
    have "\<exists>k \<le> length (h # hs). map fst rs = take k (h # hs)" using k rs(2) by (intro exI[of _ "Suc k"]) simp
    then show ?thesis using t h True rs(2) by (auto simp: truthful_def repair_status_def split: if_splits)
  next
    case False
    with rest have "rs = [(h, r)]" by (simp add: io_simps)
    with False show ?thesis by (auto simp: truthful_def repair_status_def intro: exI[of _ 1])
  qed
qed

lemma selected_ok:
  assumes "selected_heights ids limit = Inr hs"
  shows "sorted hs \<and> distinct hs \<and> set ids = failure_id ` set hs \<and> length hs \<le> 1000"
proof -
  from assms obtain xs where x: "mapE height_from_id ids = Inr xs" "hs = sort (remdups xs)" "card (set xs) \<le> 1000"
    by (auto simp: selected_heights_def ok_simps)
  have "list_all2 (\<lambda>i h. height_from_id i = Inr h) ids xs" using x(1) by (simp add: mapE_ok)
  then have "list_all2 (\<lambda>i h. i = failure_id h) ids xs" by (rule list_all2_mono) (auto simp: height_from_id_def ok_simps)
  then have "ids = map failure_id xs" by (induction) auto
  with x show ?thesis by (simp add: length_remdups_card_conv)
qed

lemma runs_selection:
  "runs (at_open n s0) (io_for (\<lambda>h. io_then (on_store (current h)) (\<lambda>found.
     io_ensure (found \<noteq> None) ''selected failure does not exist'' (io_return ()))) hs) (\<lambda>_. at_open n s0) (at_open n s0)"
  by (intro runs_for runs_then[OF runs_current_open] runs_ensure runs_return)



section \<open>A repair of one height ends\<close>

lemma commit_sets:
  assumes "commit_block n st block found head w = (Inr new, w')"
  shows "current_state Bitcoin (wd_store w') = new \<and> st_initialized new = 1 \<and> as_u64 (field block ''height'') = Some (st_last new)"
proof -
  from assms obtain height lb ev wc clk t where h: "as_u64 (field block ''height'') = Some height" and
    r: "write_block (nd_map n) (nd_wh n) clk st lb ev wc (wd_store w) = (Inr new, t)" "lb_height lb = height" "wd_store w' = t"
    by (auto simp: commit_block_def timed_def at_tick_def on_store_def io_simps)
  obtain ver u where "new = written_state clk st lb wc ver" "publish (nd_wh n) Bitcoin st new u = (Inr (), t)"
    by (rule write_block_ok[OF r(1)]) (rule that)
  with publish_current r h show ?thesis by (auto simp: written_state_def)
qed

lemma commit_recorded_sets:
  assumes "commit_recorded n st block found head w = (Inr new, w')"
  shows "current_state Bitcoin (wd_store w') = new \<and> st_initialized new = 1 \<and> as_u64 (field block ''height'') = Some (st_last new)"
proof -
  from assms obtain u where c: "commit_block n st block found head w = (Inr new, u)" and
    r: "timed n (\<lambda>clk. resolved (nd_wh n) clk (st_last new) (st_hash new) (unforced n)) u = (Inr (), w')"
    by (auto simp: commit_recorded_def io_then_ok io_try_def io_need_ok io_fail_ok io_return_ok split: prod.splits sum.splits)
  from r obtain clk t where "resolved (nd_wh n) clk (st_last new) (st_hash new) (unforced n) (wd_store u) = (Inr (), t)" "wd_store w' = t"
    by (auto simp: timed_def at_tick_def on_store_def io_simps)
  with leadsD[OF leads_resolved] same_chain_views(1) commit_sets[OF c] show ?thesis by metis
qed

lemma ingest_step:
  assumes "ingest_blocks n c i head (block # bs) st w = (Inr r, w')"
  shows "r = Waits \<and> \<not> nd_once n \<or> (\<exists>e. r = Next e) \<or>
    (\<exists>found u new v. commit_recorded n st block found head u = (Inr new, v) \<and> ingest_blocks n c i head bs new v = (Inr r, w'))"
proof -
  from assms obtain reason u where "window_gate n block w = (Inr reason, u)" and
    r: "(case reason of Some reason \<Rightarrow> if nd_once n then io_fail (''ingestion blocked by '' @ reason) else io_return Waits
     | None \<Rightarrow>
         io_then (io_try (prepare_block n c i st block)) (\<lambda>r. case r of
           Inl e \<Rightarrow>
             io_need (as_u64 (field block ''height'')) ''missing failure height'' (\<lambda>height.
             io_then (record_at n height (as_str (field block ''hash'')) Resolve (unforced n)) (\<lambda>_. io_return (Next e)))
         | Inr found \<Rightarrow> io_then (commit_recorded n st block found head) (ingest_blocks n c i head bs))) u = (Inr r, w')"
    unfolding ingest_blocks.simps io_then_ok by blast
  show ?thesis
  proof (cases reason)
    case None
    with r obtain p v where "io_try (prepare_block n c i st block) u = (Inr p, v)" and
      q: "(case p of Inl e \<Rightarrow>
             io_need (as_u64 (field block ''height'')) ''missing failure height'' (\<lambda>height.
             io_then (record_at n height (as_str (field block ''hash'')) Resolve (unforced n)) (\<lambda>_. io_return (Next e)))
         | Inr found \<Rightarrow> io_then (commit_recorded n st block found head) (ingest_blocks n c i head bs)) v = (Inr r, w')"
      by (auto simp: io_then_ok)
    show ?thesis
    proof (cases p)
      case (Inl e)
      with q show ?thesis by (auto simp: io_need_ok io_then_ok io_return_ok)
    next
      case (Inr found)
      with q show ?thesis by (auto simp: io_then_ok)
    qed
  qed (use r in \<open>auto simp: io_return_ok io_fail_ok split: if_splits\<close>)
qed

lemma ingest_one:
  assumes "ingest_blocks n c i head [block] st w = (Inr Committed, w')"
  shows "st_initialized (current_state Bitcoin (wd_store w')) = 1 \<and>
    as_u64 (field block ''height'') = Some (st_last (current_state Bitcoin (wd_store w')))"
  using ingest_step[OF assms] by (auto simp: io_return_ok dest!: commit_recorded_sets)

lemma ingest_once: "ingest_blocks n c i head bs st w = (Inr r, w') \<Longrightarrow> nd_once n \<Longrightarrow> r \<noteq> Waits"
proof (induction bs arbitrary: st w)
  case (Cons block bs)
  from ingest_step[OF Cons.prems(1)] Cons.IH[OF _ Cons.prems(2)] Cons.prems(2) show ?case by blast
qed (simp add: io_return_ok)

text \<open>An attempt of a repair commits its block or does not go on.\<close>

lemma repair_attempt:
  assumes "try_source (repair_node n h) i w = (Inr r, w')" "some_order (sc_order (nd_source n))"
  shows "r \<noteq> Waits \<and> (r = Committed \<longrightarrow> past_end (nd_config (repair_node n h)) (current_state Bitcoin (wd_store w')))"
proof -
  let ?n = "repair_node n h"
  have o: "nd_once ?n" "nd_repair ?n = Some h" "nd_source ?n = nd_source n" "ic_end (nd_config ?n) = Some h" by (simp_all add: repair_node_def)
  have f: "r \<noteq> Waits \<and> (r = Committed \<longrightarrow> past_end (nd_config ?n) (current_state Bitcoin (wd_store w')))"
    if run: "fetch_recorded ?n c i st head u = (Inr r, w')" for c st head u
  proof (cases "r = Over \<or> (\<exists>e. r = Next e)")
    case False
    with run obtain till u1 window where nx: "h = next_height_of (nd_config ?n) st" and
      t: "window_end (nd_config ?n) head = Some till" "h \<le> till" and
      fb: "fetch_blocks (nd_source n) c i h till (pc_block_batch (nd_tuning ?n)) (pc_block_tasks (nd_tuning ?n)) (ic_verbosity (nd_config ?n)) u = (Inr window, u1)" and
      ib: "ingest_blocks ?n c i head window st u1 = (Inr r, w')"
      using o
      by (auto simp: fetch_recorded_def Let_def io_ensure_ok io_then_ok io_try_def io_return_ok split: option.splits if_splits prod.splits sum.splits)
    have "till = h" using t o(4) by (auto simp: window_end_def)
    moreover have "1 \<le> pc_block_batch (nd_tuning ?n)" using fb by (auto simp: fetch_blocks_def Let_def io_ensure_ok)
    ultimately have l: "length window = 1" and k: "as_u64 (field (window ! 0) ''height'') = Some h"
      using fetch_blocks_ok[OF fb assms(2)] by auto
    then obtain block where b: "window = [block]" by (cases window) auto
    have "r \<noteq> Waits" by (rule ingest_once[OF ib o(1)])
    moreover have "past_end (nd_config ?n) (current_state Bitcoin (wd_store w'))" if "r = Committed"
      using ingest_one[of ?n c i head block st u1 w'] ib that k b o(4) by (auto simp: past_end_def)
    ultimately show ?thesis by blast
  qed auto
  show ?thesis
  proof (cases "r = Over \<or> (\<exists>e. r = Next e)")
    case False
    with assms(1) show ?thesis
      by (auto simp: try_source_def Let_def node_state_run io_ensure_ok io_then_ok io_try_def io_return_ok o
          split: if_splits prod.splits sum.splits dest!: f)
  qed auto
qed
lemma repair_sources_round:
  assumes "try_sources (repair_node n h) lp is err w = (Inr (Some lp'), w')" "some_order (sc_order (nd_source n))"
  shows "past_end (nd_config (repair_node n h)) (current_state Bitcoin (wd_store w'))"
  using assms(1)
proof (induction "is" arbitrary: err w)
  case Nil
  then show ?case by (simp add: repair_node_def io_fail_ok)
next
  case (Cons i "is")
  from Cons.prems obtain r u where t: "try_source (repair_node n h) i w = (Inr r, u)" and
    m: "(case r of Over \<Rightarrow> io_return None | Waits \<Rightarrow> io_return (Some lp)
     | Committed \<Rightarrow> at_tick (\<lambda>k. io_return (Some (loop_after (repair_node n h) lp i (nd_instant (repair_node n h) k))))
     | Next e \<Rightarrow> try_sources (repair_node n h) lp is (Some e)) u = (Inr (Some lp'), w')"
    by (auto simp: io_then_ok)
  from repair_attempt[OF t assms(2)] have a: "r \<noteq> Waits"
    "r = Committed \<Longrightarrow> past_end (nd_config (repair_node n h)) (current_state Bitcoin (wd_store u))" by blast+
  show ?case
  proof (cases r)
    case Committed
    with m have "wd_store w' = wd_store u" by (auto simp: at_tick_def io_simps)
    with a(2)[OF Committed] show ?thesis by simp
  next
    case (Next e)
    with m Cons.IH show ?thesis by simp
  qed (use m a in \<open>simp_all add: io_return_ok\<close>)
qed

lemma past_end_stops:
  assumes "try_sources n lp is err w = (Inr r, w')" "past_end (nd_config n) (current_state Bitcoin (wd_store w))" "nd_once n"
  shows "r = None"
proof (cases "is")
  case Nil
  with assms show ?thesis by (simp add: io_fail_ok)
next
  case (Cons i js)
  with assms(1) obtain x u where t: "try_source n i w = (Inr x, u)" and
    m: "(case x of Over \<Rightarrow> io_return None | Waits \<Rightarrow> io_return (Some lp)
     | Committed \<Rightarrow> at_tick (\<lambda>k. io_return (Some (loop_after n lp i (nd_instant n k))))
     | Next e \<Rightarrow> try_sources n lp js (Some e)) u = (Inr r, w')"
    by (auto simp: io_then_ok)
  from t assms(2) have "x = Over" by (auto simp: try_source_def node_state_run io_then_ok io_ensure_ok io_return_ok)
  with m show ?thesis by (simp add: io_return_ok)
qed

text \<open>C21: the ingestion of one height that a repair starts does not go on for ever: within the rounds it is given
  it ends or fails.\<close>

theorem repair_rounds_suffice:
  assumes "run_owned (repair_node n h) repair_rounds w = (Inr ended, w')" "some_order (sc_order (nd_source n))"
  shows "ended"
proof -
  let ?n = "repair_node n h"
  have f: "\<not> unforced ?n" "nd_once ?n" by (simp_all add: repair_node_def)
  from assms(1) obtain lp u where r: "run_rounds ?n (Suc (Suc 0)) lp u = (Inr ended, w')"
    by (auto simp: run_owned_def at_tick_def io_simps repair_rounds_def numeral_2_eq_2)
  then obtain x v where x: "work_round ?n lp u = (Inr x, v)" and
    t: "(case x of None \<Rightarrow> io_return True | Some lp' \<Rightarrow> run_rounds ?n (Suc 0) lp') v = (Inr ended, w')"
    by (auto simp: io_then_ok)
  show ?thesis
  proof (cases x)
    case None
    with t show ?thesis by (simp add: io_return_ok)
  next
    case (Some lp')
    from x f(1) obtain order err u' where "try_sources ?n lp order err u' = (Inr (Some lp'), v)"
      by (auto simp: work_round_def run_sources_def at_tick_def Some io_get_ok io_then_ok)
    note p = repair_sources_round[OF this assms(2)]
    from t Some obtain y v' where y: "work_round ?n lp' v = (Inr y, v')" and
      e: "(case y of None \<Rightarrow> io_return True | Some lp' \<Rightarrow> run_rounds ?n 0 lp') v' = (Inr ended, w')"
      by (auto simp: io_then_ok)
    from y f(1) obtain order err v1 where s: "try_sources ?n lp' order err v1 = (Inr y, v')" "wd_store v1 = wd_store v"
      by (auto simp: work_round_def run_sources_def at_tick_def io_simps)
    have "y = None" using past_end_stops[OF s(1)] p s(2) f(2) by simp
    with e show ?thesis by (simp add: io_return_ok)
  qed
qed

section \<open>Options\<close>

text \<open>Accepted options of a gap scan give both ends of a range of at most 10000 heights, whose length is
  computed without wrapping; those of a repair name at most 1000 different failures, no more than the limit.\<close>

theorem tool_options_bounded:
  assumes "parse_options meth args = Inr p"
  shows "if meth = ''scan-gaps'' then (\<exists>from till limit. q_from (to_query p) = Some from \<and> q_to (to_query p) = Some till \<and>
       to_limit p = Some limit \<and> from \<le> till \<and> till - from < limit \<and> limit \<le> 10000)
     else if meth = ''repair'' then (\<exists>limit. to_limit p = Some limit \<and> limit \<le> 1000 \<and> to_ids p \<noteq> [] \<and>
       length (to_ids p) \<le> limit \<and> distinct (to_ids p))
     else meth = ''failures''"
proof -
  from assms have q: "validate_query (to_query p) = Inr ()" "check_options meth p = Inr ()"
    by (auto simp: parse_options_def ok_simps)
  show ?thesis
  proof (cases "meth = ''scan-gaps''")
    case True
    with q(2) obtain a b k where "q_from (to_query p) = Some a" "q_to (to_query p) = Some b" "to_limit p = Some k"
      "k \<le> 10000" "wrapping_sub64 b a < k" by (auto simp: check_options_def ok_simps)
    with q(1) True show ?thesis by (auto simp: validate_query_def ok_simps or_else_def wrapping_sub64_def)
  next
    case False
    with q(2) show ?thesis by (auto simp: check_options_def ok_simps split: if_splits)
  qed
qed

theorem tool_options_bounded_witness:
  "\<exists>p. parse_options ''scan-gaps'' [''--from-block'', ''5'', ''--max-blocks'', ''9'', ''--to-block'', ''7''] = Inr p \<and>
     (\<exists>from till limit. q_from (to_query p) = Some from \<and> q_to (to_query p) = Some till \<and> to_limit p = Some limit \<and>
        from \<le> till \<and> till - from < limit \<and> limit \<le> 10000)"
proof -
  have "is_ok (parse_options ''scan-gaps'' [''--from-block'', ''5'', ''--max-blocks'', ''9'', ''--to-block'', ''7''])" by code_simp
  then obtain p where p: "parse_options ''scan-gaps'' [''--from-block'', ''5'', ''--max-blocks'', ''9'', ''--to-block'', ''7''] = Inr p"
    by (auto simp: is_ok_iff)
  from tool_options_bounded[OF p] p show ?thesis by simp
qed

text \<open>The repair of height 5 of an empty warehouse, which no endpoint confirms yet.\<close>

lemma blank_views: "current_state Bitcoin (wd_store blank_world) = empty_state Bitcoin"
  by code_simp

lemma repair_fields: "nd_config (repair_node n h) = (nd_config n)\<lparr>ic_end := Some h\<rparr>" "nd_once (repair_node n h)"
    "nd_repair (repair_node n h) = Some h" "nd_pool (repair_node n h) = nd_pool n" "nd_policy (repair_node n h) = nd_policy n"
    "nd_tuning (repair_node n h) = nd_tuning n" "nd_ready (repair_node n h) = nd_ready n" "nd_instant (repair_node n h) = nd_instant n"
  by (simp_all add: repair_node_def)

theorem repair_rounds_suffice_witness:
  "\<exists>w'. run_owned (repair_node fork_node 5) repair_rounds blank_world = (Inr True, w')"
proof -
  let ?n = "repair_node fork_node 5"
  have chk: "check_source ?n fork_rpc 0 (empty_state Bitcoin) u = (Inr 9, asked 0 (asked 0 (asked 0 u)))" for u
    by (simp add: check_source_def io_run fork_valid fork_height empty_state_def u32_lim_def)
  have fetch: "fetch_recorded ?n fork_rpc 0 (empty_state Bitcoin) 9 u = (Inr Over, u)" for u
  proof -
    have "next_height_of (nd_config ?n) (empty_state Bitcoin) = 5" "window_end (nd_config ?n) 9 = Some 4" by code_simp+
    then show ?thesis by (simp add: fetch_recorded_def io_run repair_fields)
  qed
  have src: "\<exists>w'. try_source ?n 0 w = (Inr Over, w')" if "current_state Bitcoin (wd_store w) = empty_state Bitcoin" for w
  proof -
    have "past_end (nd_config ?n) (empty_state Bitcoin) = False" by (simp add: past_end_def empty_state_def)
    moreover have "st_revision (empty_state Bitcoin) = 0" by (simp add: empty_state_def)
    ultimately show ?thesis
      by (simp add: try_source_def node_state_run io_run that chk fetch Let_def repair_fields fork_fields)
  qed
  have ok: "\<exists>w'. run_rounds ?n (Suc (Suc 0)) \<lparr>lp_active = 0, lp_retry_at = t\<rparr> w = (Inr True, w')"
    if here: "current_state Bitcoin (wd_store w) = empty_state Bitcoin" for w t
  proof -
    have "source_order (Suc (Suc 0)) \<lparr>lp_active = 0, lp_retry_at = t\<rparr> k = [0, Suc 0]" for k
      by (simp add: source_order_def upt_rec)
    moreover obtain w' where "try_source ?n 0 (w\<lparr>wd_tick := Suc (wd_tick w)\<rparr>) = (Inr Over, w')"
      using src[of "w\<lparr>wd_tick := Suc (wd_tick w)\<rparr>"] here by auto
    ultimately show ?thesis by (simp add: io_run work_round_def run_sources_def at_tick_def repair_fields fork_fields)
  qed
  have range: "validate_range (nd_config ?n) = Inr ()" by code_simp
  obtain w' where w': "run_rounds ?n (Suc (Suc 0)) \<lparr>lp_active = 0, lp_retry_at = wd_tick blank_world\<rparr> (blank_world\<lparr>wd_tick := Suc (wd_tick blank_world)\<rparr>) = (Inr True, w')"
    using ok[of "blank_world\<lparr>wd_tick := Suc (wd_tick blank_world)\<rparr>"] blank_views by auto
  have "run_owned ?n repair_rounds blank_world = (Inr True, w')"
    using range w' fork_opening(1,2) by (simp add: run_owned_def io_run repair_fields fork_config at_tick_def repair_rounds_def numeral_2_eq_2)
  moreover from this have True
    using repair_rounds_suffice[of fork_node 5 blank_world True w'] fork_ready(1) by blast
  ultimately show ?thesis by blast
qed

text \<open>A published block whose failure is still open.\<close>

definition open_failure :: failure where
  "open_failure = record_row 1 6 None Source default_policy 1 7 None"

definition repair_world :: world where
  "repair_world = fork_world\<lparr>wd_store := fork_store\<lparr>failures := [open_failure],
     blocks := map (\<lambda>b. b\<lparr>b_tx_count := 0\<rparr>) (blocks fork_store)\<rparr>\<rparr>"

lemma repair_ready: "chain_ok Bitcoin (wd_store repair_world)" "settled Bitcoin (wd_store repair_world)"
  by code_simp+

definition repair_doc :: json where
  "repair_doc = repair_report 1 fork_state fork_state [(6, Already_canonical)]"

lemma repair_views: "current_state Bitcoin (wd_store repair_world) = fork_state"
    "healthy 6 fork_state (wd_store repair_world)"
    "map_option b_hash (canonical_at Bitcoin 6 (wd_store repair_world)) = Some (sample_hash (CHR ''6''))"
    "current_failure (failure_id 6) (wd_store repair_world) = Some open_failure"
    "recover_interrupted demo_wh (\<lambda>_. 1000) default_policy (wd_store repair_world) = (Inr (), wd_store repair_world)"
    "selected_heights [''bitcoin:block:6''] 1 = Inr [6]"
  by code_simp+

lemma repair_settles:
  obtains t where "resolved demo_wh (\<lambda>_. 1000) 6 (sample_hash (CHR ''6'')) False (wd_store repair_world) = (Inr (), t)"
    "current_state Bitcoin t = fork_state"
proof -
  let ?r = "resolved demo_wh (\<lambda>_. 1000) 6 (sample_hash (CHR ''6'')) False (wd_store repair_world)"
  have "is_ok (fst ?r)" by code_simp
  then obtain t where r: "?r = (Inr (), t)" by (auto simp: is_ok_iff prod_eq_iff)
  from leadsD[OF leads_resolved r] same_chain_views(1) repair_views(1) have "current_state Bitcoin t = fork_state" by metis
  with r that show ?thesis by blast
qed

lemma sample_repair:
  obtains w' where "run_repair fork_node [''bitcoin:block:6''] 1 repair_world = (Inr ([(6, Already_canonical)], repair_doc), w')"
proof -
  obtain t where t: "resolved demo_wh (\<lambda>_. 1000) 6 (sample_hash (CHR ''6'')) False (wd_store repair_world) = (Inr (), t)"
    "current_state Bitcoin t = fork_state" by (rule repair_settles)
  let ?w = "\<lambda>k. repair_world\<lparr>wd_tick := k\<rparr>"
  have "repair_height fork_node 6 (?w k) = (Inr Already_canonical, repair_world\<lparr>wd_tick := Suc k, wd_store := t\<rparr>)" for k
    using repair_views(3) t(1)
    by (auto simp: repair_height_def node_state_run io_run repair_views(1,2) fork_state_fields repair_published_def timed_def at_tick_def
        fork_clock fork_fields)
  then show ?thesis
    using repair_views(4-6) fork_opening(1,2) t(2)
    by (intro that[of "repair_world\<lparr>wd_tick := Suc (Suc (wd_tick repair_world)), wd_store := t\<rparr>"])
      (simp add: run_repair_def io_run fork_config(2-5) fork_fields timed_def at_tick_def fork_clock node_state_run repair_views(1)
        fork_state_fields current_def u32_lim_def repair_doc_def, simp add: fork_config)
qed



end
