(* ===== verification/Row_Types.thy ===== *)
theory Row_Types
  imports Row_Rules
begin

text \<open>
  The column types of the warehouse as sets of values, and what \<open>validate_row\<close> promises of them: an
  accepted row has exactly the columns of its table, and each holds a value of its type.
\<close>

definition scalar_type :: "row_lib \<Rightarrow> string \<Rightarrow> json set" where
  "scalar_type lib t =
     (if t \<in> {''String'', ''LowCardinality(String)''} then range JStr
      else if t = ''UInt256'' then {JStr (show_nat n) |n. n < 2 ^ 256}
      else if t \<in> {''UInt8'', ''UInt32'', ''UInt64''} then {v. \<exists>n. as_u64 v = Some n \<and> n \<le> uint_max t}
      else if t = ''Float64'' then {JNum x |x. rl_f64 lib x \<noteq> None}
      else if t = ''Array(String)'' then JArr ` lists (range JStr)
      else if t = ''Array(UInt32)'' then JArr ` lists {v. \<exists>n. as_u64 v = Some n \<and> n \<le> uint_max ''UInt32''}
      else {})"

function column_type :: "row_lib \<Rightarrow> string \<Rightarrow> json set" where
  "column_type lib t =
     (case nullable_of t of Some u \<Rightarrow> insert JNull (column_type lib u) | None \<Rightarrow> scalar_type lib t)"
  by pat_completeness auto
termination
  by (relation "measure (\<lambda>(lib, t). length t)") (auto dest: nullable_shorter)

declare column_type.simps [simp del]

lemma check_uint_iff: "check_uint t v = Inr () \<longleftrightarrow> (\<exists>n. as_u64 v = Some n \<and> n \<le> uint_max t)"
  by (simp add: check_uint_def ok_simps)

lemma strings_iff: "JArr xs \<in> JArr ` lists (range JStr) \<longleftrightarrow> list_all (\<lambda>x. as_str x \<noteq> None) xs"
  by (auto simp: list_all_iff image_iff lists_eq_set ok_simps)

lemma canonical_amount: "raw_parse r = Inr r \<longleftrightarrow> (\<exists>n < 2 ^ 256. r = show_nat n)"
  by (metis raw_parse_Inr raw_parse_show)

lemma check_scalar_iff: "check_scalar lib v t = Inr () \<longleftrightarrow> v \<in> scalar_type lib t"
proof -
  have a: "(\<exists>xs. v = JArr xs \<and> list_all (\<lambda>x. as_str x \<noteq> None) xs) \<longleftrightarrow> v \<in> JArr ` lists (range JStr)"
    using strings_iff by blast
  have b: "(\<exists>xs. v = JArr xs \<and> (\<forall>x \<in> set xs. check_uint ''UInt32'' x = Inr ())) \<longleftrightarrow>
      v \<in> JArr ` lists {w. \<exists>n. as_u64 w = Some n \<and> n \<le> uint_max ''UInt32''}"
    by (auto simp: check_uint_iff lists_eq_set)
  have c: "float_of lib v \<noteq> None \<longleftrightarrow> (\<exists>x. v = JNum x \<and> rl_f64 lib x \<noteq> None)" by (cases v) (simp_all add: float_of_def)
  have d: "(\<exists>r. v = JStr r \<and> raw_parse r = Inr r) \<longleftrightarrow> (\<exists>n. v = JStr (show_nat n) \<and> n < 2 ^ 256)"
    using canonical_amount by blast
  show ?thesis
    unfolding check_scalar_def scalar_type_def
    using a b c d by (simp add: ok_simps check_uint_iff image_iff)
qed

lemma check_type_iff: "check_type lib v t = Inr () \<longleftrightarrow> v \<in> column_type lib t"
proof (induction lib v t rule: check_type.induct)
  case (1 lib v t)
  then show ?case
    by (cases "nullable_of t") (auto simp: check_type.simps[of lib v t] column_type.simps[of lib t] check_scalar_iff)
qed

text \<open>C8: a row the warehouse accepts is an object with exactly the columns of its table, and every column holds a value of
  its declared type: integers within their width, amounts as canonical decimal text below 2^256, nothing
  null where the type is not nullable.\<close>

theorem accepted_row_is_typed:
  assumes "validate_row lib ct name row = Inr ()"
  shows "\<exists>tb \<in> set (ct_tables ct). \<exists>kvs. tb_name tb = name \<and> row = JObj kvs \<and>
    (\<forall>(c, ty) \<in> set (tb_columns tb). \<exists>v. map_of kvs c = Some v \<and> v \<in> column_type lib ty) \<and>
    (distinct (map fst (tb_columns tb)) \<longrightarrow> distinct (map fst kvs) \<and> fst ` set kvs = fst ` set (tb_columns tb))"
proof -
  from assms obtain tb kvs where f: "find (\<lambda>t. tb_name t = name) (ct_tables ct) = Some tb" and r: "row = JObj kvs"
    and l: "length kvs = length (tb_columns tb)"
    and c: "\<forall>(c, ty) \<in> set (tb_columns tb). \<exists>v. member row c = Some v \<and> check_type lib v ty = Inr ()"
    unfolding validate_row_def by (auto simp: ok_simps split_def split: json.split_asm)
  from f have tb: "tb \<in> set (ct_tables ct)" "tb_name tb = name" by (auto simp: find_Some_iff)
  from c r have t: "\<forall>(c, ty) \<in> set (tb_columns tb). \<exists>v. map_of kvs c = Some v \<and> v \<in> column_type lib ty"
    by (fastforce simp: check_type_iff)
  have "distinct (map fst kvs) \<and> fst ` set kvs = fst ` set (tb_columns tb)" if d: "distinct (map fst (tb_columns tb))"
  proof -
    have "map_of kvs (fst x) \<noteq> None" if "x \<in> set (tb_columns tb)" for x using t that by (cases x) auto
    then have sub: "fst ` set (tb_columns tb) \<subseteq> fst ` set kvs" by (auto simp: map_of_eq_None_iff)
    have card: "card (fst ` set (tb_columns tb)) = length kvs" using distinct_card[OF d] l by simp
    have le: "card (fst ` set kvs) \<le> length kvs" using card_length[of "map fst kvs"] by simp
    have "card (fst ` set (tb_columns tb)) \<le> card (fst ` set kvs)" using sub by (intro card_mono) auto
    with card le have "card (fst ` set kvs) = length kvs" by simp
    then have "distinct (map fst kvs)" using card_distinct[of "map fst kvs"] by simp
    moreover have "fst ` set (tb_columns tb) = fst ` set kvs"
      using sub card le by (intro card_subset_eq) (auto simp: \<open>card (fst ` set kvs) = length kvs\<close>)
    ultimately show ?thesis by simp
  qed
  with tb r t show ?thesis by blast
qed

definition typed_lib :: row_lib where
  "typed_lib = \<lparr>rl_sha = (\<lambda>_. []), rl_f64 = (\<lambda>_. None), rl_json = (\<lambda>_. None)\<rparr>"

definition typed_contract :: contract where
  "typed_contract = \<lparr>ct_version = 1, ct_tables = [\<lparr>tb_name = ''t'', tb_columns = [(''network_id'', ''String''), (''n'', ''Nullable(UInt8)'')]\<rparr>],
     ct_rules = []\<rparr>"

definition typed_row :: json where
  "typed_row = JObj [(''n'', JNum ''255''), (''network_id'', JStr (network_id Bitcoin))]"

lemma typed_accepted: "validate_row typed_lib typed_contract ''t'' typed_row = Inr ()" by code_simp

theorem accepted_row_is_typed_witness:
  "\<exists>kvs. typed_row = JObj kvs \<and> fst ` set kvs = {''network_id'', ''n''}"
proof -
  from accepted_row_is_typed[OF typed_accepted] obtain tb kvs where "tb \<in> set (ct_tables typed_contract)" "typed_row = JObj kvs"
    "distinct (map fst (tb_columns tb)) \<longrightarrow> fst ` set kvs = fst ` set (tb_columns tb)" by blast
  then have "typed_row = JObj kvs \<and> fst ` set kvs = {''network_id'', ''n''}" by (simp add: typed_contract_def)
  then show ?thesis by blast
qed

end
