(* ===== verification/Float64.thy ===== *)
theory Float64
  imports Prelude Complex_Main
begin

text \<open>
  The finite values of \<open>f64\<close> as rational numbers: an operation of Rust rounds the exact result to the
  nearest value with 53 significant bits, ties to the even one, with \<open>2^-1074\<close> as the smallest unit.
  Overflow is not modelled; the scores that use this stay far below it.
\<close>

definition round_even :: "rat \<Rightarrow> int" where
  "round_even y = (let f = \<lfloor>y\<rfloor>; r = y - of_int f in
     if r < 1 / 2 \<or> r = 1 / 2 \<and> even f then f else f + 1)"

text \<open>How often a value is doubled, or halved, until its integral part has 53 bits.\<close>

fun doublings :: "nat \<Rightarrow> rat \<Rightarrow> nat" where
  "doublings 0 x = 0"
| "doublings (Suc n) x = (if 2 ^ 52 \<le> x then 0 else Suc (doublings n (2 * x)))"

fun halvings :: "nat \<Rightarrow> rat \<Rightarrow> nat" where
  "halvings 0 x = 0"
| "halvings (Suc n) x = (if x < 2 ^ 53 then 0 else Suc (halvings n (x / 2)))"

definition f64_pos :: "rat \<Rightarrow> rat" where
  "f64_pos x = (if x < 2 ^ 53 then (let n = doublings 1074 x in of_int (round_even (x * 2 ^ n)) / 2 ^ n)
     else (let n = halvings 971 x in of_int (round_even (x / 2 ^ n)) * 2 ^ n))"

definition f64 :: "rat \<Rightarrow> rat" where
  "f64 x = (if x = 0 then 0 else if x < 0 then - f64_pos (- x) else f64_pos x)"

text \<open>Rounding to the nearest integer, halves away from zero (\<open>f64::round\<close>).\<close>

definition f64_round :: "rat \<Rightarrow> rat" where
  "f64_round x = (if x < 0 then - of_int \<lfloor>- x + 1 / 2\<rfloor> else of_int \<lfloor>x + 1 / 2\<rfloor>)"

definition clamp :: "rat \<Rightarrow> rat \<Rightarrow> rat \<Rightarrow> rat" where
  "clamp lo hi x = (if x < lo then lo else if hi < x then hi else x)"

text \<open>\<open>powi\<close> by repeated squaring, and a sum from left to right.\<close>

fun powi_loop :: "rat \<Rightarrow> rat \<Rightarrow> nat \<Rightarrow> rat" where
  "powi_loop r a n = (let r' = (if odd n then f64 (r * a) else r) in
     if n < 2 then r' else powi_loop r' (f64 (a * a)) (n div 2))"

definition f64_powi :: "rat \<Rightarrow> nat \<Rightarrow> rat" where
  "f64_powi x n = powi_loop 1 x n"

definition f64_sum :: "rat list \<Rightarrow> rat" where
  "f64_sum xs = fold (\<lambda>x acc. f64 (acc + x)) xs 0"

declare powi_loop.simps [simp del]

lemma round_even_le: "y \<le> of_int m \<Longrightarrow> round_even y \<le> m"
proof -
  assume y: "y \<le> of_int m"
  then have f: "\<lfloor>y\<rfloor> \<le> m" by linarith
  show ?thesis
  proof (cases "\<lfloor>y\<rfloor> = m")
    case True
    with y have "y - of_int \<lfloor>y\<rfloor> \<le> 0" by simp
    with True show ?thesis by (simp add: round_even_def Let_def)
  next
    case False
    with f show ?thesis by (simp add: round_even_def Let_def)
  qed
qed

lemma round_even_ge: "of_int m \<le> y \<Longrightarrow> m \<le> round_even y"
proof -
  assume "of_int m \<le> y"
  then have "m \<le> \<lfloor>y\<rfloor>" by (simp add: le_floor_iff)
  then show ?thesis by (simp add: round_even_def Let_def)
qed

lemma f64_between:
  assumes "0 \<le> x" "x \<le> of_nat k" "k < 2 ^ 53"
  shows "0 \<le> f64 x \<and> f64 x \<le> of_nat k"
proof (cases "x = 0")
  case False
  have "x < 2 ^ 53" using assms(2,3) by (metis le_less_trans of_nat_less_iff of_nat_numeral of_nat_power)
  moreover define n where "n = doublings 1074 x"
  ultimately have e: "f64 x = of_int (round_even (x * 2 ^ n)) / 2 ^ n" using False assms(1) by (simp add: f64_def f64_pos_def Let_def)
  let ?r = "round_even (x * 2 ^ n)"
  have "0 \<le> ?r" using assms(1) by (intro round_even_ge) simp
  then have "(0 :: rat) \<le> of_int ?r" by (simp only: of_int_0_le_iff)
  moreover have "?r \<le> int (k * 2 ^ n)" using assms(2) by (intro round_even_le) simp
  then have "rat_of_int ?r \<le> of_int (int (k * 2 ^ n))" by (simp only: of_int_le_iff)
  ultimately show ?thesis unfolding e by (simp add: divide_le_eq)
qed (simp add: f64_def)

lemma f64_nonneg: "0 \<le> x \<Longrightarrow> 0 \<le> f64 x"
proof -
  assume x: "0 \<le> x"
  have "0 \<le> round_even (x * 2 ^ n)" "0 \<le> round_even (x / 2 ^ n)" for n
    using x by (auto intro!: round_even_ge)
  with x show ?thesis by (simp add: f64_def f64_pos_def Let_def)
qed

lemma f64_sum_nonneg:
  assumes "\<forall>x \<in> set xs. 0 \<le> x"
  shows "0 \<le> f64_sum xs"
proof -
  have "0 \<le> fold (\<lambda>x acc. f64 (acc + x)) xs a" if "0 \<le> a" for a
    using assms that
  proof (induction xs arbitrary: a)
    case (Cons x xs)
    have "0 \<le> f64 (a + x)" using Cons.prems by (intro f64_nonneg) simp
    with Cons.IH[of "f64 (a + x)"] Cons.prems show ?case by simp
  qed simp
  then show ?thesis by (simp add: f64_sum_def)
qed

lemma f64_round_between: "0 \<le> x \<Longrightarrow> x \<le> of_nat k \<Longrightarrow> 0 \<le> f64_round x \<and> f64_round x \<le> of_nat k"
proof -
  assume x: "0 \<le> x" "x \<le> of_nat k"
  then have "\<lfloor>x + 1 / 2\<rfloor> \<le> int k" by (simp add: floor_le_iff)
  then have "rat_of_int \<lfloor>x + 1 / 2\<rfloor> \<le> of_int (int k)" by (simp only: of_int_le_iff)
  moreover have "0 \<le> \<lfloor>x + 1 / 2\<rfloor>" using x(1) by (simp add: le_floor_iff)
  then have "(0 :: rat) \<le> of_int \<lfloor>x + 1 / 2\<rfloor>" by (simp only: of_int_0_le_iff)
  ultimately show ?thesis using x(1) by (simp add: f64_round_def)
qed

lemma clamp_between: "lo \<le> hi \<Longrightarrow> lo \<le> clamp lo hi x \<and> clamp lo hi x \<le> hi"
  by (simp add: clamp_def)

lemma round_even_int: "round_even (of_int m) = m"
  by (simp add: round_even_def)

lemma f64_of_nat: "k < 2 ^ 53 \<Longrightarrow> f64 (of_nat k) = of_nat k"
proof -
  assume k: "k < 2 ^ 53"
  then have "(of_nat k :: rat) < 2 ^ 53" by (metis of_nat_less_iff of_nat_numeral of_nat_power)
  moreover have "round_even (of_nat k * 2 ^ n) = int k * 2 ^ n" for n
    using round_even_int[of "int k * 2 ^ n"] by simp
  ultimately show ?thesis by (simp add: f64_def f64_pos_def Let_def)
qed

lemma f64_at_least:
  assumes "of_nat k \<le> x" "0 < k" "x < 2 ^ 53"
  shows "of_nat k \<le> f64 x"
proof -
  define n where "n = doublings 1074 x"
  have "0 < x" using assms(1,2) by (metis less_le_trans of_nat_0_less_iff)
  with assms(3) have e: "f64 x = of_int (round_even (x * 2 ^ n)) / 2 ^ n" by (simp add: f64_def f64_pos_def Let_def n_def)
  have "int (k * 2 ^ n) \<le> round_even (x * 2 ^ n)" using assms(1) by (intro round_even_ge) simp
  then have "rat_of_int (int (k * 2 ^ n)) \<le> of_int (round_even (x * 2 ^ n))" by (simp only: of_int_le_iff)
  then show ?thesis unfolding e by (simp add: le_divide_eq)
qed

end
