(* ===== verification/Risk_Policy.thy ===== *)
theory Risk_Policy
  imports Float64 Exposure Clusters "HOL-Library.List_Lexorder" "HOL-Library.Char_ord"
begin

text \<open>
  The evidence policy shared by every node (\<open>shared/risk_policy/src/lib.rs\<close>): which labels, exposures and
  events count, the score and level they give, and the check of Bitcoin exposure documents. Parsing of
  floating-point literals, nested documents, and digests are parameters; arithmetic on scores is that of
  \<open>Float64\<close>.
\<close>

record risk_lib =
  rk_f64 :: "string \<Rightarrow> rat option"      \<comment> \<open>\<open>as_f64\<close> of a number, when finite\<close>
  rk_text :: "rat \<Rightarrow> string"             \<comment> \<open>the number written for a float\<close>
  rk_parse :: "string \<Rightarrow> json option"    \<comment> \<open>\<open>serde_json::from_str\<close>\<close>
  rk_digest :: "json \<Rightarrow> string"          \<comment> \<open>SHA-256 of the serialized document\<close>
  rk_source :: string                    \<comment> \<open>the text of the policy's own source\<close>

definition policy_version :: string where
  "policy_version = ''aml_evidence_v2_verified_inputs''"

definition label_weight :: rat where "label_weight = 70"
definition incoming_weight :: rat where "incoming_weight = 55"
definition outgoing_weight :: rat where "outgoing_weight = 45"
definition indirect_weight :: rat where "indirect_weight = 25"
definition mixer_weight :: rat where "mixer_weight = 15"
definition forwarding_weight :: rat where "forwarding_weight = 5"
definition medium_score :: rat where "medium_score = 25"
definition high_score :: rat where "high_score = 60"

lemmas weights = label_weight_def incoming_weight_def outgoing_weight_def indirect_weight_def mixer_weight_def
  forwarding_weight_def medium_score_def high_score_def

section \<open>Reading documents\<close>

definition float_of_json :: "risk_lib \<Rightarrow> json \<Rightarrow> rat option" where
  "float_of_json lib v = (case v of JNum t \<Rightarrow> rk_f64 lib t | _ \<Rightarrow> None)"

definition number :: "risk_lib \<Rightarrow> json \<Rightarrow> rat" where
  "number lib v = (case float_of_json lib v of None \<Rightarrow> 0 | Some x \<Rightarrow> x)"

definition jfloat :: "risk_lib \<Rightarrow> rat \<Rightarrow> json" where
  "jfloat lib x = JNum (rk_text lib x)"

definition blank :: "string \<Rightarrow> bool" where
  "blank s \<longleftrightarrow> list_all is_blank s"

definition only :: "bool \<Rightarrow> 'a option \<Rightarrow> 'a option" where
  "only c k = (if c then k else None)"

lemma only_Some [ok_simps]: "only c k = Some x \<longleftrightarrow> c \<and> k = Some x"
  by (simp add: only_def)

section \<open>Labels\<close>

definition approved_label :: "json \<Rightarrow> bool" where
  "approved_label claim \<longleftrightarrow> (let refs = array_of (member claim ''evidence_refs'') in
     ascii_lower (text_of (field claim ''review_status'')) = ''approved'' \<and>
     \<not> blank (text_of (field claim ''source_id'')) \<and> refs \<noteq> [] \<and> (\<forall>r \<in> set refs. \<not> blank (text_of r)))"

definition bitcoin_network_id :: string where
  "bitcoin_network_id = ''bip122:000000000019d6689c085ae165831e93''"

definition bitcoin_label :: "json \<Rightarrow> json \<Rightarrow> bool" where
  "bitcoin_label claim data \<longleftrightarrow> (let snapshot = field data ''intelligence_snapshot'' in
     field snapshot ''contract'' = JStr ''bitcoin_intelligence_v1'' \<and>
     field snapshot ''network_id'' = JStr bitcoin_network_id \<and>
     field snapshot ''address'' = field data ''address'' \<and>
     (case as_str (field snapshot ''snapshot_id'') of None \<Rightarrow> False | Some i \<Rightarrow> length i = 64 \<and> list_all is_hexdigit i) \<and>
     field claim ''network_id'' = field snapshot ''network_id'' \<and>
     field claim ''address'' = field data ''address'' \<and>
     field claim ''active'' = JBool True \<and>
     \<not> blank (text_of (field claim ''reviewed_by'')) \<and> as_u64 (field claim ''reviewed_at_unix_ms'') \<noteq> None)"

section \<open>Bitcoin exposure documents\<close>

definition exact_sats :: "json \<Rightarrow> nat option" where
  "exact_sats v = Option.bind (as_str v) (\<lambda>t. Option.bind (parse_u64 t) (\<lambda>n.
     only (n \<le> btc_supply \<and> show_nat n = t) (Some n)))"

text \<open>The inputs of a hop: their checked sum and their relationships, when their outpoints differ.\<close>

fun exposure_inputs :: "json list \<Rightarrow> nat \<Rightarrow> (string \<times> nat) set \<Rightarrow> (nat \<times> json list) option" where
  "exposure_inputs [] n seen = Some (n, [])"
| "exposure_inputs (i # is) n seen =
     Option.bind (as_u64 (field i ''value'')) (\<lambda>v. Option.bind (checked_add64 n v) (\<lambda>n'.
     Option.bind (as_u64 (field i ''prev_output_index'')) (\<lambda>k. let key = (text_of (field i ''prev_tx_hash''), k) in
     only (key \<notin> seen) (Option.bind (exposure_inputs is n' (insert key seen)) (\<lambda>(s, ids).
     Some (s, field i ''relationship_id'' # ids))))))"

definition hop_position :: "json \<Rightarrow> (nat \<times> nat) option" where
  "hop_position hop = Option.bind (as_u64 (field hop ''block_number'')) (\<lambda>n.
     map_option (Pair n) (as_u64 (field hop ''transaction_index'')))"

definition hop_linked :: "json \<Rightarrow> json \<Rightarrow> json list \<Rightarrow> bool" where
  "hop_linked prev hop ins \<longleftrightarrow> (case ins of [i] \<Rightarrow>
       field i ''prev_tx_hash'' = field prev ''tx_hash'' \<and>
       field i ''prev_output_index'' = field (field prev ''output'') ''index'' \<and>
       field i ''value'' = field (field prev ''output'') ''value'' \<and>
       field i ''subject'' = field (field prev ''output'') ''subject'' \<and>
       (case (hop_position prev, hop_position hop) of (Some p, Some q) \<Rightarrow> before p q | _ \<Rightarrow> False)
     | _ \<Rightarrow> False)"

text \<open>One hop: the bounds after it and the relationships it cites.\<close>

definition exposure_hop :: "json option \<Rightarrow> nat \<times> nat \<Rightarrow> json \<Rightarrow> json \<Rightarrow> ((nat \<times> nat) \<times> json list) option" where
  "exposure_hop prior b hop step =
     Option.bind (as_array (field hop ''inputs'')) (\<lambda>ins.
     only (ins \<noteq> [] \<and> length ins \<le> 2000) (Option.bind (exposure_inputs ins 0 {}) (\<lambda>(chosen, ids).
     Option.bind (case prior of
         None \<Rightarrow> only (\<forall>i \<in> set ins. field i ''subject'' = field (hd ins) ''subject'') (Some (chosen, chosen))
       | Some prev \<Rightarrow> only (hop_linked prev hop ins) (Some b)) (\<lambda>(low, high).
     Option.bind (exact_sats (field step ''total_input_sats'')) (\<lambda>whole.
     Option.bind (as_u64 (field (field hop ''output'') ''value'')) (\<lambda>output.
     only (chosen \<le> whole \<and> high \<le> chosen \<and> output \<le> whole) (Option.bind (exact_sats (field step ''fee_sats'')) (\<lambda>fee.
     only (fee \<le> whole - output \<and> exact_sats (field step ''lower_input_sats'') = Some low \<and>
           exact_sats (field step ''upper_input_sats'') = Some high \<and> exact_sats (field step ''output_sats'') = Some output)
     (let low' = saturating_sub low (whole - output); high' = min high output in
      only (exact_sats (field step ''lower_output_sats'') = Some low' \<and> exact_sats (field step ''upper_output_sats'') = Some high')
        (Some ((low', high'), ids @ [field (field hop ''output'') ''relationship_id''])))))))))))"

fun exposure_hops :: "json option \<Rightarrow> nat \<times> nat \<Rightarrow> (json \<times> json) list \<Rightarrow> ((nat \<times> nat) \<times> json list \<times> json list) option" where
  "exposure_hops prior b [] = Some (b, [], [])"
| "exposure_hops prior b ((hop, step) # hs) =
     Option.bind (exposure_hop prior b hop step) (\<lambda>(b', ids).
     Option.bind (exposure_hops (Some hop) b' hs) (\<lambda>(r, ids', txs).
     Some (r, ids @ ids', field hop ''tx_hash'' # txs)))"

text \<open>The frame a path must belong to.\<close>

definition exposure_framed :: "json \<Rightarrow> json \<Rightarrow> bool" where
  "exposure_framed path data \<longleftrightarrow> (let frame = field data ''exposure_snapshot'' in
     field frame ''contract'' = JStr ''bitcoin_exposure_v1'' \<and> field frame ''current'' = JBool True \<and>
     field frame ''network_id'' = field data ''network_id'' \<and> field frame ''address'' = field data ''address'' \<and>
     field path ''network_id'' = field frame ''network_id'' \<and> field path ''asset_id'' = JStr ''native:BTC'' \<and>
     field frame ''source_snapshot_id'' = field (field data ''source_snapshot'') ''snapshot_id'' \<and>
     field path ''run_id'' = field frame ''run_id'' \<and> field path ''subject_id'' = field data ''address'' \<and>
     field path ''attribution_method'' = JStr ''bitcoin_utxo_bounds_v1'' \<and> field path ''score_eligible'' = JBool True \<and>
     field path ''fund_continuity_claimed'' = JBool False \<and> field path ''ownership_claimed'' = JBool False \<and>
     pointer data [''exposure_coverage'', ''truncated''] \<noteq> Some (JBool True) \<and>
     field path ''path_id'' \<in> set (array_of (member frame ''path_ids'')))"

definition seed_bound :: "json \<Rightarrow> bool" where
  "seed_bound path \<longleftrightarrow> (let seed = field path ''seed_claim'' in approved_label seed \<and>
     field seed ''is_exposure_seed'' = JBool True \<and> field seed ''address'' = field path ''seed_address'' \<and>
     bitcoin_label seed (JObj [(''address'', field path ''seed_address''), (''intelligence_snapshot'', field path ''seed_snapshot'')]))"

text \<open>The bounds of a path whose hops follow each other and whose totals match.\<close>

definition exposure_route :: "json \<Rightarrow> (json list \<times> nat \<times> nat) option" where
  "exposure_route path =
     Option.bind (as_array (field path ''hops'')) (\<lambda>hops.
     Option.bind (as_array (field (field path ''allocation'') ''steps'')) (\<lambda>steps.
     only (1 \<le> length hops \<and> length hops \<le> 5 \<and> length steps = length hops \<and>
           as_u64 (field path ''hop_count'') = Some (length hops) \<and>
           field (field path ''allocation'') ''method'' = JStr ''bitcoin_utxo_bounds_v1'')
     (Option.bind (exposure_hops None (0, 0) (zip hops steps)) (\<lambda>((low, high), ids, txs).
     only (low \<noteq> 0 \<and> field path ''relationship_ids'' = JArr ids \<and> field path ''tx_hashes'' = JArr txs \<and>
           exact_sats (field path ''amount_raw'') = Some low \<and>
           exact_sats (field (field path ''allocation'') ''minimum_sats'') = Some low \<and>
           exact_sats (field (field path ''allocation'') ''maximum_sats'') = Some high)
       (Some (hops, low, high))))))"

definition first_subject :: "json \<Rightarrow> string" where
  "first_subject hop = (case as_array (field hop ''inputs'') of Some (i # _) \<Rightarrow> text_of (field i ''subject'') | _ \<Rightarrow> [])"

definition last_subject :: "json \<Rightarrow> string" where
  "last_subject hop = text_of (field (field hop ''output'') ''subject'')"

definition exposure_ends :: "json \<Rightarrow> json \<Rightarrow> json list \<Rightarrow> bool" where
  "exposure_ends path data hops \<longleftrightarrow> (let from = first_subject (hd hops); dest = last_subject (last hops);
       seed = text_of (field path ''seed_address''); here = text_of (field data ''address'') in
     if field path ''direction'' = JStr ''RECEIVED_FROM_SEED'' then from = seed \<and> dest = here
     else field path ''direction'' = JStr ''SENT_TO_SEED'' \<and> from = here \<and> dest = seed)"

text \<open>The label was valid when the coins left or reached it.\<close>

definition seed_valid_at :: "json \<Rightarrow> json list \<Rightarrow> bool" where
  "seed_valid_at path hops \<longleftrightarrow> (let seed = field path ''seed_claim'';
       hop = (if field path ''direction'' = JStr ''RECEIVED_FROM_SEED'' then hd hops else last hops) in
     case (as_u64 (field hop ''timestamp_unix_ms''), as_u64 (field seed ''valid_from_unix_ms'')) of
       (Some moment, Some since) \<Rightarrow> since \<le> moment \<and> (field seed ''valid_to_unix_ms'' = JNull \<or>
          (case as_u64 (field seed ''valid_to_unix_ms'') of None \<Rightarrow> False | Some till \<Rightarrow> moment < till))
     | _ \<Rightarrow> False)"

definition tolerance :: rat where
  "tolerance = f64 (1 / 1000000000000)"

definition exposure_share :: "nat \<Rightarrow> nat \<Rightarrow> rat" where
  "exposure_share low output = f64 (f64 (of_nat low) / f64 (of_nat (max output 1)))"

definition exposure_maximum :: "rat \<Rightarrow> nat \<Rightarrow> rat \<Rightarrow> nat \<Rightarrow> rat \<Rightarrow> rat" where
  "exposure_maximum confidence risk share hops time =
     f64 (f64 (f64 (f64 (f64 (confidence * f64 (of_nat risk)) / 100) * share) * f64_powi (f64 (65 / 100)) (hops - 1)) * time)"

definition score_claim_ok :: "risk_lib \<Rightarrow> json \<Rightarrow> json list \<Rightarrow> nat \<Rightarrow> bool" where
  "score_claim_ok lib path hops low \<longleftrightarrow> (let seed = field path ''seed_claim'' in
     case (as_u64 (field (field (last hops) ''output'') ''value''), float_of_json lib (field path ''time_weight''),
           float_of_json lib (field seed ''confidence''), as_u64 (field seed ''risk_level'')) of
       (Some output, Some time, Some confidence, Some risk) \<Rightarrow>
         (let share = exposure_share low output in
          0 \<le> time \<and> time \<le> 1 \<and> 0 \<le> confidence \<and> confidence \<le> 1 \<and> risk \<noteq> 0 \<and> risk \<le> 100 \<and>
          \<not> tolerance < \<bar>f64 (number lib (field path ''amount_share'') - share)\<bar> \<and>
          number lib (field path ''exposure_score'') \<le>
            f64 (exposure_maximum confidence risk share (length hops) time + tolerance))
     | _ \<Rightarrow> False)"

definition bitcoin_exposure :: "risk_lib \<Rightarrow> json \<Rightarrow> json \<Rightarrow> bool" where
  "bitcoin_exposure lib path data \<longleftrightarrow> exposure_framed path data \<and> seed_bound path \<and>
     (case exposure_route path of None \<Rightarrow> False | Some (hops, low, high) \<Rightarrow>
        exposure_ends path data hops \<and> seed_valid_at path hops \<and> score_claim_ok lib path hops low)"

section \<open>Evidence of the account networks\<close>

definition has_path_evidence :: "json \<Rightarrow> bool \<Rightarrow> bool" where
  "has_path_evidence path tron \<longleftrightarrow>
     (if tron then text_of (field path ''source_address'') \<noteq> [] \<and> text_of (field path ''last_tx_hash'') \<noteq> [] \<and>
        text_of (field path ''propagation_run_id'') \<noteq> []
      else (let hops = (case as_u64 (field path ''hop_count'') of None \<Rightarrow> 0 | Some n \<Rightarrow> n);
                txs = array_of (member path ''tx_hashes''); ids = array_of (member path ''relationship_ids'');
                addresses = array_of (member path ''path_addresses'') in
        1 \<le> hops \<and> hops \<le> 10 \<and> text_of (field path ''seed_address'') \<noteq> [] \<and> length txs = hops \<and>
        length ids = length txs \<and> length addresses = length txs + 1 \<and>
        (\<forall>v \<in> set (txs @ ids @ addresses). text_of v \<noteq> [])))"

definition event_evidence :: "risk_lib \<Rightarrow> json \<Rightarrow> json" where
  "event_evidence lib ev = (let v = field ev ''evidence_json'' in
     if is_object v then v else (case rk_parse lib (text_of v) of None \<Rightarrow> JNull | Some w \<Rightarrow> w))"

definition has_mixer_evidence :: "risk_lib \<Rightarrow> json \<Rightarrow> bool" where
  "has_mixer_evidence lib ev \<longleftrightarrow> text_of (field ev ''tx_hash'') \<noteq> [] \<and> text_of (field ev ''protocol_contract'') \<noteq> [] \<and>
     (let e = event_evidence lib ev in
      text_of (field e ''registry_source'') \<noteq> [] \<and> as_u64 (field e ''log_index'') \<noteq> None \<or>
      ascii_lower (text_of (field (field e ''registry'') ''review_status'')) = ''approved'' \<and>
      text_of (field (field e ''registry'') ''source_id'') \<noteq> [] \<and>
      as_u64 (field (field e ''signal'') ''log_index'') \<noteq> None)"

definition raw_amount :: "json \<Rightarrow> nat option" where
  "raw_amount v = Option.bind (as_str v) (\<lambda>t.
     only (t \<noteq> [] \<and> length t \<le> 78 \<and> list_all is_digit t) (let n = nat_of_digits t in only (n < 2 ^ 256) (Some n)))"

text \<open>The names of the fields of an edge.\<close>

record edge_names =
  en_from :: string
  en_to :: string
  en_asset :: string
  en_time :: string

definition names_of :: "bool \<Rightarrow> edge_names" where
  "names_of tron = (if tron then \<lparr>en_from = ''from'', en_to = ''to'', en_asset = ''token_address'', en_time = ''timestamp''\<rparr>
     else \<lparr>en_from = ''from_address'', en_to = ''to_address'', en_asset = ''asset_id'', en_time = ''block_timestamp_unix_ms''\<rparr>)"

definition similar :: "nat \<Rightarrow> nat \<Rightarrow> bool" where
  "similar amount out \<longleftrightarrow> (if out \<le> amount then amount - out else out - amount) \<le> amount div 10"

text \<open>An outgoing transfer that answers an incoming one.\<close>

definition forwards :: "edge_names \<Rightarrow> string \<Rightarrow> string set \<Rightarrow> json \<Rightarrow> nat \<Rightarrow> nat \<Rightarrow> json \<Rightarrow> bool" where
  "forwards nm address used inc amount start out \<longleftrightarrow>
     (case as_u64 (field out (en_time nm)) of None \<Rightarrow> False | Some till \<Rightarrow>
        text_of (field out (en_to nm)) \<noteq> address \<and> text_of (field out ''tx_hash'') \<noteq> [] \<and>
        text_of (field inc (en_asset nm)) = text_of (field out (en_asset nm)) \<and>
        text_of (field inc ''token_id'') = text_of (field out ''token_id'') \<and>
        text_of (field inc ''tx_hash'') \<noteq> text_of (field out ''tx_hash'') \<and>
        text_of (field out ''tx_hash'') \<notin> used \<and> start < till \<and> till - start \<le> 600000 \<and>
        (case raw_amount (field out ''amount'') of None \<Rightarrow> False | Some n \<Rightarrow> similar amount n))"

text \<open>The amount and time of an incoming transfer that can be answered.\<close>

definition incoming_of :: "edge_names \<Rightarrow> string \<Rightarrow> string set \<Rightarrow> json \<Rightarrow> (nat \<times> nat) option" where
  "incoming_of nm address used inc = Option.bind (raw_amount (field inc ''amount'')) (\<lambda>amount.
     only (amount \<noteq> 0 \<and> text_of (field inc (en_asset nm)) \<noteq> [] \<and> text_of (field inc ''tx_hash'') \<noteq> [] \<and>
           text_of (field inc (en_from nm)) \<noteq> address \<and> text_of (field inc ''tx_hash'') \<notin> used)
     (Option.bind (as_u64 (field inc (en_time nm))) (\<lambda>start. only (0 < start) (Some (amount, start)))))"

definition pair_doc :: "edge_names \<Rightarrow> json \<Rightarrow> json \<Rightarrow> json" where
  "pair_doc nm inc out = JObj [(''incoming_tx'', field inc ''tx_hash''), (''outgoing_tx'', field out ''tx_hash''),
     (''asset'', field inc (en_asset nm)), (''incoming_amount'', field inc ''amount''), (''outgoing_amount'', field out ''amount'')]"

fun pass_loop :: "edge_names \<Rightarrow> string \<Rightarrow> json list \<Rightarrow> json list \<Rightarrow> string set \<Rightarrow> (json \<times> json) list \<Rightarrow> (json \<times> json) list" where
  "pass_loop nm address outs [] used pairs = pairs"
| "pass_loop nm address outs (inc # incs) used pairs =
     (case Option.bind (incoming_of nm address used inc) (\<lambda>(amount, start).
             find (forwards nm address used inc amount start) outs) of
        None \<Rightarrow> pass_loop nm address outs incs used pairs
      | Some out \<Rightarrow> if 10 \<le> length pairs + 1 then pairs @ [(inc, out)]
          else pass_loop nm address outs incs
            (insert (text_of (field inc ''tx_hash'')) (insert (text_of (field out ''tx_hash'')) used)) (pairs @ [(inc, out)]))"

definition pass_through :: "json \<Rightarrow> bool \<Rightarrow> (json \<times> json) list" where
  "pass_through data tron =
     (let address = text_of (field data ''address''); edges = array_of (pointer data [''graph'', ''edges'']); nm = names_of tron in
      if address = [] then [] else
      pass_loop nm address (take 500 (filter (\<lambda>e. text_of (field e (en_from nm)) = address) edges))
        (take 500 (filter (\<lambda>e. text_of (field e (en_to nm)) = address) edges)) {} [])"

section \<open>Signals\<close>

record signal =
  sg_kind :: string
  sg_contribution :: rat
  sg_summary :: string
  sg_evidence :: json

definition strength :: "risk_lib \<Rightarrow> json \<Rightarrow> rat" where
  "strength lib v = f64 (clamp 0 1 (f64 (number lib v / 100)) * label_weight)"

text \<open>The label a network's evidence carries. Tron follows the active claim, the others the strongest one.\<close>

definition tron_label :: "risk_lib \<Rightarrow> json \<Rightarrow> rat \<times> json" where
  "tron_label lib data =
     (let active = Option.bind (pointer data [''intelligence'', ''active_entity'', ''source_label_id'']) as_str in
      fold (\<lambda>claim acc. if active \<noteq> None \<and> as_str (field claim ''label_id'') = active \<and> approved_label claim
         then (strength lib (field claim ''risk_percent''), claim) else acc)
        (array_of (pointer data [''intelligence'', ''entity_claims''])) (0, JNull))"

definition counts_as_label :: "string \<Rightarrow> json \<Rightarrow> json \<Rightarrow> bool" where
  "counts_as_label network data e \<longleftrightarrow> approved_label e \<and> (network \<noteq> ''bitcoin'' \<or> bitcoin_label e data)"

definition best_label :: "risk_lib \<Rightarrow> string \<Rightarrow> json \<Rightarrow> rat \<times> json" where
  "best_label lib network data =
     fold (\<lambda>e (score, evidence). let x = strength lib (field e ''risk_level'') in
        if field e ''is_exposure_seed'' = JBool True \<and> counts_as_label network data e \<and> score < x then (x, e) else (score, evidence))
       (array_of (member data ''entities'')) (0, JNull)"

text \<open>What a path amounts to: a score, a limitation, or nothing.\<close>

datatype verdict = Scored rat | Noted string | Ignored

definition path_direction :: "json \<Rightarrow> bool \<Rightarrow> bool option" where
  "path_direction path tron = (let d = text_of (field path (if tron then ''exposure_type'' else ''direction'')) in
     if d \<in> {''RECEIVED_FROM_SEED'', ''INCOMING'', ''incoming'', ''received''} \<or> tron \<and> d = ''DIRECTED_FUND_FLOW'' then Some True
     else if d \<in> {''SENT_TO_SEED'', ''OUTGOING'', ''outgoing'', ''sent''} then Some False else None)"

definition path_weight :: "nat \<Rightarrow> bool \<Rightarrow> rat" where
  "path_weight hops incoming = (if 1 < hops then indirect_weight else if incoming then incoming_weight else outgoing_weight)"

definition path_verdict :: "risk_lib \<Rightarrow> string \<Rightarrow> json \<Rightarrow> json \<Rightarrow> verdict" where
  "path_verdict lib network data path =
     (let tron = (network = ''tron'') in
      if network = ''bitcoin'' \<and> \<not> bitcoin_exposure lib path data
      then Noted ''Bitcoin possible-only, unverified or unsupported UTXO allocations are shown as context and are not scored.''
      else if network \<noteq> ''bitcoin'' \<and> \<not> has_path_evidence path tron
      then Noted ''Exposure without transaction references and seed identity is not scored.''
      else if network = ''bsc'' \<and> \<not> approved_label (field path ''seed_claim'')
      then Noted ''Exposure without an approved seed claim is not scored.''
      else if field path ''service_mediated'' = JBool True
      then Noted ''Service-mediated exposure is shown as context and does not increase this score.''
      else (let hops = (case as_u64 (field path (if tron then ''hop_distance'' else ''hop_count'')) of None \<Rightarrow> 0 | Some n \<Rightarrow> n) in
        if hops = 0 then Ignored else
        case path_direction path tron of
          None \<Rightarrow> Noted ''Exposure with unspecified flow direction is not scored.''
        | Some incoming \<Rightarrow> Scored (f64 (clamp 0 1 (number lib (field path (if tron then ''effective_score'' else ''exposure_score'')))
            * path_weight hops incoming))))"

record exposure_sum =
  xs_score :: rat
  xs_evidence :: json
  xs_notes :: "string list"

definition tally_path :: "risk_lib \<Rightarrow> string \<Rightarrow> json \<Rightarrow> json \<Rightarrow> exposure_sum \<Rightarrow> exposure_sum" where
  "tally_path lib network data path x = (case path_verdict lib network data path of
       Scored v \<Rightarrow> if xs_score x < v then x\<lparr>xs_score := v, xs_evidence := path\<rparr> else x
     | Noted n \<Rightarrow> x\<lparr>xs_notes := xs_notes x @ [n]\<rparr> | Ignored \<Rightarrow> x)"

definition exposure_paths :: "string \<Rightarrow> json \<Rightarrow> json list" where
  "exposure_paths network data = array_of (if network = ''tron'' then pointer data [''exposure'', ''top_sources''] else member data ''exposure_paths'')"

definition scan_paths :: "risk_lib \<Rightarrow> string \<Rightarrow> json \<Rightarrow> exposure_sum" where
  "scan_paths lib network data =
     fold (tally_path lib network data) (exposure_paths network data) \<lparr>xs_score = 0, xs_evidence = JNull, xs_notes = []\<rparr>"

definition mixer_events :: "risk_lib \<Rightarrow> string \<Rightarrow> json \<Rightarrow> json list" where
  "mixer_events lib network data =
     take 10 (filter (\<lambda>e. strip_prefix ''mixer_'' (text_of (field e ''event_type'')) \<noteq> None \<and>
         f64 (8 / 10) \<le> number lib (field e ''confidence'') \<and> has_mixer_evidence lib e)
       (array_of (if network = ''tron'' then pointer data [''activity'', ''recent_semantic_events''] else member data ''semantic_events'')))"

definition known_service :: "string \<Rightarrow> json \<Rightarrow> bool" where
  "known_service network data =
     (if network = ''tron'' then (case pointer data [''intelligence'', ''active_exchange''] of None \<Rightarrow> False | Some v \<Rightarrow> v \<noteq> JNull)
      else list_ex (\<lambda>e. counts_as_label network data e \<and>
          ascii_lower (text_of (field e ''entity_type'')) \<in> {''exchange'', ''dex'', ''bridge'', ''custodian''})
        (array_of (member data ''entities'')))"

section \<open>The assessment\<close>

definition identity_of :: "risk_lib \<Rightarrow> string \<Rightarrow> json \<Rightarrow> rat \<times> json" where
  "identity_of lib network data = (if network = ''tron'' then tron_label lib data else best_label lib network data)"

definition forwarding_pairs :: "string \<Rightarrow> json \<Rightarrow> (json \<times> json) list" where
  "forwarding_pairs network data = (if network = ''bitcoin'' then [] else pass_through data (network = ''tron''))"

text \<open>The signals in the order they are found.\<close>

definition raw_signals :: "risk_lib \<Rightarrow> string \<Rightarrow> json \<Rightarrow> signal list" where
  "raw_signals lib network data =
     (let (identity, claim) = identity_of lib network data; x = scan_paths lib network data;
          mixers = mixer_events lib network data; pairs = forwarding_pairs network data in
      (if 0 < identity then [\<lparr>sg_kind = ''APPROVED_RISK_LABEL'', sg_contribution = identity,
         sg_summary = ''Current approved entity attribution carries an explicit risk designation.'', sg_evidence = claim\<rparr>] else []) @
      (if 0 < xs_score x then [\<lparr>sg_kind = ''ILLICIT_SEED_EXPOSURE'', sg_contribution = xs_score x,
         sg_summary = ''Strongest directional exposure to an approved risky seed; intermediaries and existing decay reduce weight.'',
         sg_evidence = xs_evidence x\<rparr>] else []) @
      (if mixers \<noteq> [] then [\<lparr>sg_kind = ''MIXER_INTERACTION'', sg_contribution = mixer_weight,
         sg_summary = ''High-confidence decoded mixer interaction; mixer use alone is not evidence of laundering.'',
         sg_evidence = JArr mixers\<rparr>] else []) @
      (if 3 \<le> length pairs \<and> \<not> known_service network data then [\<lparr>sg_kind = ''RAPID_SAME_ASSET_FORWARDING'',
         sg_contribution = forwarding_weight,
         sg_summary = ''At least three distinct receipts closely followed by a similar-sized outgoing transfer of the same asset. This is a timing pattern, not proven fund continuity.'',
         sg_evidence = JArr (map (\<lambda>(i, q). pair_doc (names_of (network = ''tron'')) i q) pairs)\<rparr>] else []))"

definition observed_transfers :: "string \<Rightarrow> json \<Rightarrow> nat" where
  "observed_transfers network data =
     (case Option.bind (pointer data (if network = ''tron'' then [''fingerprint'', ''flows'', ''total_transfers''] else [''fingerprint'', ''transfer_count''])) as_u64
      of None \<Rightarrow> 0 | Some n \<Rightarrow> n)"

definition unless_true :: "json \<Rightarrow> string list \<Rightarrow> bool" where
  "unless_true data ks \<longleftrightarrow> pointer data ks \<noteq> Some (JBool True)"

definition raw_limitations :: "risk_lib \<Rightarrow> string \<Rightarrow> json \<Rightarrow> string list" where
  "raw_limitations lib network data =
     (let x = scan_paths lib network data; evm = (network = ''ethereum'' \<or> network = ''bsc'') in
      [''Evidence score, not a calibrated probability or a legal conclusion.'',
       ''Only stored and returned evidence is assessed; missing history and labels can hide risk.''] @ xs_notes x @
      (if 0 < xs_score x then [] else [''No scored directional exposure was supplied; this does not prove no exposure exists.'']) @
      (if unless_true data [''graph'', ''truncated''] \<and> unless_true data [''fingerprint'', ''is_truncated''] then []
       else [''Graph or fingerprint was truncated by query safety limits.'']) @
      (if evm \<and> unless_true data [''data_coverage'', ''internal_transfer_coverage''] then [''Internal EVM transfer coverage is incomplete.''] else []) @
      (if observed_transfers network data < 3 then [''Fewer than three wallet transfers are available.''] else []) @
      (if evm \<and> unless_true data [''data_coverage'', ''history_from_genesis'']
       then [''EVM history is not complete from genesis; missing periods are not evidence of low risk.''] else []) @
      (if evm \<and> \<not> unless_true data [''exposure_coverage'', ''truncated'']
       then [''BSC exposure traversal reached safety limits; additional paths may exist.''] else []) @
      (if network = ''bitcoin'' then
         [''Bitcoin transaction connectivity does not allocate particular inputs to outputs or prove fund continuity.'',
          ''Bitcoin ownership, change and CoinJoin classifications are not inferred. Exposure uses conservative value bounds over exact spent outpoints; specific satoshi continuity is not established.''] @
         (if unless_true data [''exposure_coverage'', ''truncated''] then []
          else [''Bitcoin exposure reached query limits; partial candidates are not scored.'']) @
         (if unless_true data [''data_coverage'', ''history_from_genesis'']
          then [''Bitcoin history is partial or empty; observed UTXOs are not a complete wallet balance.''] else [])
       else []))"

record assessment =
  rs_available :: bool
  rs_score :: "rat option"
  rs_level :: string
  rs_signals :: "signal list"
  rs_limitations :: "string list"
  rs_transfers :: nat
  rs_review :: bool

definition level_of :: "bool \<Rightarrow> rat \<Rightarrow> string" where
  "level_of available score = (if \<not> available then ''UNKNOWN'' else if high_score \<le> score then ''HIGH''
     else if medium_score \<le> score then ''MEDIUM'' else if 0 < score then ''LOW'' else ''NO_SIGNALS'')"

definition total_score :: "signal list \<Rightarrow> rat" where
  "total_score signals = min (f64_sum (map sg_contribution signals)) 100"

definition assess :: "risk_lib \<Rightarrow> string \<Rightarrow> json \<Rightarrow> assessment" where
  "assess lib network data =
     (let signals = sort_key (\<lambda>s. - sg_contribution s) (raw_signals lib network data);
          score = total_score signals; transfers = observed_transfers network data;
          available = (signals \<noteq> [] \<or> network \<noteq> ''bitcoin'' \<and> 3 \<le> transfers) in
      \<lparr>rs_available = available, rs_score = (if available then Some (f64 (f64_round (f64 (score * 10)) / 10)) else None),
       rs_level = level_of available score, rs_signals = signals,
       rs_limitations = remdups_adj (sort (raw_limitations lib network data)), rs_transfers = transfers,
       rs_review = (medium_score \<le> score)\<rparr>)"

section \<open>Documents\<close>

definition signal_doc :: "risk_lib \<Rightarrow> signal \<Rightarrow> json" where
  "signal_doc lib s = JObj [(''signal_type'', JStr (sg_kind s)), (''contribution'', jfloat lib (sg_contribution s)),
     (''summary'', JStr (sg_summary s)), (''evidence'', sg_evidence s)]"

definition assess_doc :: "risk_lib \<Rightarrow> assessment \<Rightarrow> json" where
  "assess_doc lib a = JObj [(''enabled'', JBool True), (''status'', JStr (if rs_available a then ''available'' else ''insufficient_data'')),
     (''policy_version'', JStr policy_version), (''scoring_method'', JStr ''versioned_evidence_policy''),
     (''risk_score'', jopt (jfloat lib) (rs_score a)), (''risk_level'', JStr (rs_level a)), (''probability_claimed'', JBool False),
     (''signals'', JArr (map (signal_doc lib) (rs_signals a))), (''top_reasons'', jstrs (map sg_summary (rs_signals a))),
     (''limitations'', jstrs (rs_limitations a)), (''observed_transfers'', jnat (rs_transfers a)),
     (''assessment_scope'', JStr ''returned_wallet_evidence''), (''requires_analyst_review'', JBool (rs_review a))]"

definition rule_doc :: "risk_lib \<Rightarrow> string \<times> string \<times> rat \<times> string \<times> (string \<times> json) list \<Rightarrow> json" where
  "rule_doc lib r = (case r of (i, kind, weight, description, settings) \<Rightarrow>
     JObj [(''rule_id'', JStr i), (''signal_type'', JStr kind), (''max_contribution'', jfloat lib weight),
       (''description'', JStr description), (''enabled'', JBool True), (''settings'', JObj settings)])"

definition policy_definition :: "risk_lib \<Rightarrow> json" where
  "policy_definition lib = JObj [(''policy_version'', JStr policy_version), (''policy_name'', JStr ''Verified evidence policy''),
     (''enabled'', JBool True), (''medium_threshold'', jfloat lib medium_score), (''high_threshold'', jfloat lib high_score),
     (''maximum_score'', jnat 100), (''probability_claimed'', JBool False), (''exposure_aggregation'', JStr ''strongest_only''),
     (''implementation_sha256'', JStr (rk_digest lib (JStr (rk_source lib)))),
     (''rules'', JArr (map (rule_doc lib)
       [(''approved_label'', ''APPROVED_RISK_LABEL'', label_weight, ''Approved active explicit risk designation'', [(''requires_review'', JBool True)]),
        (''incoming_direct'', ''ILLICIT_SEED_EXPOSURE'', incoming_weight, ''Strongest direct incoming seed exposure'',
          [(''direction'', JStr ''RECEIVED_FROM_SEED''), (''hops'', jnat 1)]),
        (''outgoing_direct'', ''ILLICIT_SEED_EXPOSURE'', outgoing_weight, ''Strongest direct outgoing seed exposure'',
          [(''direction'', JStr ''SENT_TO_SEED''), (''hops'', jnat 1)]),
        (''indirect'', ''ILLICIT_SEED_EXPOSURE'', indirect_weight, ''Strongest multi-hop seed exposure'', [(''minimum_hops'', jnat 2)]),
        (''mixer'', ''MIXER_INTERACTION'', mixer_weight, ''Decoded mixer evidence with registry provenance'',
          [(''minimum_confidence'', jfloat lib (f64 (8 / 10)))]),
        (''forwarding'', ''RAPID_SAME_ASSET_FORWARDING'', forwarding_weight,
          ''Three distinct same-asset timed pairs outside known services'',
          [(''minimum_pairs'', jnat 3), (''maximum_delay_ms'', jnat 600000), (''maximum_amount_difference'', jfloat lib (f64 (1 / 10))),
           (''bitcoin_applicable'', JBool False)])]))]"

definition bitcoin_inputs :: "json \<Rightarrow> json" where
  "bitcoin_inputs data = JObj (map (\<lambda>k. (k, field data k))
     [''network_id'', ''address'', ''source_snapshot'', ''intelligence_snapshot'', ''entities'', ''exposure_paths'', ''exposure_snapshot'',
      ''exposure_coverage'', ''fingerprint'', ''semantic_events''] @
     [(''graph'', JObj [(''truncated'', field (field data ''graph'') ''truncated'')]),
      (''data_coverage'', JObj [(''history_from_genesis'', field (field data ''data_coverage'') ''history_from_genesis'')])])"

definition bitcoin_binding_matches :: "risk_lib \<Rightarrow> json \<Rightarrow> json \<Rightarrow> bool" where
  "bitcoin_binding_matches lib claim data \<longleftrightarrow>
     field claim ''contract'' = JStr ''bitcoin_risk_v1'' \<and> field claim ''network_id'' = field data ''network_id'' \<and>
     field claim ''address'' = field data ''address'' \<and> field claim ''policy_version'' = JStr policy_version \<and>
     field claim ''policy_hash'' = JStr (rk_digest lib (policy_definition lib)) \<and>
     field claim ''source_snapshot_id'' = field (field data ''source_snapshot'') ''snapshot_id'' \<and>
     field claim ''evidence_hash'' = JStr (rk_digest lib (bitcoin_inputs data)) \<and>
     field claim ''risk_engine_hash'' = JStr (rk_digest lib (assess_doc lib (assess lib ''bitcoin'' data)))"

section \<open>Scores\<close>

definition max_weight :: "string \<Rightarrow> rat" where
  "max_weight kind = (if kind = ''APPROVED_RISK_LABEL'' then label_weight
     else if kind = ''ILLICIT_SEED_EXPOSURE'' then incoming_weight
     else if kind = ''MIXER_INTERACTION'' then mixer_weight
     else if kind = ''RAPID_SAME_ASSET_FORWARDING'' then forwarding_weight else 0)"

lemma clamped_weight:
  assumes "w = of_nat k" "k < 2 ^ 53"
  shows "0 \<le> f64 (clamp 0 1 x * w) \<and> f64 (clamp 0 1 x * w) \<le> w"
proof -
  have c: "0 \<le> clamp 0 1 x" "clamp 0 1 x \<le> 1" using clamp_between[of 0 1 x] by simp_all
  have "0 \<le> clamp 0 1 x * w" using c(1) assms(1) by (simp add: mult_nonneg_nonneg)
  moreover have "clamp 0 1 x * w \<le> of_nat k" using c(2) assms(1) mult_right_mono[of "clamp 0 1 x" 1 w] by simp
  ultimately show ?thesis using f64_between[of "clamp 0 1 x * w" k] assms by simp
qed

lemma strength_between: "0 \<le> strength lib v \<and> strength lib v \<le> label_weight"
  unfolding strength_def by (rule clamped_weight[where k = 70]) (simp_all add: weights)

lemma path_weight_between: "path_weight hops incoming \<le> incoming_weight"
  by (simp add: path_weight_def weights)

lemma verdict_between:
  assumes "path_verdict lib network data path = Scored v"
  shows "0 \<le> v \<and> v \<le> incoming_weight"
proof -
  from assms obtain x hops incoming where v: "v = f64 (clamp 0 1 x * path_weight hops incoming)"
    by (auto simp: path_verdict_def Let_def split: if_splits option.splits)
  have "\<exists>k < 2 ^ 53. path_weight hops incoming = of_nat k"
    by (rule exI[of _ "if 1 < hops then 25 else if incoming then 55 else 45"]) (simp add: path_weight_def weights)
  then obtain k :: nat where "path_weight hops incoming = of_nat k" "k < 2 ^ 53" by blast
  from clamped_weight[OF this, of x] show ?thesis unfolding v using path_weight_between[of hops incoming] by linarith
qed

text \<open>The label kept so far comes from a claim that counts.\<close>

lemma tron_label_from:
  "0 < fst (tron_label lib data) \<Longrightarrow> approved_label (snd (tron_label lib data)) \<and> fst (tron_label lib data) \<le> label_weight"
proof -
  let ?P = "\<lambda>p :: rat \<times> json. 0 < fst p \<longrightarrow> approved_label (snd p) \<and> fst p \<le> label_weight"
  have "?P (tron_label lib data)"
    unfolding tron_label_def Let_def by (rule fold_invariant[where Q = "\<lambda>_. True"]) (auto simp: strength_between)
  then show "0 < fst (tron_label lib data) \<Longrightarrow> approved_label (snd (tron_label lib data)) \<and> fst (tron_label lib data) \<le> label_weight" by simp
qed

lemma best_label_from:
  assumes "0 < fst (best_label lib network data)"
  shows "snd (best_label lib network data) \<in> set (array_of (member data ''entities'')) \<and>
    field (snd (best_label lib network data)) ''is_exposure_seed'' = JBool True \<and>
    counts_as_label network data (snd (best_label lib network data)) \<and> fst (best_label lib network data) \<le> label_weight"
proof -
  let ?P = "\<lambda>p :: rat \<times> json. 0 < fst p \<longrightarrow> snd p \<in> set (array_of (member data ''entities'')) \<and>
    field (snd p) ''is_exposure_seed'' = JBool True \<and> counts_as_label network data (snd p) \<and> fst p \<le> label_weight"
  have "?P (best_label lib network data)"
    unfolding best_label_def Let_def
    by (rule fold_invariant[where Q = "\<lambda>e. e \<in> set (array_of (member data ''entities''))"]) (auto simp: strength_between split: prod.split)
  with assms show ?thesis by simp
qed

lemma identity_between:
  assumes "0 < fst (identity_of lib network data)"
  shows "fst (identity_of lib network data) \<le> label_weight"
  using assms best_label_from[of lib network data] tron_label_from[of lib data] by (auto simp: identity_of_def split: if_splits)

text \<open>Only the strongest path counts.\<close>

lemma scan_score:
  "xs_score (fold (tally_path lib network data) ps x) =
     Max (insert (xs_score x) {v. \<exists>p \<in> set ps. path_verdict lib network data p = Scored v})"
proof (induction ps arbitrary: x)
  case (Cons p ps)
  let ?S = "{v. \<exists>q \<in> set ps. path_verdict lib network data q = Scored v}"
  have fin: "finite ?S"
    by (rule finite_subset[of _ "(\<lambda>q. case path_verdict lib network data q of Scored v \<Rightarrow> v | _ \<Rightarrow> 0) ` set ps"])
      (auto intro!: rev_image_eqI)
  show ?case
  proof (cases "path_verdict lib network data p")
    case (Scored v)
    then have "{u. \<exists>q \<in> set (p # ps). path_verdict lib network data q = Scored u} = insert v ?S" by auto
    moreover have "xs_score (tally_path lib network data p x) = max (xs_score x) v" using Scored by (simp add: tally_path_def)
    ultimately show ?thesis using Cons.IH[of "tally_path lib network data p x"] fin
      by (cases "?S = {}") (simp_all add: max.assoc)
  next
    case (Noted n)
    then have "{u. \<exists>q \<in> set (p # ps). path_verdict lib network data q = Scored u} = ?S" by auto
    then show ?thesis using Cons.IH[of "tally_path lib network data p x"] Noted by (simp add: tally_path_def)
  next
    case Ignored
    then have "{u. \<exists>q \<in> set (p # ps). path_verdict lib network data q = Scored u} = ?S" by auto
    then show ?thesis using Cons.IH[of "tally_path lib network data p x"] Ignored by (simp add: tally_path_def)
  qed
qed simp

lemma scan_evidence:
  assumes "0 < xs_score (scan_paths lib network data)"
  shows "xs_evidence (scan_paths lib network data) \<in> set (exposure_paths network data) \<and>
    path_verdict lib network data (xs_evidence (scan_paths lib network data)) = Scored (xs_score (scan_paths lib network data))"
proof -
  let ?P = "\<lambda>x. 0 < xs_score x \<longrightarrow> xs_evidence x \<in> set (exposure_paths network data) \<and>
    path_verdict lib network data (xs_evidence x) = Scored (xs_score x)"
  have "?P (scan_paths lib network data)"
    unfolding scan_paths_def
    by (rule fold_invariant[where Q = "\<lambda>p. p \<in> set (exposure_paths network data)"]) (auto simp: tally_path_def split: verdict.split)
  with assms show ?thesis by simp
qed

lemma raw_signal_cases:
  assumes "s \<in> set (raw_signals lib network data)"
  obtains "sg_kind s = ''APPROVED_RISK_LABEL''" "0 < fst (identity_of lib network data)"
      "sg_contribution s = fst (identity_of lib network data)" "sg_evidence s = snd (identity_of lib network data)"
  | "sg_kind s = ''ILLICIT_SEED_EXPOSURE''" "0 < xs_score (scan_paths lib network data)"
      "sg_contribution s = xs_score (scan_paths lib network data)" "sg_evidence s = xs_evidence (scan_paths lib network data)"
  | "sg_kind s = ''MIXER_INTERACTION''" "sg_contribution s = mixer_weight" "sg_evidence s = JArr (mixer_events lib network data)"
  | "sg_kind s = ''RAPID_SAME_ASSET_FORWARDING''" "sg_contribution s = forwarding_weight"
      "3 \<le> length (forwarding_pairs network data)" "\<not> known_service network data"
  using assms by (auto simp: raw_signals_def Let_def case_prod_beta simp del: case_prod_conv split: if_splits)

lemma signal_between:
  assumes "s \<in> set (raw_signals lib network data)"
  shows "0 < sg_contribution s \<and> sg_contribution s \<le> max_weight (sg_kind s)"
  using assms
proof (cases rule: raw_signal_cases)
  case 1
  then show ?thesis using identity_between[OF 1(2)] by (simp add: max_weight_def)
next
  case 2
  then show ?thesis using verdict_between scan_evidence[OF 2(2)] by (auto simp: max_weight_def)
qed (simp_all add: max_weight_def weights)

lemma raw_signals_distinct: "distinct (map sg_kind (raw_signals lib network data))"
  by (simp add: raw_signals_def Let_def split: prod.split)

lemma total_between: "list_all (\<lambda>s. 0 < sg_contribution s) xs \<Longrightarrow> 0 \<le> total_score xs \<and> total_score xs \<le> 100"
proof -
  assume "list_all (\<lambda>s. 0 < sg_contribution s) xs"
  then have "0 \<le> f64_sum (map sg_contribution xs)" by (intro f64_sum_nonneg) (auto simp: list_all_iff less_imp_le)
  then show ?thesis by (simp add: total_score_def)
qed

lemma shown_between:
  assumes "0 \<le> x" "x \<le> 100"
  shows "0 \<le> f64 (f64_round (f64 (x * 10)) / 10) \<and> f64 (f64_round (f64 (x * 10)) / 10) \<le> 100"
proof -
  have a: "0 \<le> f64 (x * 10) \<and> f64 (x * 10) \<le> of_nat 1000" using assms by (intro f64_between) simp_all
  then have "0 \<le> f64_round (f64 (x * 10)) \<and> f64_round (f64 (x * 10)) \<le> of_nat 1000" by (intro f64_round_between) simp_all
  then have "0 \<le> f64 (f64_round (f64 (x * 10)) / 10) \<and> f64 (f64_round (f64 (x * 10)) / 10) \<le> of_nat 100"
    by (intro f64_between) simp_all
  then show ?thesis by simp
qed

text \<open>C31: whatever the documents of any network hold, an assessment has at most one signal of each kind, strongest first,
  each worth more than nothing and no more than the policy allows it; its score lies between 0 and 100, and
  it is withheld exactly when the level is unknown.\<close>

theorem assessment_bounded:
  "let a = assess lib network data in
     list_all (\<lambda>s. 0 < sg_contribution s \<and> sg_contribution s \<le> max_weight (sg_kind s)) (rs_signals a) \<and>
     distinct (map sg_kind (rs_signals a)) \<and> sorted (map (\<lambda>s. - sg_contribution s) (rs_signals a)) \<and>
     (case rs_score a of None \<Rightarrow> rs_level a = ''UNKNOWN'' | Some x \<Rightarrow> 0 \<le> x \<and> x \<le> 100 \<and> rs_level a \<noteq> ''UNKNOWN'')"
proof -
  let ?S = "sort_key (\<lambda>s. - sg_contribution s) (raw_signals lib network data)"
  have s: "list_all (\<lambda>s. 0 < sg_contribution s \<and> sg_contribution s \<le> max_weight (sg_kind s)) ?S"
    using signal_between by (auto simp: list_all_iff)
  then have "list_all (\<lambda>s. 0 < sg_contribution s) ?S" by (simp add: list_all_iff)
  note t = total_between[OF this]
  have "distinct (map sg_kind ?S)" using raw_signals_distinct[of lib network data] by (simp add: distinct_map)
  with s t shown_between[of "total_score ?S"] show ?thesis by (simp add: assess_def Let_def level_of_def)
qed

section \<open>What is scored\<close>

text \<open>What a tagged amount entering a documented route can amount to at its end.\<close>

definition step_total :: "json \<Rightarrow> nat" where
  "step_total step = (case exact_sats (field step ''total_input_sats'') of None \<Rightarrow> 0 | Some n \<Rightarrow> n)"

definition hop_value :: "json \<Rightarrow> nat" where
  "hop_value hop = (case as_u64 (field (field hop ''output'') ''value'') of None \<Rightarrow> 0 | Some n \<Rightarrow> n)"

fun doc_flow :: "(json \<times> json) list \<Rightarrow> nat \<Rightarrow> nat \<Rightarrow> bool" where
  "doc_flow [] t x \<longleftrightarrow> x = t"
| "doc_flow ((hop, step) # hs) t x \<longleftrightarrow> (\<exists>y. carries (step_total step) (hop_value hop) t y \<and> doc_flow hs y x)"

text \<open>What the first hop spends.\<close>

definition exposure_start :: "json list \<Rightarrow> nat" where
  "exposure_start hops = sum_list (map (\<lambda>i. case as_u64 (field i ''value'') of None \<Rightarrow> 0 | Some v \<Rightarrow> v)
     (array_of (member (hd hops) ''inputs'')))"

lemma exact_sats_supply: "exact_sats v = Some n \<Longrightarrow> n \<le> btc_supply"
  by (auto simp: exact_sats_def ok_simps bind_eq_Some_conv)

lemma exposure_inputs_sum:
  "exposure_inputs is n seen = Some (m, ids) \<Longrightarrow>
     m = n + sum_list (map (\<lambda>i. case as_u64 (field i ''value'') of None \<Rightarrow> 0 | Some v \<Rightarrow> v) is)"
proof (induction "is" arbitrary: n seen ids)
  case (Cons i "is")
  then obtain v n' ids' seen' where "as_u64 (field i ''value'') = Some v" "checked_add64 n v = Some n'"
      "exposure_inputs is n' seen' = Some (m, ids')"
    by (auto simp: ok_simps bind_eq_Some_conv)
  with Cons.IH[OF this(3)] show ?case by (auto simp: checked_add64_def split: if_splits)
qed simp

lemma exposure_hop_allocates:
  assumes "exposure_hop prior (l, u) hop step = Some ((lo, hi), ids)" "prior \<noteq> None \<Longrightarrow> l \<le> u"
  obtains l' u' where "allocate l' u' (step_total step) (hop_value hop) = Inr (lo, hi)"
    "prior = None \<Longrightarrow> l' = exposure_start [hop] \<and> u' = exposure_start [hop]" "prior \<noteq> None \<Longrightarrow> l' = l \<and> u' = u"
proof -
  from assms(1) obtain ins chosen is_ids whole out l' u' where
    a: "as_array (field hop ''inputs'') = Some ins" "exposure_inputs ins 0 {} = Some (chosen, is_ids)"
    and b: "(case prior of None \<Rightarrow> only (\<forall>i \<in> set ins. field i ''subject'' = field (hd ins) ''subject'') (Some (chosen, chosen))
       | Some prev \<Rightarrow> only (hop_linked prev hop ins) (Some (l, u))) = Some (l', u')"
    and c: "exact_sats (field step ''total_input_sats'') = Some whole" "as_u64 (field (field hop ''output'') ''value'') = Some out"
    and d: "chosen \<le> whole" "u' \<le> chosen" "out \<le> whole" "lo = saturating_sub l' (whole - out)" "hi = min u' out"
    unfolding exposure_hop_def Let_def by (auto simp: only_def bind_eq_Some_conv split: if_split_asm)
  have start: "exposure_start [hop] = chosen"
    using a exposure_inputs_sum[OF a(2)] by (auto simp: exposure_start_def field_def ok_simps split: option.splits)
  have "l' \<le> u'" using b assms(2) by (cases prior) (auto simp: ok_simps)
  with c d exact_sats_supply[OF c(1)]
  have "allocate l' u' (step_total step) (hop_value hop) = Inr (lo, hi)"
    by (simp add: allocate_def ensure_def step_total_def hop_value_def)
  moreover have "prior = None \<Longrightarrow> l' = exposure_start [hop] \<and> u' = exposure_start [hop]" using b start by (auto simp: ok_simps)
  moreover have "prior \<noteq> None \<Longrightarrow> l' = l \<and> u' = u" using b by (auto simp: ok_simps)
  ultimately show ?thesis by (rule that)
qed

text \<open>Read from an exact interval, an allocation gives an exact interval.\<close>

lemma doc_flow_step:
  assumes "allocate l u (step_total step) (hop_value hop) = Inr (lo, hi)"
  shows "(\<exists>t. l \<le> t \<and> t \<le> u \<and> doc_flow ((hop, step) # hs) t x) \<longleftrightarrow> (\<exists>y. lo \<le> y \<and> y \<le> hi \<and> doc_flow hs y x)"
proof -
  have "(\<exists>t. l \<le> t \<and> t \<le> u \<and> doc_flow ((hop, step) # hs) t x) \<longleftrightarrow>
      (\<exists>y \<in> {y. \<exists>t. l \<le> t \<and> t \<le> u \<and> carries (step_total step) (hop_value hop) t y}. doc_flow hs y x)" by auto
  then show ?thesis using allocate_tight[OF assms] by auto
qed

lemma exposure_hops_tight:
  assumes "exposure_hops (Some prev) (l, u) hs = Some ((lo, hi), ids, txs)" "l \<le> u"
  shows "(\<exists>t. l \<le> t \<and> t \<le> u \<and> doc_flow hs t x) \<longleftrightarrow> lo \<le> x \<and> x \<le> hi"
  using assms
proof (induction hs arbitrary: prev l u ids txs)
  case (Cons h hs)
  obtain hop step where h: "h = (hop, step)" by (cases h)
  with Cons.prems(1) obtain l' u' is1 is2 tx2 where
    a: "exposure_hop (Some prev) (l, u) hop step = Some ((l', u'), is1)"
    and r: "exposure_hops (Some hop) (l', u') hs = Some ((lo, hi), is2, tx2)"
    by (auto simp: bind_eq_Some_conv)
  from exposure_hop_allocates[OF a] Cons.prems(2)
  have e: "allocate l u (step_total step) (hop_value hop) = Inr (l', u')" by (metis option.distinct(1))
  then have "l' \<le> u'" using allocate_tight by blast
  from Cons.IH[OF r this] show ?case unfolding h doc_flow_step[OF e] .
qed auto

lemma exposure_route_tight:
  assumes "exposure_route path = Some (hops, low, high)"
  shows "array_of (member path ''hops'') = hops \<and> 0 < low \<and> exact_sats (field path ''amount_raw'') = Some low \<and>
    exact_sats (field (field path ''allocation'') ''maximum_sats'') = Some high \<and>
    {x. doc_flow (zip hops (array_of (member (field path ''allocation'') ''steps''))) (exposure_start hops) x} = {low..high}"
proof -
  from assms obtain steps ids txs where
    a: "as_array (field path ''hops'') = Some hops" "as_array (field (field path ''allocation'') ''steps'') = Some steps"
       "1 \<le> length hops" "length steps = length hops"
    and r: "exposure_hops None (0, 0) (zip hops steps) = Some ((low, high), ids, txs)"
    and b: "low \<noteq> 0" "exact_sats (field path ''amount_raw'') = Some low"
       "exact_sats (field (field path ''allocation'') ''maximum_sats'') = Some high"
    unfolding exposure_route_def by (auto simp: only_def bind_eq_Some_conv split: if_split_asm)
  have arr: "array_of (member path ''hops'') = hops" "array_of (member (field path ''allocation'') ''steps'') = steps"
    using a(1,2) by (auto simp: field_def ok_simps split: option.splits)
  from a(3,4) obtain hop hs step ss where c: "hops = hop # hs" "steps = step # ss"
    by (metis One_nat_def Suc_le_length_iff)
  with r obtain l u is1 is2 tx2 where h: "exposure_hop None (0, 0) hop step = Some ((l, u), is1)"
    "exposure_hops (Some hop) (l, u) (zip hs ss) = Some ((low, high), is2, tx2)"
    by (auto simp: bind_eq_Some_conv)
  from exposure_hop_allocates[OF h(1)]
  have e: "allocate (exposure_start [hop]) (exposure_start [hop]) (step_total step) (hop_value hop) = Inr (l, u)" by metis
  then have "l \<le> u" using allocate_tight by blast
  have one: "doc_flow fs n x \<longleftrightarrow> (\<exists>t. n \<le> t \<and> t \<le> n \<and> doc_flow fs t x)" for fs n x by (metis le_antisym order_refl)
  have "doc_flow (zip hops steps) (exposure_start [hop]) x \<longleftrightarrow> low \<le> x \<and> x \<le> high" for x
    unfolding c zip_Cons_Cons by (subst one) (simp only: doc_flow_step[OF e] exposure_hops_tight[OF h(2) \<open>l \<le> u\<close>])
  then have "{x. doc_flow (zip hops steps) (exposure_start [hop]) x} = {low..high}" by (simp only: atLeastAtMost_def lessThan_def atLeast_def atMost_def Int_def mem_Collect_eq)
  moreover have "exposure_start hops = exposure_start [hop]" using c by (simp add: exposure_start_def)
  ultimately show ?thesis using arr b by (simp only: simp_thms neq0_conv)
qed

lemma assess_signals: "set (rs_signals (assess lib network data)) = set (raw_signals lib network data)"
  by (simp add: assess_def Let_def)

text \<open>C30: the exposure a Bitcoin assessment scores belongs to the current snapshot of the address and names a reviewed seed
  bound to its own snapshot; the amounts it states are exact: they are the satoshis that the whole first spend can bring
  to the end of the documented route, and the least of them is positive.\<close>

theorem scored_bitcoin_exposure_is_exact:
  "list_all (\<lambda>s. let path = sg_evidence s; hops = array_of (member path ''hops'') in
      path \<in> set (exposure_paths ''bitcoin'' data) \<and> exposure_framed path data \<and> seed_bound path \<and>
      (\<exists>low high. 0 < low \<and> exact_sats (field path ''amount_raw'') = Some low \<and>
         exact_sats (field (field path ''allocation'') ''maximum_sats'') = Some high \<and>
         {x. doc_flow (zip hops (array_of (member (field path ''allocation'') ''steps''))) (exposure_start hops) x} = {low..high}))
     (filter (\<lambda>s. sg_kind s = ''ILLICIT_SEED_EXPOSURE'') (rs_signals (assess lib ''bitcoin'' data)))"
proof -
  have "path \<in> set (exposure_paths ''bitcoin'' data) \<and> bitcoin_exposure lib path data"
    if "s \<in> set (raw_signals lib ''bitcoin'' data)" "sg_kind s = ''ILLICIT_SEED_EXPOSURE''" "path = sg_evidence s" for s path
    using that(1)
  proof (cases rule: raw_signal_cases)
    case 2
    with scan_evidence[OF 2(2)] that(3) show ?thesis by (auto simp: path_verdict_def Let_def split: if_split_asm)
  qed (use that(2) in simp_all)
  moreover have "exposure_framed path data \<and> seed_bound path \<and> (\<exists>hops low high. exposure_route path = Some (hops, low, high))"
    if "bitcoin_exposure lib path data" for path using that by (auto simp: bitcoin_exposure_def split: option.splits)
  ultimately show ?thesis unfolding list_all_iff Let_def using exposure_route_tight by (fastforce simp: assess_signals)
qed

text \<open>C34: the label a score rests on was approved by a review with references; outside Tron it also designates a seed among
  the entities supplied, and for Bitcoin it is bound to the intelligence snapshot of the same address.\<close>

theorem scored_label_is_approved:
  "list_all (\<lambda>s. let e = sg_evidence s in
      if network = ''tron'' then approved_label e
      else e \<in> set (array_of (member data ''entities'')) \<and> field e ''is_exposure_seed'' = JBool True \<and> counts_as_label network data e)
     (filter (\<lambda>s. sg_kind s = ''APPROVED_RISK_LABEL'') (rs_signals (assess lib network data)))"
proof -
  have "if network = ''tron'' then approved_label (sg_evidence s)
      else sg_evidence s \<in> set (array_of (member data ''entities'')) \<and> field (sg_evidence s) ''is_exposure_seed'' = JBool True \<and>
        counts_as_label network data (sg_evidence s)"
    if "s \<in> set (raw_signals lib network data)" "sg_kind s = ''APPROVED_RISK_LABEL''" for s
    using that(1)
  proof (cases rule: raw_signal_cases)
    case 1
    then show ?thesis using tron_label_from[of lib data] best_label_from[of lib network data] by (cases "network = ''tron''") (simp_all add: identity_of_def)
  qed (use that(2) in simp_all)
  then show ?thesis unfolding list_all_iff Let_def set_filter assess_signals by blast
qed

text \<open>Paths are correlated evidence, not votes: the exposure score is that of the strongest path that counts, whatever
  their number and order.\<close>

theorem strongest_exposure_only:
  "xs_score (scan_paths lib network data) =
     Max (insert 0 {v. \<exists>p \<in> set (exposure_paths network data). path_verdict lib network data p = Scored v})"
  by (simp add: scan_paths_def scan_score)

section \<open>Forwarding\<close>

definition pair_ok :: "edge_names \<Rightarrow> string \<Rightarrow> json \<Rightarrow> json \<Rightarrow> bool" where
  "pair_ok nm address inc out \<longleftrightarrow>
     (case (as_u64 (field inc (en_time nm)), as_u64 (field out (en_time nm)), raw_amount (field inc ''amount''), raw_amount (field out ''amount'')) of
       (Some t, Some u, Some n, Some m) \<Rightarrow> t < u \<and> u \<le> t + 600000 \<and> 0 < n \<and> 9 * n \<le> 10 * m \<and> 10 * m \<le> 11 * n
     | _ \<Rightarrow> False) \<and>
     text_of (field inc (en_to nm)) = address \<and> text_of (field inc (en_from nm)) \<noteq> address \<and>
     text_of (field out (en_from nm)) = address \<and> text_of (field out (en_to nm)) \<noteq> address \<and>
     text_of (field inc (en_asset nm)) = text_of (field out (en_asset nm))"

definition pair_txs :: "(json \<times> json) list \<Rightarrow> string list" where
  "pair_txs ps = concat (map (\<lambda>(i, q). [text_of (field i ''tx_hash''), text_of (field q ''tx_hash'')]) ps)"

lemma similar_iff: "similar n m \<Longrightarrow> 9 * n \<le> 10 * m \<and> 10 * m \<le> 11 * n"
  by (auto simp: similar_def split: if_splits)

lemma answered_pair:
  assumes "Option.bind (incoming_of nm address used inc) (\<lambda>(amount, start). find (forwards nm address used inc amount start) outs) = Some out"
    "text_of (field inc (en_to nm)) = address" "\<forall>e \<in> set outs. text_of (field e (en_from nm)) = address"
  shows "pair_ok nm address inc out \<and> text_of (field inc ''tx_hash'') \<notin> used \<and> text_of (field out ''tx_hash'') \<notin> used \<and>
    text_of (field inc ''tx_hash'') \<noteq> text_of (field out ''tx_hash'')"
proof -
  from assms(1) obtain amount start where i: "incoming_of nm address used inc = Some (amount, start)"
    and f: "find (forwards nm address used inc amount start) outs = Some out" by (auto simp: bind_eq_Some_conv)
  from f have o: "out \<in> set outs" "forwards nm address used inc amount start out" by (auto simp: find_Some_iff)
  from o(2) obtain till m where a: "as_u64 (field out (en_time nm)) = Some till" "raw_amount (field out ''amount'') = Some m" "similar amount m"
    "start < till" "till - start \<le> 600000" by (auto simp: forwards_def split: option.splits)
  from i have "raw_amount (field inc ''amount'') = Some amount" "amount \<noteq> 0" "as_u64 (field inc (en_time nm)) = Some start"
    by (auto simp: incoming_of_def ok_simps bind_eq_Some_conv)
  with a i o assms(2,3) similar_iff[OF a(3)] show ?thesis
    by (auto simp: pair_ok_def incoming_of_def forwards_def ok_simps bind_eq_Some_conv)
qed

lemma pass_loop_pairs:
  assumes "list_all (\<lambda>(i, q). pair_ok nm address i q) ps" "distinct (pair_txs ps)" "set (pair_txs ps) = used" "length ps < 10"
    "\<forall>e \<in> set incs. text_of (field e (en_to nm)) = address" "\<forall>e \<in> set outs. text_of (field e (en_from nm)) = address"
  shows "let qs = pass_loop nm address outs incs used ps in
    list_all (\<lambda>(i, q). pair_ok nm address i q) qs \<and> distinct (pair_txs qs) \<and> length qs \<le> 10"
  using assms
proof (induction incs arbitrary: used ps)
  case (Cons inc incs)
  show ?case
  proof (cases "Option.bind (incoming_of nm address used inc) (\<lambda>(amount, start). find (forwards nm address used inc amount start) outs)")
    case None
    with Cons show ?thesis by simp
  next
    case (Some out)
    have a: "pair_ok nm address inc out \<and> text_of (field inc ''tx_hash'') \<notin> used \<and> text_of (field out ''tx_hash'') \<notin> used \<and>
      text_of (field inc ''tx_hash'') \<noteq> text_of (field out ''tx_hash'')"
      by (rule answered_pair[OF Some]) (use Cons.prems in simp_all)
    then have b: "list_all (\<lambda>(i, q). pair_ok nm address i q) (ps @ [(inc, out)])" "distinct (pair_txs (ps @ [(inc, out)]))"
      "set (pair_txs (ps @ [(inc, out)])) = insert (text_of (field inc ''tx_hash'')) (insert (text_of (field out ''tx_hash'')) used)"
      using Cons.prems by (auto simp: pair_txs_def)
    show ?thesis
    proof (cases "10 \<le> length ps + 1")
      case True
      with Some b Cons.prems show ?thesis by simp
    next
      case False
      with Cons.IH[OF b] Cons.prems Some show ?thesis by simp
    qed
  qed
qed (auto simp: Let_def)

text \<open>C33: at most ten forwarding pairs are reported, no transaction appears in two of them, and each is a receipt of the
  address answered within ten minutes by a payment of the same asset whose amount differs by at most a tenth.\<close>

theorem forwarding_pairs_are_sound:
  "let ps = forwarding_pairs network data in length ps \<le> 10 \<and> distinct (pair_txs ps) \<and>
     list_all (\<lambda>(i, q). pair_ok (names_of (network = ''tron'')) (text_of (field data ''address'')) i q) ps"
proof -
  have "let qs = pass_loop nm a outs incs {} [] in list_all (\<lambda>(i, q). pair_ok nm a i q) qs \<and> distinct (pair_txs qs) \<and> length qs \<le> 10"
    if "\<forall>e \<in> set incs. text_of (field e (en_to nm)) = a" "\<forall>e \<in> set outs. text_of (field e (en_from nm)) = a" for nm a outs incs
    by (rule pass_loop_pairs) (use that in \<open>simp_all add: pair_txs_def\<close>)
  note p = this
  show ?thesis
  proof (cases "network = ''bitcoin'' \<or> text_of (field data ''address'') = []")
    case True
    then show ?thesis by (auto simp: forwarding_pairs_def pass_through_def pair_txs_def Let_def)
  next
    case False
    let ?nm = "names_of (network = ''tron'')"
    let ?a = "text_of (field data ''address'')"
    let ?es = "array_of (pointer data [''graph'', ''edges''])"
    have "\<forall>e \<in> set (take 500 (filter (\<lambda>e. text_of (field e (en_to ?nm)) = ?a) ?es)). text_of (field e (en_to ?nm)) = ?a"
      "\<forall>e \<in> set (take 500 (filter (\<lambda>e. text_of (field e (en_from ?nm)) = ?a) ?es)). text_of (field e (en_from ?nm)) = ?a"
      by (auto dest: in_set_takeD)
    from p[OF this] False show ?thesis by (simp add: forwarding_pairs_def pass_through_def Let_def)
  qed
qed

section \<open>The bound inputs\<close>

lemma inputs_field:
  "k \<in> {''network_id'', ''address'', ''source_snapshot'', ''intelligence_snapshot'', ''entities'', ''exposure_paths'', ''exposure_snapshot'',
      ''exposure_coverage'', ''fingerprint'', ''semantic_events''} \<Longrightarrow>
   member (bitcoin_inputs data) k = Some (field data k) \<and> field (bitcoin_inputs data) k = field data k"
  by (auto simp: bitcoin_inputs_def field_def)

lemma array_of_field: "array_of (Some (field data k)) = array_of (member data k)"
  by (simp add: array_of_def field_def split: option.split)

lemma pointer_field: "pointer data [k, j] = member (field data k) j"
  by (simp add: field_def split: option.split)

lemma truth_field: "member v k = Some (JBool True) \<longleftrightarrow> field v k = JBool True"
  by (simp add: field_def split: option.split)

lemma inputs_truncated:
  "field (field (bitcoin_inputs data) ''graph'') ''truncated'' = field (field data ''graph'') ''truncated''"
  "field (field (bitcoin_inputs data) ''data_coverage'') ''history_from_genesis'' = field (field data ''data_coverage'') ''history_from_genesis''"
  by (simp_all add: bitcoin_inputs_def)

lemmas inputs_simps = inputs_field array_of_field pointer_field truth_field inputs_truncated

lemma inputs_ends: "exposure_ends path (bitcoin_inputs data) = exposure_ends path data"
  by (rule ext) (simp add: exposure_ends_def inputs_simps Let_def)

lemma inputs_framed: "exposure_framed path (bitcoin_inputs data) = exposure_framed path data"
  by (simp add: exposure_framed_def inputs_simps Let_def del: pointer.simps)

lemma inputs_exposure: "bitcoin_exposure lib path (bitcoin_inputs data) = bitcoin_exposure lib path data"
  unfolding bitcoin_exposure_def inputs_framed inputs_ends ..

lemma inputs_label: "bitcoin_label e (bitcoin_inputs data) = bitcoin_label e data"
  by (simp add: bitcoin_label_def inputs_simps Let_def)

text \<open>C32: the inputs an assessment of a Bitcoin address is bound to are all it reads: assessing them gives the same
  result as assessing the document they were taken from.\<close>

theorem bitcoin_inputs_suffice:
  "assess lib ''bitcoin'' (bitcoin_inputs data) = assess lib ''bitcoin'' data"
proof -
  have x: "scan_paths lib ''bitcoin'' (bitcoin_inputs data) = scan_paths lib ''bitcoin'' data"
    by (simp add: scan_paths_def exposure_paths_def tally_path_def[abs_def] path_verdict_def inputs_exposure inputs_simps)
  have l: "counts_as_label ''bitcoin'' (bitcoin_inputs data) = counts_as_label ''bitcoin'' data"
    by (simp add: counts_as_label_def[abs_def] inputs_label)
  then have i: "identity_of lib ''bitcoin'' (bitcoin_inputs data) = identity_of lib ''bitcoin'' data"
    by (simp add: identity_of_def best_label_def inputs_simps)
  have s: "raw_signals lib ''bitcoin'' (bitcoin_inputs data) = raw_signals lib ''bitcoin'' data"
    by (simp add: raw_signals_def i x mixer_events_def forwarding_pairs_def inputs_simps)
  have t: "observed_transfers ''bitcoin'' (bitcoin_inputs data) = observed_transfers ''bitcoin'' data"
    by (simp add: observed_transfers_def pointer_field inputs_simps del: pointer.simps)
  have "raw_limitations lib ''bitcoin'' (bitcoin_inputs data) = raw_limitations lib ''bitcoin'' data"
    by (simp add: raw_limitations_def x t unless_true_def inputs_simps del: pointer.simps)
  with s t show ?thesis by (simp add: assess_def)
qed

section \<open>An example\<close>

text \<open>A Bitcoin document with one exposure path that passes every check: ten satoshis of a reviewed seed enter a transaction,
  eight of them reach the address.\<close>

definition risky_policy_lib :: risk_lib where
  "risky_policy_lib = \<lparr>rk_f64 = (\<lambda>t. map_option of_nat (parse_u64 t)), rk_text = (\<lambda>x. show_nat (nat \<lfloor>x\<rfloor>)), rk_parse = (\<lambda>_. None),
     rk_digest = (\<lambda>_. ''d''), rk_source = ''''\<rparr>"

definition risky_seed :: json where
  "risky_seed = JObj [(''review_status'', JStr ''approved''), (''source_id'', JStr ''list''), (''evidence_refs'', JArr [JStr ''case'']),
     (''is_exposure_seed'', JBool True), (''address'', JStr ''bad''), (''network_id'', JStr bitcoin_network_id), (''active'', JBool True),
     (''reviewed_by'', JStr ''analyst''), (''reviewed_at_unix_ms'', jnat 5), (''valid_from_unix_ms'', jnat 5), (''confidence'', jnat 1),
     (''risk_level'', jnat 100)]"

definition risky_path :: json where
  "risky_path = JObj [(''network_id'', JStr bitcoin_network_id), (''asset_id'', JStr ''native:BTC''), (''run_id'', JStr ''r''),
     (''subject_id'', JStr ''me''), (''attribution_method'', JStr ''bitcoin_utxo_bounds_v1''), (''score_eligible'', JBool True),
     (''fund_continuity_claimed'', JBool False), (''ownership_claimed'', JBool False), (''path_id'', JStr ''p''),
     (''seed_claim'', risky_seed), (''seed_address'', JStr ''bad''),
     (''seed_snapshot'', JObj [(''contract'', JStr ''bitcoin_intelligence_v1''), (''network_id'', JStr bitcoin_network_id),
        (''address'', JStr ''bad''), (''snapshot_id'', JStr (replicate 64 (CHR ''a'')))]),
     (''hops'', JArr [JObj [(''tx_hash'', JStr ''t''), (''timestamp_unix_ms'', jnat 9),
        (''inputs'', JArr [JObj [(''value'', jnat 10), (''prev_tx_hash'', JStr ''s''), (''prev_output_index'', jnat 0),
           (''relationship_id'', JStr ''i''), (''subject'', JStr ''bad'')]]),
        (''output'', JObj [(''value'', jnat 8), (''index'', jnat 0), (''subject'', JStr ''me''), (''relationship_id'', JStr ''o'')])]]),
     (''allocation'', JObj [(''method'', JStr ''bitcoin_utxo_bounds_v1''), (''minimum_sats'', jtext 8), (''maximum_sats'', jtext 8),
        (''steps'', JArr [JObj [(''total_input_sats'', jtext 10), (''fee_sats'', jtext 1), (''lower_input_sats'', jtext 10),
           (''upper_input_sats'', jtext 10), (''output_sats'', jtext 8), (''lower_output_sats'', jtext 8), (''upper_output_sats'', jtext 8)]])]),
     (''hop_count'', jnat 1), (''relationship_ids'', JArr [JStr ''i'', JStr ''o'']), (''tx_hashes'', JArr [JStr ''t'']),
     (''amount_raw'', jtext 8), (''direction'', JStr ''RECEIVED_FROM_SEED''), (''time_weight'', jnat 1), (''amount_share'', jnat 1),
     (''exposure_score'', jnat 1)]"

definition risky_data :: json where
  "risky_data = JObj [(''network_id'', JStr bitcoin_network_id), (''address'', JStr ''me''),
     (''source_snapshot'', JObj [(''snapshot_id'', JStr ''x'')]), (''exposure_paths'', JArr [risky_path]),
     (''exposure_snapshot'', JObj [(''contract'', JStr ''bitcoin_exposure_v1''), (''current'', JBool True),
        (''network_id'', JStr bitcoin_network_id), (''address'', JStr ''me''), (''source_snapshot_id'', JStr ''x''), (''run_id'', JStr ''r''),
        (''path_ids'', JArr [JStr ''p''])])]"

lemma f64_small: "f64 0 = 0" "f64 1 = 1" "f64 8 = 8" "f64 55 = 55" "f64 100 = 100" "f64 550 = 550"
  using f64_of_nat[of 0] f64_of_nat[of 1] f64_of_nat[of 8] f64_of_nat[of 55] f64_of_nat[of 100] f64_of_nat[of 550] by simp_all

definition risky_hops :: "json list" where
  "risky_hops = array_of (member risky_path ''hops'')"

lemma risky_route: "exposure_route risky_path = Some (risky_hops, 8, 8)" by code_simp

lemma risky_fields:
  "as_u64 (field (field (last risky_hops) ''output'') ''value'') = Some 8"
  "float_of_json risky_policy_lib (field risky_path ''time_weight'') = Some (of_nat 1)"
  "float_of_json risky_policy_lib (field (field risky_path ''seed_claim'') ''confidence'') = Some (of_nat 1)"
  "as_u64 (field (field risky_path ''seed_claim'') ''risk_level'') = Some 100"
  "length risky_hops = 1"
  by code_simp+

lemma risky_numbers: "number risky_policy_lib (field risky_path ''amount_share'') = of_nat 1"
  "number risky_policy_lib (field risky_path ''exposure_score'') = of_nat 1"
  by code_simp+

lemma tolerance_between: "0 \<le> tolerance \<and> tolerance \<le> 1"
  using f64_between[of "1 / 1000000000000" 1] by (simp add: tolerance_def)

lemma risky_scored: "score_claim_ok risky_policy_lib risky_path risky_hops 8"
proof -
  have p: "f64_powi x 0 = 1" for x by (simp add: f64_powi_def powi_loop.simps Let_def)
  have s: "exposure_share 8 8 = 1" by (simp add: exposure_share_def f64_small)
  have m: "exposure_maximum 1 100 1 1 1 = 1" by (simp add: exposure_maximum_def p f64_small)
  have "1 \<le> f64 (1 + tolerance)" using f64_at_least[of 1 "1 + tolerance"] tolerance_between by simp
  then show ?thesis using tolerance_between
    by (simp add: score_claim_ok_def risky_fields risky_numbers Let_def s m[unfolded One_nat_def] f64_small)
qed

lemma risky_accepted: "bitcoin_exposure risky_policy_lib risky_path risky_data"
proof -
  have "exposure_framed risky_path risky_data" "seed_bound risky_path" "exposure_ends risky_path risky_data risky_hops"
    "seed_valid_at risky_path risky_hops" by code_simp+
  then show ?thesis by (simp add: bitcoin_exposure_def risky_route risky_scored)
qed

lemma risky_verdict: "path_verdict risky_policy_lib ''bitcoin'' risky_data risky_path = Scored 55"
proof -
  have "field risky_path ''service_mediated'' \<noteq> JBool True" "as_u64 (field risky_path ''hop_count'') = Some 1"
    "path_direction risky_path False = Some True" by code_simp+
  then show ?thesis
    by (simp add: path_verdict_def risky_accepted Let_def risky_numbers clamp_def path_weight_def weights f64_small)
qed

text \<open>A direct receipt from a reviewed seed, scored.\<close>

lemma risky_assessed:
  "let a = assess risky_policy_lib ''bitcoin'' risky_data in rs_score a = Some 55 \<and> rs_level a = ''MEDIUM'' \<and>
     map sg_kind (rs_signals a) = [''ILLICIT_SEED_EXPOSURE'']"
proof -
  have d: "exposure_paths ''bitcoin'' risky_data = [risky_path]" "best_label risky_policy_lib ''bitcoin'' risky_data = (0, JNull)"
    "mixer_events risky_policy_lib ''bitcoin'' risky_data = []" by code_simp+
  then have "scan_paths risky_policy_lib ''bitcoin'' risky_data = \<lparr>xs_score = 55, xs_evidence = risky_path, xs_notes = []\<rparr>"
    by (simp add: scan_paths_def tally_path_def risky_verdict)
  then have r: "map (\<lambda>s. (sg_kind s, sg_contribution s)) (raw_signals risky_policy_lib ''bitcoin'' risky_data) = [(''ILLICIT_SEED_EXPOSURE'', 55)]"
    using d by (simp add: raw_signals_def identity_of_def forwarding_pairs_def Let_def)
  then obtain s where "raw_signals risky_policy_lib ''bitcoin'' risky_data = [s]" "sg_kind s = ''ILLICIT_SEED_EXPOSURE''" "sg_contribution s = 55"
    by (auto simp: map_eq_Cons_conv)
  moreover have "\<lfloor>1101 / 2 :: rat\<rfloor> = 550" by (rule floor_unique) simp_all
  ultimately show ?thesis
    by (simp add: assess_def Let_def total_score_def f64_sum_def level_of_def weights f64_small f64_round_def)
qed

end
