(* ===== verification/Spec2Isabelle.thy ===== *)
theory Spec2Isabelle
  imports Amounts Identity Subjects Block_Extraction Evidence_Check Publication Fence Failures Tx_Context Patterns
    Exposure Clusters Analytics Row_Rules Writer Block_Window
    Reorganisation Repair Row_Types Risk_Policy
begin

text \<open>
  A model of the core of the AML platform: the shared warehouse library (\<open>shared/warehouse\<close>), the
  Bitcoin node (\<open>dockerizd_bitcoin\<close>) and the evidence policy every node scores with (\<open>shared/risk_policy\<close>).

  Data flows as follows. A window of blocks fetched over RPC, with the outputs its inputs spend, is turned into rows by the extraction; the evidence
  gate checks every stored row against the raw transaction it cites; the publication protocol writes the
  rows of a batch under a new revision, marks replaced blocks as orphans and moves a fence, so that the
  canonical views show either the old chain or the new one; the failure ledger records what could not be
  ingested and closes gaps found by scans of the canonical chain. Readers of the canonical views then
  build transaction contexts, and from these detect patterns, ownership leads and exposure routes. A
  worker sweeps all addresses and refreshes these analyses, with a checkpoint file as its only memory. The
  policy reads the documents of an address and turns the evidence that qualifies into signals, a score and a level.

  \<^bold>\<open>Theories\<close>
  \<^item> \<open>Prelude\<close>: results (a sum of an error message and a value), checked 64-bit arithmetic, ASCII text,
    the state-and-error operations \<open>io_then\<close>, \<open>io_attempt\<close>, \<open>io_ensure\<close>, and list lemmas.
    \<open>Json\<close>: documents. \<open>Io_Triples\<close>: Hoare triples over those operations.
  \<^item> \<open>Amounts\<close>: \<open>warehouse/src/types.rs\<close>; base-unit amounts and their decimal text.
  \<^item> \<open>Identity\<close>, \<open>Subjects\<close>: \<open>values.rs\<close>, \<open>relationships/model.rs\<close>; hashes, wallets, assets,
    relationship subjects and their identifiers.
  \<^item> \<open>Utxo\<close>, \<open>Block_Extraction\<close>, \<open>Evidence_Check\<close>: \<open>domain/model.rs\<close> and \<open>validate_evidence\<close> of
    \<open>db/warehouse.rs\<close>; rows of blocks, how they are extracted and how they are checked.
  \<^item> \<open>Publication\<close>, \<open>Fence\<close>: \<open>publication.rs\<close>; the store is an append-only list of rows with a write
    budget that can run out at any insert, which is how a crash is modelled.
  \<^item> \<open>Row_Rules\<close>: \<open>semantics.rs\<close> of the shared library and the rows, edges and graphs of
    \<open>relationships/model.rs\<close>; \<open>Row_Types\<close>: the column types as sets of values. \<open>Writer\<close>: \<open>storage/writer.rs\<close> and \<open>map_evidence\<close>; the write of one block.
  \<^item> \<open>Rpc_Client\<close>, \<open>Resolver\<close>, \<open>Block_Window\<close>: \<open>rpc.rs\<close>, \<open>resolver.rs\<close>, \<open>fetch.rs\<close> of \<open>bitcoin/\<close>; calls that are
    retried, previous outputs collected by bounded tasks in any order, and windows of linked blocks. The
    state \<open>world\<close> is the store, the random answers of the endpoints, and the tick of the next operation.
  \<^item> \<open>Failures\<close>: \<open>bitcoin/failures.rs\<close>; every operation of the ledger over the store it shares with the chain.
  \<^item> \<open>Ingestion\<close>, \<open>Reorganisation\<close>: \<open>bitcoin/ingestion.rs\<close>; commits, reconciliation and the loop over endpoints,
    and what a run makes of the published chain. \<open>Repair\<close>: \<open>bitcoin/repair.rs\<close>; repairs of selected heights.
  \<^item> \<open>Tx_Context\<close>: \<open>bitcoin/transactions.rs\<close>; the budgeted reader and the search for earlier and later
    spends. \<open>Patterns\<close>: the detectors and chains of \<open>semantics.rs\<close>.
  \<^item> \<open>Exposure\<close>: \<open>exposure/bounds.rs\<close>, \<open>exposure/trace.rs\<close>; value bounds and the bounded search for routes.
    \<open>Clusters\<close>: \<open>clustering/detect.rs\<close>, \<open>clustering/store.rs\<close>; ownership leads, frames and reviews.
  \<^item> \<open>Analytics\<close>: \<open>analytics/mod.rs\<close>, \<open>engine.rs\<close>, \<open>checkpoint.rs\<close>; the worker.
  \<^item> \<open>Float64\<close>: the arithmetic of \<open>f64\<close> on its finite values. \<open>Risk_Policy\<close>: \<open>risk_policy/src/lib.rs\<close>; labels,
    the check of exposure documents, forwarding pairs, the assessment and its binding.

  \<^bold>\<open>What the lemmas show\<close>
  \<^item> Amounts, identifiers and normal forms are exact and injective, and parsing is the inverse of printing.
  \<^item> Extraction keeps the balance of a transaction and spends no output twice; the evidence gate decides
    a declarative definition of agreement.
  \<^item> Publishing, interrupted anywhere, leaves the canonical chain what it was or makes it the intended one,
    and never uses a revision again; one ordering of an interrupted rollback and an extension of the old
    branch does lose a block, and this is proved on an example.
  \<^item> A relationship row that is accepted names its leg, every leg of admitted evidence maps to such a row,
    and a block is written completely or leaves the visible chain as it was; one that does not fit is refused before anything is written. Graphs stay closed when merged.
  \<^item> Batched calls are answered whatever order the answers come in, and a call is tried a bounded number of
    times; a resolution serves every input its validated output, and a window is a chain of the asked heights.
  \<^item> A run of the loop, of any length and with any answers, keeps the published chain linked and free of gaps;
    only the primary endpoint takes blocks back, within the configured depth, and reconciliation with an
    endpoint that keeps to one chain ends at the highest block both agree on. A repair only extends the chain,
    works through its heights in order, and reports as complete only what is published.
  \<^item> A clean scan certifies the chain, a scan reports every gap, the ledger's retries are bounded and a
    recovery settles what it repaired.
  \<^item> Readers keep their budgets, answers follow real outpoints, detectors report exactly the patterns
    their rule describes, routes are actual chains of spends, and value bounds are exact.
  \<^item> Leads keep to their guards; a frame is verified against its own content; a review changes nothing else.
  \<^item> The worker's state stays sound through every failure of the database, clock or disk; a job whose
    checkpoint failed stays running until the worker is reopened, again shown on an example.
  \<^item> An assessment is bounded by the policy's weights whatever the documents hold; the Bitcoin exposure it scores states
    exact amounts of a linked route from or to a reviewed seed; the bound inputs determine the assessment.

  \<^bold>\<open>Conventions\<close>
  Strings are character lists; unsigned 64-bit values are natural numbers with the source's checked,
  saturating or wrapping operations written out against \<open>u64_lim\<close>; an error is an \<open>Inl\<close> with the source's
  message. The loops of the source run over lists, so recursion is structural; the open-ended ones (the
  search over contexts and the chains of spends) carry the source's own hop and work limits, and no other
  fuel is used. The ingestion loop, which need not end, is run for a given number of rounds, and what is
  proved of it holds for every number; a repair gives it two rounds, which are proved to be enough. SHA-256, the serialisation of documents, address decoding, the bitcoin
  crate and the ClickHouse queries are parameters; where a theorem needs something of them, such as
  injectivity of the digest, it is a named hypothesis and a witness instantiates it. A finite \<open>f64\<close> is a rational number and every
  operation on it rounds to the nearest representable one; signed zeros are not told apart and overflow, which the
  weights and the clamped inputs exclude, is not represented.

  \<^bold>\<open>Not modelled\<close>
  The RPC and database transports, SQL text and schema migrations, HTTP routing and command lines
  (pure input and output), the waits between rounds and the writer's lock file; the loading of documents around the policy in \<open>risk.rs\<close>; the Ethereum, BSC and Tron nodes and
  the cross-chain aggregator, which repeat the publication protocol modelled here around their own sources.
\<close>

end
